(* ===== verification/Chamlon_Prelude.thy ===== *)
theory Chamlon_Prelude
  imports Main "HOL-Library.Word" "HOL-Library.Multiset"
begin

text \<open>
  Shared vocabulary of the development: the machine types of the C sources, byte buffers
  with \<open>memcpy\<close>, \<open>memset\<close> and slices, little-endian and big-endian images of integers,
  first-match searches over fixed-size tables (the \<open>for (i = 0; i < N; i++) if (...)\<close>
  loops of the sources), and the fact collections the component theories use.
\<close>

unbundle bit_operations_syntax

named_theorems config_defs \<open>the numeric constants of \<open>config.h\<close> and the other headers\<close>
named_theorems buffer_simps \<open>lengths and elements of byte buffers\<close>

section \<open>Machine types\<close>

type_synonym byte = "8 word"
type_synonym u16 = "16 word"
type_synonym u32 = "32 word"
type_synonym u64 = "64 word"
type_synonym bytes = "byte list"
type_synonym time_t = int

lemma unat_u64_bound: "unat (x :: u64) < 2 ^ 64"
  using unsigned_less [of x] by simp

lemma unat_u64_pos: "(x :: u64) \<noteq> 0 \<Longrightarrow> 0 < unat x"
  by (simp add: unat_gt_0)

lemma unat_u64_add:
  "unat (x + y :: u64) =
     (if unat x + unat y < 2 ^ 64 then unat x + unat y else unat x + unat y - 2 ^ 64)"
  by (simp add: unat_plus_if')

section \<open>Byte buffers\<close>

text \<open>\<open>memcpy (dst + off, src, |src|)\<close> on a buffer, and \<open>memset\<close> in terms of it.\<close>

definition memcpy_at :: "'a list \<Rightarrow> nat \<Rightarrow> 'a list \<Rightarrow> 'a list" where
  "memcpy_at dst off src = take off dst @ src @ drop (off + length src) dst"

definition memset_at :: "'a list \<Rightarrow> nat \<Rightarrow> 'a \<Rightarrow> nat \<Rightarrow> 'a list" where
  "memset_at dst off v n = memcpy_at dst off (replicate n v)"

definition slice :: "'a list \<Rightarrow> nat \<Rightarrow> nat \<Rightarrow> 'a list" where
  "slice buf off n = take n (drop off buf)"

lemma length_memcpy_at [buffer_simps]:
  "off + length src \<le> length dst \<Longrightarrow> length (memcpy_at dst off src) = length dst"
  by (simp add: memcpy_at_def)

lemma length_memset_at [buffer_simps]:
  "off + n \<le> length dst \<Longrightarrow> length (memset_at dst off v n) = length dst"
  by (simp add: memset_at_def buffer_simps)

lemma length_slice [buffer_simps]:
  "off + n \<le> length buf \<Longrightarrow> length (slice buf off n) = n"
  by (simp add: slice_def)

lemma memcpy_at_0 [simp]: "memcpy_at dst 0 src = src @ drop (length src) dst"
  by (simp add: memcpy_at_def)

lemma memcpy_at_Nil [simp]: "memcpy_at dst off [] = dst"
  by (simp add: memcpy_at_def)

lemma take_memcpy_at:
  "off \<le> length dst \<Longrightarrow> take off (memcpy_at dst off src) = take off dst"
  by (simp add: memcpy_at_def)

lemma take_memcpy_at_end:
  "off \<le> length dst \<Longrightarrow>
   take (off + length src) (memcpy_at dst off src) = take off dst @ src"
  by (simp add: memcpy_at_def)

lemma take_memcpy_at_prefix:
  "off \<le> length dst \<Longrightarrow> n \<le> length src \<Longrightarrow>
   take (off + n) (memcpy_at dst off src) = take off dst @ take n src"
  by (simp add: memcpy_at_def)

lemma slice_append_skip [simp]:
  "length xs = off \<Longrightarrow> slice (xs @ ys) off n = take n ys"
  by (simp add: slice_def)

lemma slice_append_exact:
  "length xs = off \<Longrightarrow> length ys = n \<Longrightarrow> slice (xs @ ys @ zs) off n = ys"
  by (simp add: slice_def)

lemma take_slice_snoc:
  "take (off + n) xs = take off xs @ slice xs off n"
  by (simp add: slice_def take_add)

section \<open>Little-endian and big-endian images\<close>

definition le16 :: "u16 \<Rightarrow> bytes" where
  "le16 x = [ucast x, ucast (drop_bit 8 x)]"

definition of_le16 :: "bytes \<Rightarrow> u16" where
  "of_le16 bs = ucast (bs ! 0) OR push_bit 8 (ucast (bs ! 1))"

definition le32 :: "u32 \<Rightarrow> bytes" where
  "le32 x = [ucast x, ucast (drop_bit 8 x), ucast (drop_bit 16 x), ucast (drop_bit 24 x)]"

definition of_le32 :: "bytes \<Rightarrow> u32" where
  "of_le32 bs = ucast (bs ! 0) OR push_bit 8 (ucast (bs ! 1)) OR
     push_bit 16 (ucast (bs ! 2)) OR push_bit 24 (ucast (bs ! 3))"

definition be64 :: "u64 \<Rightarrow> bytes" where
  "be64 x = map (\<lambda>i. ucast (drop_bit (56 - 8 * i) x)) [0..<8]"

fun of_be :: "u64 \<Rightarrow> bytes \<Rightarrow> u64" where
  "of_be acc [] = acc"
| "of_be acc (b # bs) = of_be (push_bit 8 acc OR ucast b) bs"

lemma length_le16 [simp]: "length (le16 x) = 2"
  by (simp add: le16_def)

lemma length_le32 [simp]: "length (le32 x) = 4"
  by (simp add: le32_def)

lemma length_be64 [simp]: "length (be64 x) = 8"
  by (simp add: be64_def)

lemma le16_roundtrip [simp]: "of_le16 (le16 x @ ys) = x"
  by (rule bit_word_eqI) (auto simp: of_le16_def le16_def bit_simps)

lemma le32_roundtrip [simp]: "of_le32 (le32 x @ ys) = x"
proof (rule bit_word_eqI)
  fix n assume "n < LENGTH(32)"
  then have n: "n < 32" by simp
  consider "n < 8" | "8 \<le> n" "n < 16" | "16 \<le> n" "n < 24" | "24 \<le> n" by linarith
  then show "bit (of_le32 (le32 x @ ys)) n = bit x n"
    by cases (use n in \<open>simp_all add: of_le32_def le32_def bit_simps less_diff_conv2\<close>)
qed

lemma be64_explicit:
  "be64 x = [ucast (drop_bit 56 x), ucast (drop_bit 48 x), ucast (drop_bit 40 x),
     ucast (drop_bit 32 x), ucast (drop_bit 24 x), ucast (drop_bit 16 x),
     ucast (drop_bit 8 x), ucast x]"
  by (simp add: be64_def upt_conv_Cons)

lemma be64_roundtrip: "of_be 0 (be64 x) = x"
proof (rule bit_word_eqI)
  fix n assume "n < LENGTH(64)"
  then have n: "n < 64" by simp
  consider "n < 8" | "8 \<le> n" "n < 16" | "16 \<le> n" "n < 24" | "24 \<le> n" "n < 32"
    | "32 \<le> n" "n < 40" | "40 \<le> n" "n < 48" | "48 \<le> n" "n < 56" | "56 \<le> n" by arith
  then show "bit (of_be 0 (be64 x)) n = bit x n"
    by cases (use n in \<open>simp_all add: be64_explicit bit_simps less_diff_conv2\<close>)
qed

lemma be64_inject [simp]: "be64 x = be64 y \<longleftrightarrow> x = y"
  by (metis be64_roundtrip)

section \<open>First-match scans of fixed-size tables\<close>

text \<open>
  \<open>find_index P xs\<close> is the index at which
  \<open>for (int i = 0; i < N; i++) if (P (tab[i])) ...\<close> stops, \<open>None\<close> if it runs through.
\<close>

fun find_index :: "('a \<Rightarrow> bool) \<Rightarrow> 'a list \<Rightarrow> nat option" where
  "find_index P [] = None"
| "find_index P (x # xs) = (if P x then Some 0 else map_option Suc (find_index P xs))"

lemma find_index_Some_iff:
  "find_index P xs = Some i \<longleftrightarrow> i < length xs \<and> P (xs ! i) \<and> (\<forall>j<i. \<not> P (xs ! j))"
proof (induction xs arbitrary: i)
  case Nil
  then show ?case by simp
next
  case (Cons x xs)
  show ?case
  proof (cases i)
    case 0
    then show ?thesis by auto
  next
    case (Suc k)
    then show ?thesis by (auto simp: Cons.IH less_Suc_eq_0_disj)
  qed
qed

lemma find_index_None_iff: "find_index P xs = None \<longleftrightarrow> (\<forall>x\<in>set xs. \<not> P x)"
  by (induction xs) auto

lemma find_index_SomeD:
  assumes "find_index P xs = Some i"
  shows "i < length xs" and "P (xs ! i)" and "\<And>j. j < i \<Longrightarrow> \<not> P (xs ! j)"
  using assms by (auto simp: find_index_Some_iff)

lemma find_index_unique:
  assumes "i < length xs" and "P (xs ! i)"
    and "\<And>j. j < length xs \<Longrightarrow> P (xs ! j) \<Longrightarrow> j = i"
  shows "find_index P xs = Some i"
proof -
  have "\<not> P (xs ! j)" if "j < i" for j
    using that assms(1) assms(3) [of j] by auto
  with assms(1,2) show ?thesis by (simp add: find_index_Some_iff)
qed

lemma find_index_cong:
  "(\<And>x. x \<in> set xs \<Longrightarrow> P x = Q x) \<Longrightarrow> find_index P xs = find_index Q xs"
  by (induction xs) auto

end
