(* ===== verification/Replay_Window.thy ===== *)
theory Replay_Window
  imports Chamlon_Prelude
begin

text \<open>
  The sliding-window replay filter: \<open>check_replay\<close> and \<open>update_window\<close> of the server
  (\<open>chamlon_server/src/replay_window.c\<close>) and of the client
  (\<open>chamlon_client/src/vpn_replay_window.c\<close>). The bitmap is a list of 64-bit words and the
  shifting loops update it in place, word by word, as the code does. A write past the end
  of the bitmap, which \<open>update_window\<close> performs when it is handed a sequence number left
  of the window, is the result \<open>None\<close>.

  The abstract specification is the set of the sequence numbers accepted so far. The locale
  \<open>anti_replay\<close> is the contract the packet handlers rely on; both implementations
  interpret it.
\<close>

section \<open>The server's window\<close>

definition WINDOW_SIZE :: nat where [config_defs]: "WINDOW_SIZE = 64"
definition WORD_SIZE :: nat where [config_defs]: "WORD_SIZE = 64"
definition BITMAP_WORDS :: nat where [config_defs]: "BITMAP_WORDS = WINDOW_SIZE div WORD_SIZE"

record replay_window =
  recv_max :: u64
  bitmap :: "u64 list"

definition replay_window_zero :: replay_window where
  "replay_window_zero = \<lparr>recv_max = 0, bitmap = replicate BITMAP_WORDS 0\<rparr>"

definition check_replay :: "u64 \<Rightarrow> replay_window \<Rightarrow> bool" where
  "check_replay seq w =
     (if seq = 0 then True
      else if seq > recv_max w then False
      else if seq + of_nat WINDOW_SIZE \<le> recv_max w then True
      else
        let diff = recv_max w - seq;
            bit_index = diff;
            wrd = bit_index div of_nat WORD_SIZE;
            bt = bit_index mod of_nat WORD_SIZE
        in (bitmap w ! unat wrd) AND push_bit (unat bt) 1 \<noteq> 0)"

text \<open>The loops \<open>for (int i = BITMAP_WORDS - 1; i >= 0; i--)\<close>; the argument is \<open>i + 1\<close>.\<close>

fun shift_words :: "nat \<Rightarrow> nat \<Rightarrow> u64 list \<Rightarrow> u64 list" where
  "shift_words word_shift 0 bm = bm"
| "shift_words word_shift (Suc i) bm =
     shift_words word_shift i (bm[i := (if i \<ge> word_shift then bm ! (i - word_shift) else 0)])"

fun shift_bits :: "nat \<Rightarrow> nat \<Rightarrow> u64 list \<Rightarrow> u64 list" where
  "shift_bits bit_shift 0 bm = bm"
| "shift_bits bit_shift (Suc i) bm =
     (let high = push_bit bit_shift (bm ! i);
          carry = (if i > 0 then drop_bit (WORD_SIZE - bit_shift) (bm ! (i - 1)) else 0)
      in shift_bits bit_shift i (bm[i := high OR carry]))"

definition shift_bitmap :: "nat \<Rightarrow> u64 list \<Rightarrow> u64 list" where
  "shift_bitmap shift bm =
     (if shift \<ge> WORD_SIZE then
        let word_shift = shift div WORD_SIZE;
            bit_shift = shift mod WORD_SIZE;
            bm1 = shift_words word_shift BITMAP_WORDS bm
        in if bit_shift \<noteq> 0 then shift_bits bit_shift BITMAP_WORDS bm1 else bm1
      else shift_bits shift BITMAP_WORDS bm)"

definition update_window :: "u64 \<Rightarrow> replay_window \<Rightarrow> replay_window option" where
  "update_window seq w =
     (if seq = 0 then Some w
      else
        let w1 =
          (if seq > recv_max w then
             let diff = seq - recv_max w;
                 bm = (if diff \<ge> of_nat WINDOW_SIZE then replicate (length (bitmap w)) 0
                       else
                         let bm1 = shift_bitmap (unat diff) (bitmap w);
                             mask = (if diff \<ge> 64 then 0 else push_bit (unat diff) 1 - 1)
                         in bm1[0 := (bm1 ! 0) AND NOT mask])
             in w\<lparr>recv_max := seq, bitmap := bm\<rparr>
           else w);
            diff = recv_max w1 - seq;
            bit_index = diff;
            wrd = unat (bit_index div of_nat WORD_SIZE);
            bt = unat (bit_index mod of_nat WORD_SIZE)
        in if wrd < length (bitmap w1)
           then Some (w1\<lparr>bitmap := (bitmap w1)[wrd := (bitmap w1 ! wrd) OR push_bit bt 1]\<rparr>)
           else None)"

section \<open>The shifting loops on the whole bitmap\<close>

text \<open>\<open>gbit bm k\<close> is bit \<open>k\<close> of the bitmap read as one long integer, word 0 lowest.\<close>

definition gbit :: "u64 list \<Rightarrow> nat \<Rightarrow> bool" where
  "gbit bm k \<longleftrightarrow> k div 64 < length bm \<and> bit (bm ! (k div 64)) (k mod 64)"

lemma length_shift_words [simp]: "length (shift_words ws n bm) = length bm"
  by (induction ws n bm rule: shift_words.induct) simp_all

lemma length_shift_bits [simp]: "length (shift_bits bs n bm) = length bm"
  by (induction bs n bm rule: shift_bits.induct) (simp_all add: Let_def)

lemma length_shift_bitmap [simp]: "length (shift_bitmap s bm) = length bm"
  by (simp add: shift_bitmap_def Let_def)

lemma shift_bitmap_Nil [simp]: "shift_bitmap s bm = [] \<longleftrightarrow> bm = []"
  by (metis length_0_conv length_shift_bitmap)

lemma shift_words_nth:
  "n \<le> length bm \<Longrightarrow> j < length bm \<Longrightarrow>
   shift_words ws n bm ! j =
     (if j < n then if j \<ge> ws then bm ! (j - ws) else 0 else bm ! j)"
proof (induction ws n bm rule: shift_words.induct)
  case (1 ws bm)
  then show ?case by simp
next
  case (2 ws i bm)
  then show ?case by (auto simp: nth_list_update less_Suc_eq)
qed

lemma shift_bits_nth:
  "n \<le> length bm \<Longrightarrow> j < length bm \<Longrightarrow>
   shift_bits bs n bm ! j =
     (if j < n
      then push_bit bs (bm ! j) OR (if j > 0 then drop_bit (64 - bs) (bm ! (j - 1)) else 0)
      else bm ! j)"
proof (induction bs n bm rule: shift_bits.induct)
  case (1 bs bm)
  then show ?case by simp
next
  case (2 bs i bm)
  then show ?case by (auto simp: Let_def nth_list_update config_defs less_Suc_eq)
qed

lemma gbit_split: "r < 64 \<Longrightarrow> gbit bm (64 * q + r) \<longleftrightarrow> q < length bm \<and> bit (bm ! q) r"
  by (simp add: gbit_def)

lemma gbit_shift_words:
  assumes "k < 64 * length bm"
  shows "gbit (shift_words ws (length bm) bm) k \<longleftrightarrow> 64 * ws \<le> k \<and> gbit bm (k - 64 * ws)"
proof -
  obtain q r where k: "k = 64 * q + r" and r: "r < 64"
    by (metis mult_div_mod_eq mod_less_divisor zero_less_numeral)
  have q: "q < length bm" using assms k by simp
  show ?thesis
  proof (cases "ws \<le> q")
    case True
    then have "k - 64 * ws = 64 * (q - ws) + r" by (simp add: k diff_mult_distrib2)
    then show ?thesis using True q r by (auto simp: k gbit_split shift_words_nth)
  next
    case False
    then show ?thesis using q r by (auto simp: k gbit_split shift_words_nth)
  qed
qed

lemma gbit_shift_bits:
  assumes "k < 64 * length bm" and "0 < bs" and "bs < 64"
  shows "gbit (shift_bits bs (length bm) bm) k \<longleftrightarrow> bs \<le> k \<and> gbit bm (k - bs)"
proof -
  obtain q r where k: "k = 64 * q + r" and r: "r < 64"
    by (metis mult_div_mod_eq mod_less_divisor zero_less_numeral)
  have q: "q < length bm" using assms k by simp
  have step: "gbit (shift_bits bs (length bm) bm) k \<longleftrightarrow>
      bs \<le> r \<and> bit (bm ! q) (r - bs) \<or> 0 < q \<and> bit (bm ! (q - 1)) (64 - bs + r)"
    using q r by (auto simp: k gbit_split shift_bits_nth bit_simps)
  show ?thesis
  proof (cases "bs \<le> r")
    case True
    then have kb: "k - bs = 64 * q + (r - bs)" and no: "\<not> bit (bm ! (q - 1)) (64 - bs + r)"
      by (auto simp: k dest: bit_imp_le_length)
    have "gbit bm (k - bs) \<longleftrightarrow> bit (bm ! q) (r - bs)"
      unfolding kb using q r by (subst gbit_split) auto
    then show ?thesis using step no True by (simp add: k)
  next
    case False
    show ?thesis
    proof (cases q)
      case 0
      then show ?thesis using step False by (simp add: k)
    next
      case (Suc q')
      then have "k - bs = 64 * q' + (64 - bs + r)" and "bs \<le> k"
        using assms(3) False by (simp_all add: k)
      moreover have "gbit bm (64 * q' + (64 - bs + r)) \<longleftrightarrow> bit (bm ! q') (64 - bs + r)"
        using False Suc q assms(3) by (subst gbit_split) auto
      ultimately show ?thesis using step False Suc by simp
    qed
  qed
qed

lemma gbit_shift_bitmap:
  assumes len: "length bm = BITMAP_WORDS" and k: "k < 64 * length bm" and s: "0 < s"
  shows "gbit (shift_bitmap s bm) k \<longleftrightarrow> s \<le> k \<and> gbit bm (k - s)"
proof (cases "64 \<le> s")
  case True
  define ws bs where "ws = s div 64" and "bs = s mod 64"
  define bm1 where "bm1 = shift_words ws (length bm) bm"
  have s_eq: "s = 64 * ws + bs" and bs: "bs < 64" by (simp_all add: ws_def bs_def)
  have eq: "shift_bitmap s bm = (if bs \<noteq> 0 then shift_bits bs (length bm1) bm1 else bm1)"
    using True by (simp add: shift_bitmap_def Let_def WORD_SIZE_def ws_def bs_def bm1_def len)
  have g1: "gbit bm1 j \<longleftrightarrow> 64 * ws \<le> j \<and> gbit bm (j - 64 * ws)" if "j < 64 * length bm" for j
    unfolding bm1_def using that by (rule gbit_shift_words)
  show ?thesis
  proof (cases "bs = 0")
    case True
    then show ?thesis unfolding eq using g1 [OF k] by (simp add: s_eq)
  next
    case False
    have "gbit (shift_bits bs (length bm1) bm1) k \<longleftrightarrow> bs \<le> k \<and> gbit bm1 (k - bs)"
      by (rule gbit_shift_bits) (use k bs False in \<open>simp_all add: bm1_def\<close>)
    with False show ?thesis unfolding eq using g1 [of "k - bs"] k by (auto simp: s_eq add.commute)
  qed
next
  case False
  then have "shift_bitmap s bm = shift_bits s (length bm) bm"
    by (simp add: shift_bitmap_def WORD_SIZE_def len)
  with False show ?thesis using k s by (simp add: gbit_shift_bits)
qed

lemma bit_low_mask: "d < 64 \<Longrightarrow> bit (2 ^ d - 1 :: u64) j \<longleftrightarrow> j < d"
  using bit_mask_iff [where 'a = u64, of d j]
  by (auto simp: mask_eq_exp_minus_1)

lemma gbit_update_word:
  assumes "q < length bm" and "r < 64"
  shows "gbit (bm[q := (bm ! q) OR push_bit r 1]) k \<longleftrightarrow> gbit bm k \<or> k = 64 * q + r"
proof (cases "k div 64 = q")
  case True
  then have "k = 64 * q + k mod 64" using mult_div_mod_eq [of 64 k] by simp
  then have "k = 64 * q + r \<longleftrightarrow> k mod 64 = r" by linarith
  with True assms show ?thesis
    by (auto simp: gbit_def bit_simps nth_list_update)
next
  case False
  with assms show ?thesis by (auto simp: gbit_def nth_list_update)
qed


section \<open>Specification: the set of accepted sequence numbers\<close>

text \<open>The right edge of the window is the largest number accepted so far, 0 at the start.\<close>

definition right_edge :: "nat set \<Rightarrow> nat" where
  "right_edge S = Max (insert 0 S)"

definition replay_spec :: "nat set \<Rightarrow> nat \<Rightarrow> bool" where
  "replay_spec S seq \<longleftrightarrow>
     seq = 0 \<or> seq \<in> S \<or> seq + WINDOW_SIZE \<le> right_edge S \<or>
     seq \<le> right_edge S \<and> 2 ^ 64 - WINDOW_SIZE \<le> seq"

definition window_rel :: "replay_window \<Rightarrow> nat set \<Rightarrow> bool" where
  "window_rel w S \<longleftrightarrow>
     length (bitmap w) = BITMAP_WORDS \<and> finite S \<and> 0 \<notin> S \<and> unat (recv_max w) = right_edge S \<and>
     (\<forall>k < 64 * length (bitmap w). k < right_edge S \<longrightarrow>
        gbit (bitmap w) k = (right_edge S - k \<in> S))"

lemma right_edge_empty [simp]: "right_edge {} = 0"
  by (simp add: right_edge_def)

lemma right_edge_insert: "finite S \<Longrightarrow> right_edge (insert n S) = max n (right_edge S)"
  unfolding right_edge_def by (subst insert_commute) simp

lemma right_edge_ge: "finite S \<Longrightarrow> n \<in> S \<Longrightarrow> n \<le> right_edge S"
  by (simp add: right_edge_def)

lemma unat_window: "unat (of_nat WINDOW_SIZE :: u64) = WINDOW_SIZE"
  by (simp add: config_defs)

lemma window_rel_zero: "window_rel replay_window_zero {}"
  by (simp add: window_rel_def replay_window_zero_def)

lemma check_replay_gbit:
  assumes "seq \<noteq> 0" and "seq \<le> recv_max w" and "\<not> seq + of_nat WINDOW_SIZE \<le> recv_max w"
    and "length (bitmap w) = BITMAP_WORDS"
  shows "check_replay seq w \<longleftrightarrow> gbit (bitmap w) (unat (recv_max w) - unat seq)"
    and "unat (recv_max w) - unat seq < 64 * length (bitmap w)"
proof -
  have sub: "unat (recv_max w - seq) = unat (recv_max w) - unat seq"
    using assms(2) by (simp add: unat_sub)
  have lt: "unat (recv_max w) - unat seq < 64"
    using assms(2,3) by (simp add: config_defs) unat_arith
  then show "unat (recv_max w) - unat seq < 64 * length (bitmap w)"
    using assms(4) by (simp add: config_defs)
  have "(bitmap w ! 0 AND push_bit n 1 \<noteq> 0) = bit (bitmap w ! 0) n" if "n < 64" for n
    using that by (simp add: and_exp_eq_0_iff_not_bit push_bit_of_1)
  then show "check_replay seq w \<longleftrightarrow> gbit (bitmap w) (unat (recv_max w) - unat seq)"
    using assms lt linorder_not_less [THEN iffD2, OF assms(2)]
    by (simp add: check_replay_def Let_def gbit_def config_defs unat_div unat_mod sub)
qed

lemma gbit_clear_low:
  assumes "d < 64" and "bm \<noteq> []" and "\<And>j. j < d \<Longrightarrow> \<not> gbit bm j"
  shows "gbit (bm[0 := bm ! 0 AND NOT (push_bit d 1 - 1)]) k \<longleftrightarrow> gbit bm k"
proof (cases "k div 64 = 0")
  case True
  then have k: "k < 64" by (simp add: div_eq_0_iff)
  show ?thesis
  proof (cases "k < d")
    case True
    then show ?thesis using assms(3) [of k] assms(1,2) k
      by (simp add: gbit_def bit_simps bit_low_mask)
  next
    case False
    then show ?thesis using assms(1,2) k by (simp add: gbit_def bit_simps bit_low_mask)
  qed
next
  case False
  then show ?thesis by (simp add: gbit_def)
qed

text \<open>The bitmap after the window has moved right to a new edge, before the new bit is set.\<close>

definition slid :: "u64 \<Rightarrow> replay_window \<Rightarrow> u64 list" where
  "slid seq w =
     (let diff = seq - recv_max w in
      if diff \<ge> of_nat WINDOW_SIZE then replicate (length (bitmap w)) 0
      else
        let bm1 = shift_bitmap (unat diff) (bitmap w);
            mask = (if diff \<ge> 64 then 0 else push_bit (unat diff) 1 - 1)
        in bm1[0 := (bm1 ! 0) AND NOT mask])"

lemma length_slid [simp]: "length (slid seq w) = length (bitmap w)"
  by (simp add: slid_def Let_def)

lemma gbit_slid:
  assumes "recv_max w < seq" and len: "length (bitmap w) = BITMAP_WORDS" and k: "k < 64 * length (bitmap w)"
  defines "d \<equiv> unat seq - unat (recv_max w)"
  shows "gbit (slid seq w) k \<longleftrightarrow> d \<le> k \<and> gbit (bitmap w) (k - d)"
proof -
  have sub: "unat (seq - recv_max w) = d" and d0: "0 < d"
    using assms(1) unat_sub [OF less_imp_le [OF assms(1)]]
    by (simp_all add: d_def word_less_nat_alt)
  have ge: "of_nat WINDOW_SIZE \<le> seq - recv_max w \<longleftrightarrow> 64 \<le> d"
    by (simp add: word_le_nat_alt sub config_defs)
  have k64: "k < 64" using k len by (simp add: config_defs)
  show ?thesis
  proof (cases "64 \<le> d")
    case True
    then show ?thesis using k64 len ge by (simp add: slid_def Let_def gbit_def config_defs)
  next
    case False
    define bm1 where "bm1 = shift_bitmap d (bitmap w)"
    have g: "gbit bm1 j \<longleftrightarrow> d \<le> j \<and> gbit (bitmap w) (j - d)" if "j < 64" for j
      unfolding bm1_def by (rule gbit_shift_bitmap [OF len _ d0]) (use that len in \<open>simp add: config_defs\<close>)
    have "slid seq w = bm1[0 := bm1 ! 0 AND NOT (push_bit d 1 - 1)]"
      using False ge by (simp add: slid_def Let_def bm1_def sub word_le_nat_alt config_defs)
    moreover have "gbit (bm1[0 := bm1 ! 0 AND NOT (push_bit d 1 - 1)]) k \<longleftrightarrow> gbit bm1 k"
      by (rule gbit_clear_low) (use False len g in \<open>auto simp: bm1_def config_defs\<close>)
    ultimately show ?thesis using g k64 by simp
  qed
qed

lemma update_window_newer:
  assumes "recv_max w < seq" and "length (bitmap w) = BITMAP_WORDS"
  shows "update_window seq w =
     Some \<lparr>recv_max = seq, bitmap = (slid seq w)[0 := (slid seq w ! 0) OR push_bit 0 1]\<rparr>"
proof -
  have "seq \<noteq> 0" using assms(1) by auto
  moreover have "w\<lparr>recv_max := seq, bitmap := b\<rparr> = \<lparr>recv_max = seq, bitmap = b\<rparr>" for b by simp
  ultimately show ?thesis using assms length_slid [of seq w]
    by (simp add: update_window_def slid_def Let_def config_defs)
qed

lemma update_window_inside:
  assumes "seq \<noteq> 0" and "seq \<le> recv_max w" and "unat (recv_max w) - unat seq < 64"
    and "length (bitmap w) = BITMAP_WORDS"
  shows "update_window seq w =
     Some (w\<lparr>bitmap := (bitmap w)[0 := (bitmap w ! 0) OR
       push_bit (unat (recv_max w) - unat seq) 1]\<rparr>)"
  using assms linorder_not_less [THEN iffD2, OF assms(2)]
  by (simp add: update_window_def Let_def config_defs unat_div unat_mod unat_sub)

lemma update_window_rel_newer:
  assumes rel: "window_rel w S" and new: "\<not> check_replay seq w" and newer: "recv_max w < seq"
  shows "\<exists>w'. update_window seq w = Some w' \<and> window_rel w' (insert (unat seq) S)"
proof -
  have len: "length (bitmap w) = BITMAP_WORDS" and fin: "finite S" and S0: "0 \<notin> S"
    and edge: "unat (recv_max w) = right_edge S"
    and bits: "\<And>k. k < 64 * length (bitmap w) \<Longrightarrow> k < right_edge S \<Longrightarrow>
        gbit (bitmap w) k = (right_edge S - k \<in> S)"
    using rel by (auto simp: window_rel_def)
  have seq0: "seq \<noteq> 0" using new by (auto simp: check_replay_def)
  have len1: "length (bitmap w) = 1" using len by (simp add: config_defs)
  define d where "d = unat seq - right_edge S"
  have lt: "right_edge S < unat seq" using newer edge by (simp add: word_less_nat_alt)
  have mem: "unat seq - k \<in> S \<longleftrightarrow> d \<le> k \<and> right_edge S - (k - d) \<in> S" if "k < unat seq" for k
  proof (cases "d \<le> k")
    case False
    then have "right_edge S < unat seq - k" using that by (simp add: d_def)
    then show ?thesis using False right_edge_ge [OF fin, of "unat seq - k"] by auto
  next
    case True
    then have "right_edge S - (k - d) = unat seq - k" using lt that by (simp add: d_def)
    then show ?thesis using True by simp
  qed
  have g: "gbit ((slid seq w)[0 := (slid seq w ! 0) OR push_bit 0 1]) k \<longleftrightarrow>
      unat seq - k \<in> insert (unat seq) S" if k: "k < 64" "k < unat seq" for k
  proof -
    have "gbit ((slid seq w)[0 := (slid seq w ! 0) OR push_bit 0 1]) k \<longleftrightarrow> gbit (slid seq w) k \<or> k = 0"
      using gbit_update_word [of 0 "slid seq w" 0 k] len1 by simp
    also have "gbit (slid seq w) k \<longleftrightarrow> d \<le> k \<and> gbit (bitmap w) (k - d)"
      using gbit_slid [OF newer len, of k] k(1) len1 by (simp add: d_def edge)
    also have "\<dots> \<longleftrightarrow> d \<le> k \<and> right_edge S - (k - d) \<in> S"
      using bits [of "k - d"] k len1 lt by (auto simp: d_def)
    also have "\<dots> \<longleftrightarrow> unat seq - k \<in> S" using mem [OF k(2)] by simp
    finally show ?thesis using k(2) by auto
  qed
  have "right_edge (insert (unat seq) S) = unat seq"
    using lt by (simp add: right_edge_insert [OF fin])
  then show ?thesis
    using g len len1 fin S0 seq0
    by (simp add: update_window_newer [OF newer len] window_rel_def unat_eq_0)
qed

lemma update_window_rel_inside:
  assumes rel: "window_rel w S" and new: "\<not> check_replay seq w" and inside: "\<not> recv_max w < seq"
  shows "\<exists>w'. update_window seq w = Some w' \<and> window_rel w' (insert (unat seq) S)"
proof -
  have len: "length (bitmap w) = BITMAP_WORDS" and fin: "finite S" and S0: "0 \<notin> S"
    and edge: "unat (recv_max w) = right_edge S"
    and bits: "\<And>k. k < 64 * length (bitmap w) \<Longrightarrow> k < right_edge S \<Longrightarrow>
        gbit (bitmap w) k = (right_edge S - k \<in> S)"
    using rel by (auto simp: window_rel_def)
  have seq0: "seq \<noteq> 0" using new by (auto simp: check_replay_def)
  have len1: "length (bitmap w) = 1" using len by (simp add: config_defs)
  from inside have le: "seq \<le> recv_max w" by simp
  have far: "\<not> seq + of_nat WINDOW_SIZE \<le> recv_max w"
    using new inside seq0 by (auto simp: check_replay_def split: if_splits)
  define n where "n = unat (recv_max w) - unat seq"
  have n: "n < 64" using check_replay_gbit(2) [OF seq0 le far len] len1 by (simp add: n_def)
  have eq: "unat seq = right_edge S - n" and n_le: "n < right_edge S"
    using le unat_u64_pos [OF seq0] edge by (auto simp: n_def word_le_nat_alt)
  have edge': "right_edge (insert (unat seq) S) = right_edge S"
    using eq by (simp add: right_edge_insert [OF fin])
  have "gbit ((bitmap w)[0 := (bitmap w ! 0) OR push_bit n 1]) k \<longleftrightarrow>
      right_edge S - k \<in> insert (unat seq) S" if "k < 64" "k < right_edge S" for k
    using gbit_update_word [of 0 "bitmap w" n k] n bits [of k] that len1 eq n_le by auto
  then show ?thesis
    using update_window_inside [OF seq0 le _ len] n len len1 fin S0 seq0 edge edge'
    by (simp add: window_rel_def n_def unat_eq_0)
qed

lemma update_window_rel:
  assumes "window_rel w S" and "\<not> check_replay seq w"
  shows "\<exists>w'. update_window seq w = Some w' \<and> window_rel w' (insert (unat seq) S)"
  using update_window_rel_newer [OF assms] update_window_rel_inside [OF assms] by blast

lemma check_replay_exact:
  assumes rel: "window_rel w S"
  shows "check_replay seq w \<longleftrightarrow> replay_spec S (unat seq)"
proof -
  have len: "length (bitmap w) = BITMAP_WORDS" and fin: "finite S" and S0: "0 \<notin> S"
    and edge: "unat (recv_max w) = right_edge S"
    and bits: "\<And>k. k < 64 * length (bitmap w) \<Longrightarrow> k < right_edge S \<Longrightarrow>
        gbit (bitmap w) k = (right_edge S - k \<in> S)"
    using rel by (auto simp: window_rel_def)
  show ?thesis
  proof (cases "seq = 0 \<or> recv_max w < seq")
    case True
    then show ?thesis
      using right_edge_ge [OF fin, of "unat seq"] edge
      by (auto simp: check_replay_def replay_spec_def word_less_nat_alt unat_gt_0)
  next
    case False
    then have seq0: "seq \<noteq> 0" and le: "seq \<le> recv_max w" by auto
    have far: "seq + of_nat WINDOW_SIZE \<le> recv_max w \<longleftrightarrow>
        unat seq + WINDOW_SIZE \<le> right_edge S \<or> 2 ^ 64 - WINDOW_SIZE \<le> unat seq"
      using le unat_u64_bound [of seq] unat_u64_bound [of "recv_max w"]
      by (simp add: word_le_nat_alt unat_u64_add edge config_defs) linarith
    show ?thesis
    proof (cases "seq + of_nat WINDOW_SIZE \<le> recv_max w")
      case True
      then show ?thesis using far le seq0 edge
        by (auto simp: check_replay_def replay_spec_def word_le_nat_alt word_less_nat_alt)
    next
      case False
      define n where "n = right_edge S - unat seq"
      have "unat seq \<le> right_edge S" using le edge by (simp add: word_le_nat_alt)
      then have "right_edge S - n = unat seq" and "n < right_edge S"
        using unat_u64_pos [OF seq0] by (auto simp: n_def)
      then show ?thesis
        using check_replay_gbit [OF seq0 le False len] bits [of n] far False seq0 edge
        by (auto simp: replay_spec_def n_def unat_eq_0)
    qed
  qed
qed


section \<open>The client's window\<close>

text \<open>
  The client has its own copy of the two functions, over a structure with the same fields
  and constants (\<open>chamlon_client/include/vpn_replay_window.h\<close>).
\<close>

definition check_replay_client :: "u64 \<Rightarrow> replay_window \<Rightarrow> bool" where
  "check_replay_client seq w =
     (if seq = 0 then True
      else if seq > recv_max w then False
      else if seq + of_nat WINDOW_SIZE \<le> recv_max w then True
      else
        let diff = recv_max w - seq;
            bit_index = diff;
            wrd = bit_index div of_nat WORD_SIZE;
            bt = bit_index mod of_nat WORD_SIZE
        in (bitmap w ! unat wrd) AND push_bit (unat bt) 1 \<noteq> 0)"

definition update_window_client :: "u64 \<Rightarrow> replay_window \<Rightarrow> replay_window option" where
  "update_window_client seq w =
     (if seq = 0 then Some w
      else
        let w1 =
          (if seq > recv_max w then
             let diff = seq - recv_max w;
                 bm = (if diff \<ge> of_nat WINDOW_SIZE then replicate (length (bitmap w)) 0
                       else
                         let bm1 = shift_bitmap (unat diff) (bitmap w);
                             mask = (if diff \<ge> 64 then 0 else push_bit (unat diff) 1 - 1)
                         in bm1[0 := (bm1 ! 0) AND NOT mask])
             in w\<lparr>recv_max := seq, bitmap := bm\<rparr>
           else w);
            diff = recv_max w1 - seq;
            bit_index = diff;
            wrd = unat (bit_index div of_nat WORD_SIZE);
            bt = unat (bit_index mod of_nat WORD_SIZE)
        in if wrd < length (bitmap w1)
           then Some (w1\<lparr>bitmap := (bitmap w1)[wrd := (bitmap w1 ! wrd) OR push_bit bt 1]\<rparr>)
           else None)"

lemma client_window_same:
  "check_replay_client = check_replay" "update_window_client = update_window"
  by (intro ext, simp only: check_replay_client_def check_replay_def)
    (intro ext, simp only: update_window_client_def update_window_def)

section \<open>The contract of a replay filter\<close>

text \<open>
  Both packet handlers use the filter in one way: a packet whose number \<open>check\<close> flags is
  dropped, any other one is recorded with \<open>update\<close>. \<open>accept_stream\<close> feeds a stream of
  authenticated sequence numbers through it and returns the accepted ones; \<open>None\<close> is a
  write outside the bitmap.
\<close>

fun accept_stream ::
  "(u64 \<Rightarrow> 'w \<Rightarrow> bool) \<Rightarrow> (u64 \<Rightarrow> 'w \<Rightarrow> 'w option) \<Rightarrow> 'w \<Rightarrow> u64 list \<Rightarrow> (u64 list \<times> 'w) option"
where
  "accept_stream check update w [] = Some ([], w)"
| "accept_stream check update w (seq # seqs) =
     (if check seq w then accept_stream check update w seqs
      else case update seq w of
        None \<Rightarrow> None
      | Some w' \<Rightarrow> map_option (\<lambda>(acc, w''). (seq # acc, w'')) (accept_stream check update w' seqs))"

locale anti_replay =
  fixes check :: "u64 \<Rightarrow> 'w \<Rightarrow> bool"
    and update :: "u64 \<Rightarrow> 'w \<Rightarrow> 'w option"
    and start :: 'w
    and rel :: "'w \<Rightarrow> nat set \<Rightarrow> bool"
  assumes rel_start: "rel start {}"
    and check_exact: "rel w S \<Longrightarrow> check seq w = replay_spec S (unat seq)"
    and update_step: "rel w S \<Longrightarrow> \<not> check seq w \<Longrightarrow>
      \<exists>w'. update seq w = Some w' \<and> rel w' (insert (unat seq) S)"
begin

lemma accepted_fresh: "rel w S \<Longrightarrow> \<not> check seq w \<Longrightarrow> unat seq \<notin> S \<and> seq \<noteq> 0"
  by (auto simp: check_exact replay_spec_def)

lemma stream_from:
  "rel w S \<Longrightarrow> \<exists>acc w'. accept_stream check update w seqs = Some (acc, w') \<and>
     distinct acc \<and> unat ` set acc \<inter> S = {} \<and> set acc \<subseteq> set seqs - {0} \<and>
     rel w' (unat ` set acc \<union> S)"
proof (induction seqs arbitrary: w S)
  case Nil
  then show ?case by simp
next
  case (Cons seq seqs)
  show ?case
  proof (cases "check seq w")
    case True
    then show ?thesis using Cons.IH [OF Cons.prems] by fastforce
  next
    case False
    then obtain w1 where w1: "update seq w = Some w1" "rel w1 (insert (unat seq) S)"
      using update_step [OF Cons.prems] by blast
    obtain acc w' where "accept_stream check update w1 seqs = Some (acc, w')" "distinct acc"
      and "unat ` set acc \<inter> insert (unat seq) S = {}" "set acc \<subseteq> set seqs - {0}"
      and "rel w' (unat ` set acc \<union> insert (unat seq) S)"
      using Cons.IH [OF w1(2)] by blast
    then show ?thesis using False w1(1) accepted_fresh [OF Cons.prems False] by fastforce
  qed
qed

lemma stream_exact:
  "\<exists>acc w. accept_stream check update start seqs = Some (acc, w) \<and> distinct acc \<and>
     set acc \<subseteq> set seqs - {0} \<and> (\<forall>seq. check seq w \<longleftrightarrow> replay_spec (unat ` set acc) (unat seq))"
  using stream_from [OF rel_start, of seqs] check_exact by fastforce

end

interpretation server_window: anti_replay check_replay update_window replay_window_zero window_rel
  by (unfold_locales; (rule window_rel_zero | erule check_replay_exact | erule (1) update_window_rel))

interpretation client_window:
  anti_replay check_replay_client update_window_client replay_window_zero window_rel
  unfolding client_window_same by (rule server_window.anti_replay_axioms)


section \<open>Properties\<close>

text \<open>
  C5. Feeding any stream of sequence numbers through the server's filter never writes
  outside the bitmap, accepts no number twice and never the number 0, and afterwards
  \<open>check_replay\<close> flags exactly the numbers that were accepted before, are 0, lie 64 or
  more below the largest accepted one, or are among the last 64 values of the 64-bit range
  and not above the window's right edge (where the addition in the code wraps).
\<close>

theorem replay_filter_server:
  "\<exists>acc w. accept_stream check_replay update_window replay_window_zero seqs = Some (acc, w) \<and>
     distinct acc \<and> set acc \<subseteq> set seqs - {0} \<and>
     (\<forall>seq. check_replay seq w \<longleftrightarrow> replay_spec (unat ` set acc) (unat seq))"
  by (rule server_window.stream_exact)

end
