(* ===== verification/Wire_Format.thy ===== *)
theory Wire_Format
  imports Chamlon_Prelude
begin

text \<open>
  What travels between client and server: the packed headers of
  \<open>chamlon_server/include/vpn_common.h\<close> and \<open>chamlon_client/include/packet.h\<close> (both ends
  are little-endian and copy the structures byte by byte), the sequence number in network
  order, and the AEAD wrapper of \<open>vpn_crypto.c\<close>, of which client and server hold the same
  copy. The primitives of libsodium are parameters of the definitions that call them.
\<close>

section \<open>Constants\<close>

definition BUFFER_SIZE :: nat where [config_defs]: "BUFFER_SIZE = 1600"
definition MAX_FRAG :: nat where [config_defs]: "MAX_FRAG = 1600"
definition MAX_PACKET_SIZE :: nat where [config_defs]: "MAX_PACKET_SIZE = 2500"
definition SESSION_ID_LEN :: nat where [config_defs]: "SESSION_ID_LEN = 16"
definition PKT_MAGIC :: u32 where [config_defs]: "PKT_MAGIC = 0x77E1DA"
definition PKT_VERSION :: byte where [config_defs]: "PKT_VERSION = 1"
definition PKT_TYPE_HANDSHAKE :: byte where [config_defs]: "PKT_TYPE_HANDSHAKE = 222"
definition PKT_TYPE_DATA :: byte where [config_defs]: "PKT_TYPE_DATA = 111"
definition PKT_CTRL_KEEPALIVE :: u16 where [config_defs]: "PKT_CTRL_KEEPALIVE = 0x02"
definition PKT_CTRL_DISCONNECT :: u16 where [config_defs]: "PKT_CTRL_DISCONNECT = 0x03"
definition PKT_DUMMY :: u16 where [config_defs]: "PKT_DUMMY = 0xFF"

text \<open>The lengths libsodium fixes.\<close>

definition PUBKEY_LEN :: nat where [config_defs]: "PUBKEY_LEN = 32"
definition AEAD_KEY_LEN :: nat where [config_defs]: "AEAD_KEY_LEN = 32"
definition AEAD_NONCE_LEN :: nat where [config_defs]: "AEAD_NONCE_LEN = 12"
definition MAC_LEN :: nat where [config_defs]: "MAC_LEN = 16"

section \<open>Headers\<close>

record proto_header =
  magic :: u32
  version :: byte
  ptype :: byte

definition sizeof_proto_header :: nat where [config_defs]: "sizeof_proto_header = 6"

definition proto_header_bytes :: "proto_header \<Rightarrow> bytes" where
  "proto_header_bytes ph = le32 (magic ph) @ [version ph, ptype ph]"

text \<open>\<open>(proto_header_t *)buf\<close>; the callers check \<open>r >= sizeof(proto_header_t)\<close> first.\<close>

definition proto_header_of :: "bytes \<Rightarrow> proto_header" where
  "proto_header_of buf = \<lparr>magic = of_le32 buf, version = buf ! 4, ptype = buf ! 5\<rparr>"

record tunnel_header =
  packet_id :: u16
  fragment_offset :: u16
  total_ip_len :: u16
  flags :: u16
  th_session_id :: bytes

definition sizeof_tunnel_header :: nat where [config_defs]: "sizeof_tunnel_header = 24"

definition tunnel_header_bytes :: "tunnel_header \<Rightarrow> bytes" where
  "tunnel_header_bytes th =
     le16 (packet_id th) @ le16 (fragment_offset th) @ le16 (total_ip_len th) @ le16 (flags th) @
     th_session_id th"

definition tunnel_header_of :: "bytes \<Rightarrow> tunnel_header" where
  "tunnel_header_of buf =
     \<lparr>packet_id = of_le16 buf, fragment_offset = of_le16 (drop 2 buf),
      total_ip_len = of_le16 (drop 4 buf), flags = of_le16 (drop 6 buf),
      th_session_id = slice buf 8 SESSION_ID_LEN\<rparr>"

definition DATA_HEADER_LEN :: nat where
  [config_defs]: "DATA_HEADER_LEN = sizeof_proto_header + SESSION_ID_LEN + 8"

text \<open>The header every packet of one kind starts with.\<close>

definition data_header :: proto_header where
  "data_header = \<lparr>magic = PKT_MAGIC, version = PKT_VERSION, ptype = PKT_TYPE_DATA\<rparr>"

definition handshake_header :: proto_header where
  "handshake_header = \<lparr>magic = PKT_MAGIC, version = PKT_VERSION, ptype = PKT_TYPE_HANDSHAKE\<rparr>"

text \<open>
  A data packet on the wire: header, session id, sequence number in network order
  (\<open>htobe64\<close>), ciphertext. Every sender builds it with the same four copies.
\<close>

definition data_packet :: "bytes \<Rightarrow> u64 \<Rightarrow> bytes \<Rightarrow> bytes" where
  "data_packet sid seq ct = proto_header_bytes data_header @ sid @ be64 seq @ ct"

text \<open>The loop \<open>pkt_seq = (pkt_seq << 8) | p[i]\<close> over the eight bytes after the session id.\<close>

definition packet_seq :: "bytes \<Rightarrow> u64" where
  "packet_seq buf = of_be 0 (slice buf (sizeof_proto_header + SESSION_ID_LEN) 8)"

definition packet_sid :: "bytes \<Rightarrow> bytes" where
  "packet_sid buf = slice buf sizeof_proto_header SESSION_ID_LEN"

lemma length_proto_header_bytes [simp]: "length (proto_header_bytes ph) = 6"
  by (simp add: proto_header_bytes_def)

lemma length_tunnel_header_bytes [simp]:
  "length (th_session_id th) = 16 \<Longrightarrow> length (tunnel_header_bytes th) = 24"
  by (simp add: tunnel_header_bytes_def)

lemma proto_header_roundtrip [simp]: "proto_header_of (proto_header_bytes ph @ rest) = ph"
  by (simp add: proto_header_of_def proto_header_bytes_def nth_append)

lemma tunnel_header_roundtrip [simp]:
  "length (th_session_id th) = 16 \<Longrightarrow> tunnel_header_of (tunnel_header_bytes th @ rest) = th"
  by (simp add: tunnel_header_of_def tunnel_header_bytes_def config_defs slice_def)

lemma data_packet_fields [simp]:
  assumes "length sid = 16"
  shows "proto_header_of (data_packet sid seq ct) = data_header"
    and "packet_sid (data_packet sid seq ct) = sid"
    and "packet_seq (data_packet sid seq ct) = seq"
    and "drop DATA_HEADER_LEN (data_packet sid seq ct) = ct"
    and "length (data_packet sid seq ct) = 30 + length ct"
  using assms
  by (simp_all add: data_packet_def packet_sid_def packet_seq_def slice_def config_defs
      be64_roundtrip)

section \<open>Keys, nonces and the AEAD wrapper\<close>

text \<open>
  libsodium's entry points, as parameters. \<open>aead_enc key nonce ad m\<close> and
  \<open>aead_dec key nonce ad c\<close> stand for \<open>crypto_aead_chacha20poly1305_ietf_encrypt\<close> and
  \<open>_decrypt\<close> (\<open>None\<close> is a non-zero return), \<open>generichash n m\<close> for \<open>crypto_generichash\<close>
  with output length \<open>n\<close> and no key, over the concatenation of the updates.
\<close>

type_synonym aead_fn = "bytes \<Rightarrow> bytes \<Rightarrow> bytes \<Rightarrow> bytes \<Rightarrow> bytes option"
type_synonym hash_fn = "nat \<Rightarrow> bytes \<Rightarrow> bytes"

definition build_nonce :: "bytes \<Rightarrow> u64 \<Rightarrow> bytes" where
  "build_nonce key seq = take 4 key @ be64 seq"

definition aead_encrypt :: "aead_fn \<Rightarrow> bytes \<Rightarrow> bytes \<Rightarrow> u64 \<Rightarrow> bytes \<Rightarrow> bytes option" where
  "aead_encrypt enc key session_id seq pt =
     (let nonce = build_nonce key seq;
          ad = take SESSION_ID_LEN session_id @ be64 seq
      in enc key nonce ad pt)"

definition aead_decrypt :: "aead_fn \<Rightarrow> bytes \<Rightarrow> bytes \<Rightarrow> u64 \<Rightarrow> bytes \<Rightarrow> bytes option" where
  "aead_decrypt dec key session_id seq ct =
     (let nonce = build_nonce key seq;
          ad = take SESSION_ID_LEN session_id @ be64 seq
      in dec key nonce ad ct)"

definition derive_two_keys :: "hash_fn \<Rightarrow> bytes \<Rightarrow> bytes \<Rightarrow> bytes \<times> bytes" where
  "derive_two_keys generichash shared context1 =
     (let tmp = generichash 64 (shared @ [1] @ context1);
          out1 = take AEAD_KEY_LEN tmp;
          tmp2 = generichash 64 (take AEAD_KEY_LEN tmp @ [2] @ context1);
          out2 = take AEAD_KEY_LEN tmp2
      in (out1, out2))"

text \<open>
  What the code relies on of the AEAD: decryption under the same key, nonce and associated
  data returns the message, and a ciphertext is \<open>MAC_LEN\<close> bytes longer than its message.
\<close>

definition aead_correct :: "aead_fn \<Rightarrow> aead_fn \<Rightarrow> bool" where
  "aead_correct enc dec \<longleftrightarrow>
     (\<forall>k n ad m c. enc k n ad m = Some c \<longrightarrow> dec k n ad c = Some m \<and> length c = length m + MAC_LEN)"

lemma aead_roundtrip:
  assumes "aead_correct enc dec" and "aead_encrypt enc k sid seq m = Some c"
  shows "aead_decrypt dec k sid seq c = Some m" and "length c = length m + 16"
  using assms by (auto simp: aead_correct_def aead_encrypt_def aead_decrypt_def Let_def config_defs)

lemma build_nonce_inject [simp]: "build_nonce key s1 = build_nonce key s2 \<longleftrightarrow> s1 = s2"
  by (simp add: build_nonce_def)

lemma length_build_nonce: "4 \<le> length key \<Longrightarrow> length (build_nonce key seq) = AEAD_NONCE_LEN"
  by (simp add: build_nonce_def config_defs)

end
