(* ===== verification/Reassembly.thy ===== *)
theory Reassembly
  imports Wire_Format
begin

text \<open>
  Fragmentation and reassembly of IP packets. The table functions are those of
  \<open>chamlon_server/src/fragment.c\<close> (one table per session) and
  \<open>chamlon_client/src/vpn_reassembly.c\<close> (one table), which have the same text apart from where
  the table lives. The step that stores a fragment is the last part of \<open>handle_inbound_udp\<close>
  and of the client's \<open>handle_udp_packet\<close>; the step that cuts a fragment is the body of the
  loop of \<open>handle_outbound_tun_buf\<close>.

  A C \<open>size_t\<close> is a natural number below \<open>2 ^ 64\<close> with its wrap-around written out. Copying
  from or to memory outside a buffer is undefined in C; a step that does so is \<open>None\<close>.
\<close>

section \<open>State\<close>

definition MAX_REASSEMBLY_ENTRIES :: nat where [config_defs]: "MAX_REASSEMBLY_ENTRIES = 256"
definition REASSEMBLY_TIMEOUT :: int where [config_defs]: "REASSEMBLY_TIMEOUT = 20"

definition add64 :: "nat \<Rightarrow> nat \<Rightarrow> nat" where
  "add64 a b = (a + b) mod 2 ^ 64"

definition sub64 :: "nat \<Rightarrow> nat \<Rightarrow> nat" where
  "sub64 a b = (a + 2 ^ 64 - b) mod 2 ^ 64"

record reassembly_entry =
  re_packet_id :: u16
  re_last_activity :: time_t
  expected_length :: nat
  received_bytes :: nat
  buffer :: bytes
  is_active :: bool

definition zero_entry :: reassembly_entry where
  "zero_entry = \<lparr>re_packet_id = 0, re_last_activity = 0, expected_length = 0, received_bytes = 0,
     buffer = replicate MAX_PACKET_SIZE 0, is_active = False\<rparr>"

definition reassembly_init :: "reassembly_entry list" where
  "reassembly_init = replicate MAX_REASSEMBLY_ENTRIES zero_entry"

section \<open>Table\<close>

definition sweep_reassembly_table :: "time_t \<Rightarrow> reassembly_entry list \<Rightarrow> reassembly_entry list" where
  "sweep_reassembly_table now tbl =
     map (\<lambda>e. if is_active e \<and> now - re_last_activity e > REASSEMBLY_TIMEOUT then zero_entry else e) tbl"

definition find_or_create_entry ::
  "time_t \<Rightarrow> u16 \<Rightarrow> reassembly_entry list \<Rightarrow> nat option \<times> reassembly_entry list" where
  "find_or_create_entry now ident tbl =
     (case find_index (\<lambda>e. is_active e \<and> re_packet_id e = ident) tbl of
        Some i \<Rightarrow> (Some i, tbl[i := (tbl ! i)\<lparr>re_last_activity := now\<rparr>])
      | None \<Rightarrow>
          (case find_index (\<lambda>e. \<not> is_active e) tbl of
             Some i \<Rightarrow>
               (Some i, tbl[i := zero_entry\<lparr>is_active := True, re_packet_id := ident,
                                              re_last_activity := now\<rparr>])
           | None \<Rightarrow> (None, tbl)))"

text \<open>The counter is atomic; the packet identifier 0 is skipped.\<close>

definition fragment_next_packet_id :: "u16 \<Rightarrow> u16 \<times> u16" where
  "fragment_next_packet_id g =
     (let ident = g; g1 = g + 1
      in if ident = 0 then (g1, g1 + 1) else (ident, g1))"

section \<open>Storing a fragment\<close>

text \<open>
  \<open>len\<close> is \<open>fragment_payload_len\<close> and \<open>avail\<close> the memory of the \<open>plain\<close> buffer behind the
  tunnel header. The result is the packet written to the TUN device, if any, and the table.
\<close>

definition store_fragment ::
  "time_t \<Rightarrow> tunnel_header \<Rightarrow> nat \<Rightarrow> bytes \<Rightarrow> reassembly_entry list \<Rightarrow>
   (bytes option \<times> reassembly_entry list) option" where
  "store_fragment now hdr len avail tbl =
     (case find_or_create_entry now (packet_id hdr) tbl of
        (None, tbl1) \<Rightarrow> Some (None, tbl1)
      | (Some i, tbl1) \<Rightarrow>
          let e = tbl1 ! i; off = unat (fragment_offset hdr) in
          if add64 off len > MAX_PACKET_SIZE
          then Some (None, tbl1[i := e\<lparr>is_active := False\<rparr>])
          else if len > length avail then None
          else
            let e1 = (if expected_length e = 0
                      then e\<lparr>expected_length := unat (total_ip_len hdr)\<rparr> else e);
                e2 = e1\<lparr>buffer := memcpy_at (buffer e1) off (take len avail)\<rparr>;
                e3 = e2\<lparr>received_bytes := add64 (received_bytes e2) len\<rparr>;
                is_last = (flags hdr AND 0x8000 = 0)
            in if is_last \<and> received_bytes e3 \<ge> expected_length e3
               then if expected_length e3 > length (buffer e3) then None
                    else Some (Some (take (expected_length e3) (buffer e3)),
                               tbl1[i := e3\<lparr>is_active := False\<rparr>])
               else Some (None, tbl1[i := e3]))"

section \<open>Cutting a fragment\<close>

definition packet_padding :: "bytes \<Rightarrow> nat \<Rightarrow> int \<Rightarrow> bytes" where
  "packet_padding buf2 len_real frag =
     (if frag \<le> 0 \<or> frag > int MAX_FRAG then buf2
      else
        let max_len = nat frag in
        if len_real > max_len then buf2
        else
          let len_to_fill = max_len - len_real in
          if len_to_fill > 0 \<and> len_to_fill \<le> max_len
          then memset_at buf2 len_real 0x00 len_to_fill
          else buf2)"

definition chunk_len :: "int \<Rightarrow> nat \<Rightarrow> nat \<Rightarrow> nat" where
  "chunk_len frag len current_offset =
     (let max_payload = sub64 (nat frag) sizeof_tunnel_header
      in if len - current_offset > max_payload then max_payload else len - current_offset)"

text \<open>
  One round of the fragmentation loop: \<open>stack\<close> is what \<open>buf2\<close> holds before, \<open>pad\<close> whether
  the session pads, \<open>hdr_sid\<close> the session identifier field of the tunnel header, which no
  receiver reads: zero on the server by its designated initialiser, uninitialised stack
  memory on the client. The result is \<open>buf2\<close> and \<open>real_data_len\<close>.
\<close>

definition make_fragment ::
  "int \<Rightarrow> bool \<Rightarrow> u16 \<Rightarrow> bytes \<Rightarrow> bytes \<Rightarrow> bytes \<Rightarrow> nat \<Rightarrow> bytes \<times> nat" where
  "make_fragment frag pad current_id hdr_sid stack buf current_offset =
     (let b0 = memset_at stack 0 0 (nat frag);
          n = chunk_len frag (length buf) current_offset;
          header = \<lparr>packet_id = current_id, fragment_offset = of_nat current_offset,
                    total_ip_len = of_nat (length buf),
                    flags = (if current_offset + n = length buf then 0x0000 else 0x8000),
                    th_session_id = hdr_sid\<rparr>;
          b1 = memcpy_at b0 0 (tunnel_header_bytes header);
          b2 = memcpy_at b1 sizeof_tunnel_header (slice buf current_offset n);
          real_data_len = sizeof_tunnel_header + n
      in if pad then (packet_padding b2 real_data_len frag, nat frag) else (b2, real_data_len))"

section \<open>Invariant of the table\<close>

definition wf_table :: "reassembly_entry list \<Rightarrow> bool" where
  "wf_table tbl \<longleftrightarrow> length tbl = MAX_REASSEMBLY_ENTRIES \<and>
     (\<forall>e\<in>set tbl. length (buffer e) = MAX_PACKET_SIZE) \<and>
     (\<forall>i<length tbl. \<forall>j<length tbl. is_active (tbl ! i) \<and> is_active (tbl ! j) \<and>
        re_packet_id (tbl ! i) = re_packet_id (tbl ! j) \<longrightarrow> i = j)"

definition no_entry :: "u16 \<Rightarrow> reassembly_entry list \<Rightarrow> bool" where
  "no_entry ident tbl \<longleftrightarrow> (\<forall>e\<in>set tbl. \<not> (is_active e \<and> re_packet_id e = ident))"

lemma no_entry_nth: "no_entry ident tbl \<longleftrightarrow> (\<forall>i<length tbl. \<not> (is_active (tbl ! i) \<and> re_packet_id (tbl ! i) = ident))"
  by (auto simp: no_entry_def all_set_conv_all_nth)

lemma zero_entry_simps [simp]:
  "is_active zero_entry = False" "expected_length zero_entry = 0" "received_bytes zero_entry = 0"
  "length (buffer zero_entry) = MAX_PACKET_SIZE"
  by (simp_all add: zero_entry_def)

lemma wf_table_init: "wf_table reassembly_init" "no_entry ident reassembly_init"
  by (auto simp: wf_table_def reassembly_init_def no_entry_def)

lemma wf_table_update:
  assumes "wf_table tbl" "i < length tbl" "length (buffer e) = MAX_PACKET_SIZE"
    and "\<And>j. is_active e \<Longrightarrow> j < length tbl \<Longrightarrow> j \<noteq> i \<Longrightarrow> is_active (tbl ! j) \<Longrightarrow>
      re_packet_id (tbl ! j) \<noteq> re_packet_id e"
  shows "wf_table (tbl[i := e])"
proof -
  have "\<forall>x\<in>set (tbl[i := e]). length (buffer x) = MAX_PACKET_SIZE"
    using assms(1,3) set_update_subset_insert [of tbl i e] by (auto simp: wf_table_def)
  moreover have "k = j" if "k < length tbl" "j < length tbl" "is_active (tbl[i := e] ! k)"
    "is_active (tbl[i := e] ! j)" "re_packet_id (tbl[i := e] ! k) = re_packet_id (tbl[i := e] ! j)" for k j
    using assms(1,2) assms(4) [of j] assms(4) [of k] that
    by (cases "k = i"; cases "j = i") (auto simp: wf_table_def)
  ultimately show ?thesis using assms(1) unfolding wf_table_def by simp
qed

lemma wf_table_buffer: "wf_table tbl \<Longrightarrow> i < length tbl \<Longrightarrow> length (buffer (tbl ! i)) = MAX_PACKET_SIZE"
  by (simp add: wf_table_def)

lemma wf_table_other:
  assumes "wf_table tbl" "i < length tbl" "is_active (tbl ! i)" "j < length tbl" "j \<noteq> i" "is_active (tbl ! j)"
  shows "re_packet_id (tbl ! j) \<noteq> re_packet_id (tbl ! i)"
  using assms unfolding wf_table_def by blast

text \<open>
  \<open>find_or_create_entry\<close> hands out the entry of the packet, fresh if there was none, and
  touches no other; it fails only when the table is full of other packets.
\<close>

lemma find_or_create_entry_cases:
  assumes wf: "wf_table tbl"
  obtains (full) "find_or_create_entry now ident tbl = (None, tbl)" "no_entry ident tbl"
      "\<forall>e\<in>set tbl. is_active e"
  | (old) i where "i < length tbl" "is_active (tbl ! i)" "re_packet_id (tbl ! i) = ident"
      "find_or_create_entry now ident tbl = (Some i, tbl[i := (tbl ! i)\<lparr>re_last_activity := now\<rparr>])"
      "wf_table (tbl[i := (tbl ! i)\<lparr>re_last_activity := now\<rparr>])"
  | (new) i where "i < length tbl" "\<not> is_active (tbl ! i)" "no_entry ident tbl"
      "find_or_create_entry now ident tbl =
        (Some i, tbl[i := zero_entry\<lparr>is_active := True, re_packet_id := ident, re_last_activity := now\<rparr>])"
      "wf_table (tbl[i := zero_entry\<lparr>is_active := True, re_packet_id := ident, re_last_activity := now\<rparr>])"
proof (cases "find_index (\<lambda>e. is_active e \<and> re_packet_id e = ident) tbl")
  case (Some i)
  then have i: "i < length tbl" "is_active (tbl ! i)" "re_packet_id (tbl ! i) = ident"
    by (auto dest: find_index_SomeD)
  have "wf_table (tbl[i := (tbl ! i)\<lparr>re_last_activity := now\<rparr>])"
    by (rule wf_table_update [OF wf i(1)])
      (use wf_table_buffer [OF wf i(1)] wf_table_other [OF wf i(1,2)] in auto)
  then show ?thesis using old [OF i] Some by (simp add: find_or_create_entry_def)
next
  case None
  then have no: "no_entry ident tbl" by (auto simp: find_index_None_iff no_entry_def)
  show ?thesis
  proof (cases "find_index (\<lambda>e. \<not> is_active e) tbl")
    case None': None
    have "find_or_create_entry now ident tbl = (None, tbl)"
      by (simp add: find_or_create_entry_def None None')
    moreover have "\<forall>e\<in>set tbl. is_active e" using None' by (simp add: find_index_None_iff)
    ultimately show ?thesis using full no by blast
  next
    case (Some i)
    then have i: "i < length tbl" "\<not> is_active (tbl ! i)" by (auto dest: find_index_SomeD)
    have "wf_table (tbl[i := zero_entry\<lparr>is_active := True, re_packet_id := ident, re_last_activity := now\<rparr>])"
      by (rule wf_table_update [OF wf i(1)]) (use no in \<open>auto simp: no_entry_nth\<close>)
    then show ?thesis using new [OF i no] None Some by (simp add: find_or_create_entry_def)
  qed
qed

lemma sweep_wf:
  assumes "wf_table tbl"
  shows "wf_table (sweep_reassembly_table now tbl)"
  using assms unfolding wf_table_def sweep_reassembly_table_def by (auto simp: nth_map split: if_splits)

definition bounded_table :: "reassembly_entry list \<Rightarrow> bool" where
  "bounded_table tbl \<longleftrightarrow> (\<forall>e\<in>set tbl. expected_length e \<le> MAX_PACKET_SIZE)"

lemma bounded_init: "bounded_table reassembly_init"
  by (simp add: bounded_table_def reassembly_init_def)

lemma sweep_bounded: "bounded_table tbl \<Longrightarrow> bounded_table (sweep_reassembly_table now tbl)"
  by (auto simp: bounded_table_def sweep_reassembly_table_def)

lemma bounded_update: "bounded_table tbl \<Longrightarrow> expected_length e \<le> MAX_PACKET_SIZE \<Longrightarrow> bounded_table (tbl[i := e])"
  using set_update_subset_insert [of tbl i e] unfolding bounded_table_def by auto

lemma add64_small: "a + b < 2 ^ 64 \<Longrightarrow> add64 a b = a + b"
  by (simp add: add64_def)

lemma sub64_small: "b \<le> a \<Longrightarrow> a < 2 ^ 64 \<Longrightarrow> sub64 a b = a - b"
proof -
  assume *: "b \<le> a" "a < 2 ^ 64"
  have "a + 2 ^ 64 - b = 2 ^ 64 + (a - b)" using *(1) by simp
  then show ?thesis using *(2) unfolding sub64_def by (simp only: mod_add_self1) simp
qed

text \<open>
  The entry \<open>store_fragment\<close> works on, and what it does to it when the copy stays within both
  buffers.
\<close>

definition filled :: "tunnel_header \<Rightarrow> bytes \<Rightarrow> reassembly_entry \<Rightarrow> reassembly_entry" where
  "filled hdr payload e =
     e\<lparr>expected_length := (if expected_length e = 0 then unat (total_ip_len hdr) else expected_length e),
       buffer := memcpy_at (buffer e) (unat (fragment_offset hdr)) payload,
       received_bytes := add64 (received_bytes e) (length payload)\<rparr>"

lemma store_fragment_entry:
  assumes foc: "find_or_create_entry now (packet_id hdr) tbl = (Some i, tbl1)"
    and len: "length payload < 2 ^ 63"
    and e: "e = tbl1 ! i" and e': "e' = filled hdr payload e"
  shows "store_fragment now hdr (length payload) payload tbl =
    (if unat (fragment_offset hdr) + length payload > MAX_PACKET_SIZE
     then Some (None, tbl1[i := e\<lparr>is_active := False\<rparr>])
     else if flags hdr AND 0x8000 = 0 \<and> received_bytes e' \<ge> expected_length e'
     then if expected_length e' > length (buffer e') then None
          else Some (Some (take (expected_length e') (buffer e')), tbl1[i := e'\<lparr>is_active := False\<rparr>])
     else Some (None, tbl1[i := e']))"
proof -
  have "unat (fragment_offset hdr) < 2 ^ 16" using unsigned_less [of "fragment_offset hdr"] by simp
  then have "unat (fragment_offset hdr) + length payload < 2 ^ 64" using len by simp
  then show ?thesis
    by (auto simp: store_fragment_def foc e e' filled_def Let_def add64_small)
qed

lemma filled_wf:
  assumes "length (buffer e) = MAX_PACKET_SIZE"
    and "unat (fragment_offset hdr) + length payload \<le> MAX_PACKET_SIZE"
  shows "length (buffer (filled hdr payload e)) = MAX_PACKET_SIZE"
  using assms by (simp add: filled_def buffer_simps)

lemma wf_same_id:
  assumes "wf_table tbl" "i < length tbl" "is_active (tbl ! i)"
    and "re_packet_id e = re_packet_id (tbl ! i)" "length (buffer e) = MAX_PACKET_SIZE"
  shows "wf_table (tbl[i := e])"
  by (rule wf_table_update) (use assms wf_table_other [OF assms(1-3)] in auto)

lemma store_fragment_step:
  assumes wf: "wf_table tbl" and bd: "bounded_table tbl"
    and len: "length payload \<le> BUFFER_SIZE" and total: "unat (total_ip_len hdr) \<le> MAX_PACKET_SIZE"
  shows "\<exists>out tbl'. store_fragment now hdr (length payload) payload tbl = Some (out, tbl') \<and>
    wf_table tbl' \<and> bounded_table tbl' \<and> (\<forall>p. out = Some p \<longrightarrow> length p \<le> MAX_PACKET_SIZE)"
proof -
  have small: "length payload < 2 ^ 63" using len by (simp add: config_defs)
  have main: "?thesis" if foc: "find_or_create_entry now (packet_id hdr) tbl = (Some i, tbl1)"
    and wf1: "wf_table tbl1" and bd1: "bounded_table tbl1" and i: "i < length tbl1" "is_active (tbl1 ! i)"
    for i tbl1
  proof -
    define e where "e = tbl1 ! i"
    define e' where "e' = filled hdr payload e"
    have e: "length (buffer e) = MAX_PACKET_SIZE" "expected_length e \<le> MAX_PACKET_SIZE"
      using wf_table_buffer [OF wf1 i(1)] bd1 i by (auto simp: e_def bounded_table_def)
    have exp: "expected_length e' \<le> MAX_PACKET_SIZE" and ident: "re_packet_id e' = re_packet_id e"
      using e total by (auto simp: e'_def filled_def)
    note st = store_fragment_entry [OF foc small e_def e'_def]
    have upd: "wf_table (tbl1[i := x]) \<and> bounded_table (tbl1[i := x])"
      if "re_packet_id x = re_packet_id e" "length (buffer x) = MAX_PACKET_SIZE"
        "expected_length x \<le> MAX_PACKET_SIZE" for x
      using wf_same_id [OF wf1 i] bounded_update [OF bd1] that by (simp add: e_def)
    show ?thesis
    proof (cases "unat (fragment_offset hdr) + length payload > MAX_PACKET_SIZE")
      case True
      then show ?thesis using st upd [of "e\<lparr>is_active := False\<rparr>"] e by simp
    next
      case False
      then have "length (buffer e') = MAX_PACKET_SIZE"
        using filled_wf [OF e(1), of hdr payload] by (simp add: e'_def)
      then show ?thesis
        using st False exp ident upd [of e'] upd [of "e'\<lparr>is_active := False\<rparr>"] by simp
    qed
  qed
  from wf show ?thesis
  proof (cases rule: find_or_create_entry_cases [where now = now and ident = "packet_id hdr"])
    case full
    then show ?thesis using wf bd by (simp add: store_fragment_def)
  next
    case (old i)
    have "expected_length (tbl ! i) \<le> MAX_PACKET_SIZE" using bd old(1) by (simp add: bounded_table_def)
    then show ?thesis
      using main [OF old(4,5)] old(1,2) bounded_update [OF bd] by simp
  next
    case (new i)
    then show ?thesis using main [OF new(4,5)] bounded_update [OF bd] by simp
  qed
qed

text \<open>Only the payload of the decrypted buffer is read.\<close>

lemma store_fragment_take:
  "len \<le> length avail \<Longrightarrow>
   store_fragment now hdr len avail tbl = store_fragment now hdr (length (take len avail)) (take len avail) tbl"
  by (simp add: store_fragment_def min_def Let_def split: prod.split option.split)

text \<open>
  C18. Reassembly stays within its buffers. For a table whose entries announce at most 2500
  bytes, a fragment that announces at most 2500 bytes and whose payload lies in the decrypted
  packet is stored without any access outside the table or the packet; the invariant of the
  table (256 entries, buffers of 2500 bytes, one entry per packet identifier, bounded
  announcements) is kept, and what is written to the TUN device is at most 2500 bytes.
\<close>

theorem store_fragment_safe:
  assumes wf: "wf_table tbl" and bd: "bounded_table tbl"
    and len: "length payload \<le> BUFFER_SIZE" and total: "unat (total_ip_len hdr) \<le> MAX_PACKET_SIZE"
  shows "\<exists>out tbl'. store_fragment now hdr (length payload) payload tbl = Some (out, tbl') \<and>
    wf_table tbl' \<and> bounded_table tbl' \<and> (\<forall>p. out = Some p \<longrightarrow> length p \<le> MAX_PACKET_SIZE)"
  by (rule store_fragment_step [OF assms])

theorem store_fragment_safe_witness:
  "\<exists>out tbl'. store_fragment 7 \<lparr>packet_id = 3, fragment_offset = 0, total_ip_len = 4, flags = 0, th_session_id = []\<rparr>
      (length [1 :: byte, 2, 3, 4]) [1, 2, 3, 4] reassembly_init = Some (out, tbl') \<and>
    wf_table tbl' \<and> bounded_table tbl' \<and> (\<forall>p. out = Some p \<longrightarrow> length p \<le> MAX_PACKET_SIZE)"
  by (rule store_fragment_safe [OF wf_table_init(1)])
    (simp_all add: bounded_table_def reassembly_init_def config_defs)

section \<open>Fragmenting and reassembling\<close>

text \<open>
  The plaintexts the loop hands to the encryption, in order. A chunk of length 0 would make
  the C loop run forever; it cannot occur for the fragment sizes the handshake lets through.
\<close>

function fragment_list ::
  "int \<Rightarrow> bool \<Rightarrow> u16 \<Rightarrow> bytes \<Rightarrow> bytes \<Rightarrow> bytes \<Rightarrow> nat \<Rightarrow> bytes list" where
  "fragment_list frag pad ident hdr_sid stack buf off =
     (if off < length buf \<and> 0 < chunk_len frag (length buf) off
      then (let (buf2, real_data_len) = make_fragment frag pad ident hdr_sid stack buf off
            in take real_data_len buf2)
           # fragment_list frag pad ident hdr_sid stack buf (off + chunk_len frag (length buf) off)
      else [])"
  by pat_completeness auto
termination
  by (relation "measure (\<lambda>(frag, pad, ident, hdr_sid, stack, buf, off). length buf - off)") auto

declare fragment_list.simps [simp del]

text \<open>The receiver on a sequence of decrypted data fragments.\<close>

fun deliver :: "time_t \<Rightarrow> bytes list \<Rightarrow> reassembly_entry list \<Rightarrow> (bytes list \<times> reassembly_entry list) option" where
  "deliver now [] tbl = Some ([], tbl)"
| "deliver now (p # ps) tbl =
     (case store_fragment now (tunnel_header_of p) (sub64 (length p) sizeof_tunnel_header)
             (drop sizeof_tunnel_header p) tbl of
        None \<Rightarrow> None
      | Some (out, tbl1) \<Rightarrow>
          (case deliver now ps tbl1 of
             None \<Rightarrow> None
           | Some (outs, tbl2) \<Rightarrow> Some ((case out of None \<Rightarrow> outs | Some x \<Rightarrow> x # outs), tbl2)))"

definition frag_ok :: "int \<Rightarrow> bool" where
  "frag_ok frag \<longleftrightarrow> 64 \<le> frag \<and> frag \<le> 1200"

lemma chunk_len_ok:
  assumes "frag_ok frag"
  shows "chunk_len frag len off = min (nat frag - 24) (len - off)"
  using assms by (auto simp: chunk_len_def frag_ok_def Let_def sub64_small config_defs)

definition fragment_header :: "int \<Rightarrow> u16 \<Rightarrow> bytes \<Rightarrow> bytes \<Rightarrow> nat \<Rightarrow> tunnel_header" where
  "fragment_header frag ident hdr_sid buf off =
     \<lparr>packet_id = ident, fragment_offset = of_nat off, total_ip_len = of_nat (length buf),
      flags = (if off + chunk_len frag (length buf) off = length buf then 0x0000 else 0x8000),
      th_session_id = hdr_sid\<rparr>"

definition padding_len :: "int \<Rightarrow> bool \<Rightarrow> nat \<Rightarrow> nat \<Rightarrow> nat" where
  "padding_len frag pad len off = (if pad then nat frag - 24 - chunk_len frag len off else 0)"

lemma make_fragment_bytes:
  assumes ok: "frag_ok frag" and sid: "length hdr_sid = 16" and st: "length stack = MAX_FRAG"
    and off: "off \<le> length buf"
    and mf: "make_fragment frag pad ident hdr_sid stack buf off = (buf2, real)"
  shows "take real buf2 = tunnel_header_bytes (fragment_header frag ident hdr_sid buf off) @
      slice buf off (chunk_len frag (length buf) off) @
      replicate (padding_len frag pad (length buf) off) 0"
    and "length buf2 = MAX_FRAG"
proof -
  define n where "n = chunk_len frag (length buf) off"
  define hb where "hb = tunnel_header_bytes (fragment_header frag ident hdr_sid buf off)"
  define b2 where "b2 = memcpy_at (memcpy_at (memset_at stack 0 0 (nat frag)) 0 hb) 24 (slice buf off n)"
  have hb: "length hb = 24" using sid by (simp add: hb_def fragment_header_def)
  have n: "24 + n \<le> nat frag" "nat frag \<le> 1200" "0 < nat frag" "n \<le> length buf - off"
    using ok by (auto simp: n_def chunk_len_ok [OF ok] frag_ok_def)
  have sl: "length (slice buf off n) = n" using n(4) off by (simp add: slice_def)
  have b2: "b2 = hb @ slice buf off n @ drop (24 + n) (memset_at stack 0 0 (nat frag))"
    using hb sl by (simp add: b2_def memcpy_at_def add.commute)
  then have lb2: "length b2 = 1600" using hb sl st n by (simp add: memset_at_def config_defs)
  have pad: "packet_padding b2 (24 + n) frag =
      hb @ slice buf off n @ replicate (nat frag - 24 - n) 0 @ drop (nat frag) b2"
    if "n < nat frag - 24"
    using that n hb sl ok by (simp add: packet_padding_def b2 memset_at_def memcpy_at_def Let_def
        frag_ok_def config_defs)
  have res: "(buf2, real) = (if pad then (packet_padding b2 (24 + n) frag, nat frag) else (b2, 24 + n))"
    unfolding mf [symmetric] make_fragment_def b2_def hb_def n_def fragment_header_def Let_def
    by (simp add: sizeof_tunnel_header_def)
  show "take real buf2 = hb @ slice buf off (chunk_len frag (length buf) off) @
      replicate (padding_len frag pad (length buf) off) 0"
    unfolding n_def [symmetric] padding_len_def
  proof (cases "pad \<and> n < nat frag - 24")
    case True
    then show "take real buf2 = hb @ slice buf off n @ replicate (if pad then nat frag - 24 - n else 0) 0"
      using res pad hb sl n by simp
  next
    case False
    then have full: "nat frag = 24 + n" if pad using n(1) that by auto
    have "packet_padding b2 (24 + n) frag = b2" if pad
      using full [OF that] n by (simp add: packet_padding_def Let_def)
    moreover have "take (24 + n) b2 = hb @ slice buf off n" using hb sl by (simp add: b2)
    ultimately show "take real buf2 = hb @ slice buf off n @ replicate (if pad then nat frag - 24 - n else 0) 0"
      using res full by (cases pad) auto
  qed
  show "length buf2 = MAX_FRAG"
    using res lb2 pad n hb sl
    by (cases pad; cases "n < nat frag - 24") (auto simp: config_defs packet_padding_def Let_def)
qed

text \<open>The table after the fragments below \<open>off\<close> of a packet have been stored.\<close>

definition holds_prefix :: "u16 \<Rightarrow> bytes \<Rightarrow> nat \<Rightarrow> reassembly_entry \<Rightarrow> bool" where
  "holds_prefix ident pkt off e \<longleftrightarrow> is_active e \<and> re_packet_id e = ident \<and> received_bytes e = off \<and>
     (expected_length e = length pkt \<or> off = 0 \<and> expected_length e = 0) \<and>
     take off (buffer e) = take off pkt \<and> length (buffer e) = MAX_PACKET_SIZE"

definition progress :: "u16 \<Rightarrow> bytes \<Rightarrow> nat \<Rightarrow> reassembly_entry list \<Rightarrow> bool" where
  "progress ident pkt off tbl \<longleftrightarrow> wf_table tbl \<and>
     (if off = 0 then no_entry ident tbl \<and> (\<exists>e\<in>set tbl. \<not> is_active e)
      else \<exists>i<length tbl. holds_prefix ident pkt off (tbl ! i))"

lemma progress_find:
  assumes pr: "progress ident pkt off tbl"
  obtains i tbl1 where "find_or_create_entry now ident tbl = (Some i, tbl1)" "wf_table tbl1"
    "i < length tbl1" "holds_prefix ident pkt off (tbl1 ! i)"
proof -
  have wf: "wf_table tbl" using pr by (simp add: progress_def)
  then show ?thesis
  proof (cases rule: find_or_create_entry_cases [where now = now and ident = ident])
    case full
    then show ?thesis using pr
      by (auto simp: progress_def holds_prefix_def no_entry_nth split: if_splits)
  next
    case (old i)
    then have "0 < off" using pr by (cases "off = 0") (auto simp: progress_def no_entry_nth)
    with pr obtain j where j: "j < length tbl" "holds_prefix ident pkt off (tbl ! j)"
      by (auto simp: progress_def)
    then have "j = i" using wf_table_other [OF wf old(1,2) j(1)] old(3) by (auto simp: holds_prefix_def)
    then show ?thesis using that [OF old(4,5)] j old(1) by (simp add: holds_prefix_def)
  next
    case (new i)
    then have "off = 0" using pr by (auto simp: progress_def holds_prefix_def no_entry_nth split: if_splits)
    then show ?thesis using that [OF new(4,5)] new(1) by (simp add: holds_prefix_def)
  qed
qed

text \<open>Where the fragments start, no padded fragment passes the end of the buffer.\<close>

lemma padded_fits:
  assumes "frag_ok frag" "off = k * (nat frag - 24)" "off < len" "len \<le> 1600"
  shows "off + (nat frag - 24) \<le> 2500"
proof (cases "nat frag - 24 \<le> 900")
  case False
  have "k \<le> 1"
  proof (rule ccontr)
    assume "\<not> k \<le> 1"
    then have "2 * (nat frag - 24) \<le> off" unfolding assms(2) by (intro mult_right_mono) simp_all
    then show False using False assms(3,4) by linarith
  qed
  then have "off \<le> nat frag - 24" using assms(2) by (cases k) auto
  moreover have "nat frag \<le> 1200" using assms(1) by (auto simp: frag_ok_def)
  ultimately show ?thesis by linarith
qed (use assms in simp)

lemma fragment_payload_length:
  fixes pad :: bool
  assumes "frag_ok frag" "off < length pkt"
  defines "n \<equiv> chunk_len frag (length pkt) off"
    and "payload \<equiv> slice pkt off (chunk_len frag (length pkt) off) @ replicate (padding_len frag pad (length pkt) off) 0"
  shows "length payload \<le> nat frag - 24" "n \<le> length payload"
    "off + n \<noteq> length pkt \<Longrightarrow> payload = slice pkt off n \<and> n = nat frag - 24"
proof -
  have n: "n = min (nat frag - 24) (length pkt - off)" using assms(1) by (auto simp: n_def chunk_len_ok frag_ok_def)
  then have "length (slice pkt off n) = n" by (simp add: slice_def)
  then have lp: "length payload = n + (if pad then nat frag - 24 - n else 0)"
    by (simp add: payload_def padding_len_def n_def)
  have "n \<le> nat frag - 24" "off + n \<noteq> length pkt \<Longrightarrow> n = nat frag - 24" using n assms(2) by auto
  then show "length payload \<le> nat frag - 24" "n \<le> length payload"
    "off + n \<noteq> length pkt \<Longrightarrow> payload = slice pkt off n \<and> n = nat frag - 24"
    using lp by (auto simp: payload_def padding_len_def n_def)
qed

lemma store_next_fragment:
  fixes hdr_sid :: bytes and pad :: bool
  assumes ok: "frag_ok frag" and len: "0 < length pkt" "length pkt \<le> BUFFER_SIZE"
    and off: "off = k * (nat frag - 24)" "off < length pkt" and pr: "progress ident pkt off tbl"
  defines "n \<equiv> chunk_len frag (length pkt) off"
    and "hdr \<equiv> fragment_header frag ident hdr_sid pkt off"
    and "payload \<equiv> slice pkt off (chunk_len frag (length pkt) off) @ replicate (padding_len frag pad (length pkt) off) 0"
  shows "\<exists>tbl'. store_fragment now hdr (length payload) payload tbl =
      Some (if off + n = length pkt then Some pkt else None, tbl') \<and>
    (if off + n = length pkt then wf_table tbl' \<and> no_entry ident tbl'
     else off + n = (k + 1) * (nat frag - 24) \<and> progress ident pkt (off + n) tbl')"
proof -
  obtain i tbl1 where foc: "find_or_create_entry now (packet_id hdr) tbl = (Some i, tbl1)"
    and wf1: "wf_table tbl1" and i: "i < length tbl1" and h: "holds_prefix ident pkt off (tbl1 ! i)"
    using progress_find [OF pr] by (auto simp: hdr_def fragment_header_def)
  define e where "e = tbl1 ! i"
  define e' where "e' = filled hdr payload e"
  have n: "n = min (nat frag - 24) (length pkt - off)" and mp: "0 < nat frag - 24" "nat frag \<le> 1200"
    using ok by (auto simp: n_def chunk_len_ok frag_ok_def)
  have bits: "unat (fragment_offset hdr) = off" "unat (total_ip_len hdr) = length pkt"
    using len off(2) by (simp_all add: hdr_def fragment_header_def config_defs unat_of_nat)
  have sl: "length (slice pkt off n) = n" using n by (simp add: slice_def)
  note plen = fragment_payload_length [OF ok off(2), of pad, folded payload_def, folded n_def]
  have fits: "off + length payload \<le> MAX_PACKET_SIZE"
    using padded_fits [OF ok off(1,2)] len plen(1) by (simp add: config_defs)
  have small: "length payload < 2 ^ 63" "off + length payload < 2 ^ 64"
    using plen(1) mp(2) fits by (auto simp: config_defs)
  have exp: "expected_length e' = length pkt" and recv: "received_bytes e' = off + length payload"
    and act: "is_active e' \<and> re_packet_id e' = ident"
    using h bits small(2) by (auto simp: e_def e'_def filled_def holds_prefix_def add64_small)
  have lbuf: "length (buffer e') = MAX_PACKET_SIZE"
    using filled_wf [of e hdr payload] h fits bits by (simp add: e'_def e_def holds_prefix_def)
  have pre: "take (off + n) (buffer e') = take (off + n) pkt"
  proof -
    have "take (off + n) (buffer e') = take off (buffer e) @ take n payload"
      using h fits plen(2) unfolding e'_def filled_def bits(1)
      by (simp add: take_memcpy_at_prefix e_def holds_prefix_def)
    then show ?thesis using h sl by (simp add: payload_def n_def [symmetric] e_def holds_prefix_def take_slice_snoc)
  qed
  have fl: "flags hdr AND 0x8000 = 0 \<longleftrightarrow> off + n = length pkt"
    by (simp add: hdr_def fragment_header_def n_def)
  note st = store_fragment_entry [OF foc small(1) e_def e'_def]
  have wf': "wf_table (tbl1[i := x])" if "re_packet_id x = ident" "length (buffer x) = MAX_PACKET_SIZE" for x
    using wf_same_id [OF wf1 i] h that by (simp add: holds_prefix_def)
  show ?thesis
  proof (cases "off + n = length pkt")
    case True
    have "take (length pkt) (buffer e') = pkt" using pre True by simp
    moreover have "no_entry ident (tbl1[i := e'\<lparr>is_active := False\<rparr>])"
      using wf_table_other [OF wf1 i] h i by (auto simp: no_entry_nth holds_prefix_def nth_list_update)
    ultimately show ?thesis
      using st fits bits fl True recv exp lbuf act plen(2) len wf' [of "e'\<lparr>is_active := False\<rparr>"]
      by (simp add: config_defs)
  next
    case False
    then have "payload = slice pkt off n" "n = nat frag - 24" using plen(3) by auto
    then have "holds_prefix ident pkt (off + n) e'" using exp recv act pre lbuf sl by (simp add: holds_prefix_def)
    then have "progress ident pkt (off + n) (tbl1[i := e'])"
      using wf' [of e'] act lbuf i mp(1) \<open>n = nat frag - 24\<close> by (auto simp: progress_def intro!: exI [of _ i])
    then show ?thesis using st fits bits fl False off(1) \<open>n = nat frag - 24\<close> by simp
  qed
qed

lemma deliver_fragments:
  assumes ok: "frag_ok frag" and sid: "length hdr_sid = 16" and st: "length stack = MAX_FRAG"
    and len: "0 < length pkt" "length pkt \<le> BUFFER_SIZE"
  shows "off = k * (nat frag - 24) \<Longrightarrow> off < length pkt \<Longrightarrow> progress ident pkt off tbl \<Longrightarrow>
    \<exists>tbl'. deliver now (fragment_list frag pad ident hdr_sid stack pkt off) tbl = Some ([pkt], tbl') \<and>
      wf_table tbl' \<and> no_entry ident tbl'"
proof (induction "length pkt - off" arbitrary: off k tbl rule: less_induct)
  case less
  let ?n = "chunk_len frag (length pkt) off"
  let ?hdr = "fragment_header frag ident hdr_sid pkt off"
  let ?payload = "slice pkt off ?n @ replicate (padding_len frag pad (length pkt) off) 0"
  have n: "0 < ?n" "off + ?n \<le> length pkt" using ok less.prems(2) by (auto simp: chunk_len_ok frag_ok_def)
  obtain b r where mf: "make_fragment frag pad ident hdr_sid stack pkt off = (b, r)" by fastforce
  define p where "p = take r b"
  have p: "p = tunnel_header_bytes ?hdr @ ?payload"
    using make_fragment_bytes(1) [OF ok sid st _ mf] less.prems(2) by (simp add: p_def)
  have hl: "length (th_session_id ?hdr) = 16" using sid by (simp add: fragment_header_def)
  have fl: "fragment_list frag pad ident hdr_sid stack pkt off =
      p # fragment_list frag pad ident hdr_sid stack pkt (off + ?n)"
    using less.prems(2) n by (subst fragment_list.simps) (simp add: mf p_def)
  have "length ?payload \<le> 1200"
    using ok by (auto simp: padding_len_def slice_def chunk_len_ok frag_ok_def)
  then have pp: "tunnel_header_of p = ?hdr" "sub64 (length p) sizeof_tunnel_header = length ?payload"
    "drop sizeof_tunnel_header p = ?payload"
    using hl by (simp_all add: p sub64_small config_defs)
  obtain tbl1 where s1: "store_fragment now ?hdr (length ?payload) ?payload tbl =
      Some (if off + ?n = length pkt then Some pkt else None, tbl1)"
    and s2: "if off + ?n = length pkt then wf_table tbl1 \<and> no_entry ident tbl1
      else off + ?n = (k + 1) * (nat frag - 24) \<and> progress ident pkt (off + ?n) tbl1"
    using store_next_fragment [OF ok len less.prems] by blast
  show ?case
  proof (cases "off + ?n = length pkt")
    case True
    moreover have "fragment_list frag pad ident hdr_sid stack pkt (length pkt) = []"
      by (subst fragment_list.simps) simp
    ultimately show ?thesis using s1 s2 fl pp by simp
  next
    case False
    then have s3: "off + ?n = (k + 1) * (nat frag - 24)" "progress ident pkt (off + ?n) tbl1"
      using s2 by auto
    have lt: "off + ?n < length pkt" "length pkt - (off + ?n) < length pkt - off"
      using False n less.prems(2) by linarith+
    obtain tbl' where "deliver now (fragment_list frag pad ident hdr_sid stack pkt (off + ?n)) tbl1 =
        Some ([pkt], tbl')" "wf_table tbl' \<and> no_entry ident tbl'"
      using less.hyps [OF lt(2) s3(1) lt(1) s3(2)] by blast
    then show ?thesis using s1 False fl pp by simp
  qed
qed

text \<open>
  C17. Reassembly inverts fragmentation. For every fragment size the handshake accepts, with
  padding or without, the fragments that the sender cuts from an IP packet, stored in order in
  a table that has a free slot and no pending packet with that identifier, make the receiver
  write exactly that IP packet, once, and leave no entry behind.
\<close>

theorem fragment_roundtrip:
  assumes "frag_ok frag" and "length hdr_sid = 16" and "length stack = MAX_FRAG"
    and "0 < length pkt" and "length pkt \<le> BUFFER_SIZE"
    and "wf_table tbl" and "no_entry ident tbl" and "\<exists>e\<in>set tbl. \<not> is_active e"
  shows "\<exists>tbl'. deliver now (fragment_list frag pad ident hdr_sid stack pkt 0) tbl = Some ([pkt], tbl') \<and>
    wf_table tbl' \<and> no_entry ident tbl'"
  using deliver_fragments [OF assms(1-5), of 0 0 ident tbl now pad] assms(4,6-8)
  by (simp add: progress_def)

theorem fragment_roundtrip_witness:
  "\<exists>tbl'. deliver 9 (fragment_list 64 True 5 (replicate 16 0) (replicate MAX_FRAG 0xAA) (replicate 100 7) 0)
      reassembly_init = Some ([replicate 100 7], tbl') \<and> wf_table tbl' \<and> no_entry 5 tbl'"
  by (rule fragment_roundtrip)
    (simp_all only: wf_table_init, simp_all add: frag_ok_def config_defs reassembly_init_def)

section \<open>Inputs outside the contract\<close>



text \<open>A fragment that announces 65535 bytes and repeats the same 1200 bytes.\<close>

definition greedy_fragment :: "bool \<Rightarrow> bytes" where
  "greedy_fragment final = tunnel_header_bytes \<lparr>packet_id = 1, fragment_offset = 0, total_ip_len = 0xFFFF,
     flags = (if final then 0 else 0x8000), th_session_id = replicate 16 0\<rparr> @ replicate 1200 0"

definition greedy_entry :: "nat \<Rightarrow> reassembly_entry list \<Rightarrow> bool" where
  "greedy_entry r tbl \<longleftrightarrow> wf_table tbl \<and> (\<exists>i<length tbl. is_active (tbl ! i) \<and> re_packet_id (tbl ! i) = 1 \<and>
     expected_length (tbl ! i) = 0xFFFF \<and> received_bytes (tbl ! i) = r)"

lemma greedy_parse:
  "tunnel_header_of (greedy_fragment final) = \<lparr>packet_id = 1, fragment_offset = 0, total_ip_len = 0xFFFF,
     flags = (if final then 0 else 0x8000), th_session_id = replicate 16 0\<rparr>"
  "sub64 (length (greedy_fragment final)) sizeof_tunnel_header = length (replicate 1200 (0 :: byte))"
  "drop sizeof_tunnel_header (greedy_fragment final) = replicate 1200 0"
  by (simp_all add: greedy_fragment_def config_defs sub64_def)

lemma greedy_step:
  assumes g: "greedy_entry r tbl" and r: "r < 2 ^ 32"
  shows "store_fragment now (tunnel_header_of (greedy_fragment False)) (length (replicate 1200 (0 :: byte)))
      (replicate 1200 0) tbl = Some (None, tbl') \<Longrightarrow> greedy_entry (r + 1200) tbl'"
    and "\<exists>tbl'. store_fragment now (tunnel_header_of (greedy_fragment False)) (length (replicate 1200 (0 :: byte)))
      (replicate 1200 0) tbl = Some (None, tbl')"
    and "64335 \<le> r \<Longrightarrow> store_fragment now (tunnel_header_of (greedy_fragment True))
      (length (replicate 1200 (0 :: byte))) (replicate 1200 0) tbl = None"
proof -
  obtain i where wf: "wf_table tbl" and i: "i < length tbl" "is_active (tbl ! i)" "re_packet_id (tbl ! i) = 1"
    "expected_length (tbl ! i) = 0xFFFF" "received_bytes (tbl ! i) = r" using g by (auto simp: greedy_entry_def)
  let ?tbl = "tbl[i := (tbl ! i)\<lparr>re_last_activity := now\<rparr>]"
  have foc: "find_or_create_entry now 1 tbl = (Some i, ?tbl)" and wf1: "wf_table ?tbl"
  proof -
    show "find_or_create_entry now 1 tbl = (Some i, ?tbl)"
      using wf
    proof (cases rule: find_or_create_entry_cases [where now = now and ident = 1])
      case (old j)
      then show ?thesis using wf_table_other [OF wf i(1,2) old(1)] i(3) by auto
    qed (use i in \<open>auto simp: no_entry_nth\<close>)
    show "wf_table ?tbl" by (rule wf_same_id [OF wf i(1,2)]) (use wf_table_buffer [OF wf i(1)] in auto)
  qed
  note st = store_fragment_entry [where ?tbl1.0 = ?tbl and i = i and now = now and payload = "replicate 1200 0", OF _ _ refl refl]
  let ?e = "filled (tunnel_header_of (greedy_fragment False)) (replicate 1200 0) (?tbl ! i)"
  have len: "length (buffer (tbl ! i)) = MAX_PACKET_SIZE" by (rule wf_table_buffer [OF wf i(1)])
  have ok: "store_fragment now (tunnel_header_of (greedy_fragment False)) (length (replicate 1200 (0 :: byte)))
      (replicate 1200 0) tbl = Some (None, ?tbl[i := ?e])"
    using foc by (subst st) (simp_all add: greedy_parse config_defs)
  then show "\<exists>tbl'. store_fragment now (tunnel_header_of (greedy_fragment False)) (length (replicate 1200 (0 :: byte)))
      (replicate 1200 0) tbl = Some (None, tbl')" by blast
  have "wf_table (?tbl[i := ?e])"
    by (rule wf_same_id [OF wf1]) (use i len in \<open>simp_all add: filled_def greedy_parse buffer_simps config_defs\<close>)
  then have "greedy_entry (r + 1200) (?tbl[i := ?e])"
    using i r by (auto simp: greedy_entry_def filled_def greedy_parse add64_small intro!: exI [of _ i])
  with ok show "greedy_entry (r + 1200) tbl'"
    if "store_fragment now (tunnel_header_of (greedy_fragment False)) (length (replicate 1200 (0 :: byte)))
      (replicate 1200 0) tbl = Some (None, tbl')" using that by simp
  show "store_fragment now (tunnel_header_of (greedy_fragment True))
      (length (replicate 1200 (0 :: byte))) (replicate 1200 0) tbl = None" if "64335 \<le> r"
    using foc i len r that
    by (subst st) (simp_all add: greedy_parse filled_def add64_small buffer_simps config_defs)
qed

lemma greedy_run:
  "greedy_entry r tbl \<Longrightarrow> r + 1200 * n < 2 ^ 32 \<Longrightarrow> 64335 \<le> r + 1200 * n \<Longrightarrow>
   deliver now (replicate n (greedy_fragment False) @ [greedy_fragment True]) tbl = None"
proof (induction n arbitrary: r tbl)
  case 0
  then show ?case using greedy_step(3) [of r tbl now] by (simp add: greedy_parse(2,3) del: length_replicate)
next
  case (Suc n)
  have r: "r < 2 ^ 32" using Suc.prems(2) by simp
  obtain tbl' where st: "store_fragment now (tunnel_header_of (greedy_fragment False))
      (length (replicate 1200 (0 :: byte))) (replicate 1200 0) tbl = Some (None, tbl')"
    using greedy_step(2) [OF Suc.prems(1) r] by blast
  have "deliver now (replicate n (greedy_fragment False) @ [greedy_fragment True]) tbl' = None"
    using Suc.IH [OF greedy_step(1) [OF Suc.prems(1) r st]] Suc.prems(2,3) by simp
  then show ?case using st by (simp add: greedy_parse(2,3) del: length_replicate)
qed

text \<open>
  C40. The announced length is not checked against the buffer, on either side. Fifty-six
  authentic fragments of one packet, each within all the bounds the code checks, make the
  receiver count more bytes than the buffer holds, and the last one makes it write memory
  from behind the 2500-byte buffer to the TUN device.
\<close>

theorem oversize_announcement_overreads:
  "deliver now (replicate 55 (greedy_fragment False) @ [greedy_fragment True]) reassembly_init = None"
proof -
  let ?e = "zero_entry\<lparr>is_active := True, re_packet_id := 1, re_last_activity := now\<rparr>"
  let ?f = "filled (tunnel_header_of (greedy_fragment False)) (replicate 1200 0) ?e"
  have foc: "find_or_create_entry now 1 reassembly_init = (Some 0, reassembly_init[0 := ?e])"
    by (simp add: find_or_create_entry_def reassembly_init_def config_defs eval_nat_numeral)
  have l: "0 < length reassembly_init" by (simp add: reassembly_init_def config_defs)
  have st: "store_fragment now (tunnel_header_of (greedy_fragment False)) (length (replicate 1200 (0 :: byte)))
      (replicate 1200 0) reassembly_init = Some (None, reassembly_init[0 := ?f])"
    using foc l by (subst store_fragment_entry [where ?tbl1.0 = "reassembly_init[0 := ?e]" and i = 0, OF _ _ refl refl]) (simp_all add: greedy_parse config_defs)
  have "wf_table (reassembly_init[0 := ?f])"
    by (rule wf_table_update [OF wf_table_init(1) l])
      (simp_all add: filled_def greedy_parse buffer_simps config_defs reassembly_init_def)
  then have "greedy_entry 1200 (reassembly_init[0 := ?f])"
    using l by (auto simp: greedy_entry_def filled_def greedy_parse add64_small intro!: exI [of _ 0])
  then have "deliver now (replicate 54 (greedy_fragment False) @ [greedy_fragment True])
      (reassembly_init[0 := ?f]) = None" by (rule greedy_run) simp_all
  moreover have "replicate 55 x = x # replicate 54 x" for x :: bytes
    using replicate_Suc [of 54 x] by simp
  ultimately show ?thesis
    by (simp only: append_Cons deliver.simps greedy_parse(2,3) st option.case prod.case)
qed

end
