(* ===== verification/Linked_Queue.thy ===== *)
theory Linked_Queue
  imports Chamlon_Prelude
begin

text \<open>
  Singly linked queues on an explicit store. The packet queues of both ends and the job
  queues of the thread pool are all built from the same two pieces of pointer code: append
  a node at the tail, and unlink the node at the head. This theory holds the store, the two
  pieces, the relation between a lane and the list of nodes it threads, and the simulation
  contract the queues are proved against. Following a pointer that is null or that points
  to no allocated node is undefined in C and is \<open>None\<close> here.
\<close>

section \<open>Store and lanes\<close>

type_synonym addr = nat

record 'a cell =
  nxt :: "addr option"
  item :: 'a

type_synonym 'a store = "addr \<rightharpoonup> 'a cell"

record lane =
  head :: "addr option"
  tail :: "addr option"
  size_of :: nat

definition empty_lane :: lane where
  "empty_lane = \<lparr>head = None, tail = None, size_of = 0\<rparr>"

text \<open>
  \<open>if (!q->tail) q->head = q->tail = n; else { q->tail->next = n; q->tail = n; } q->size++\<close>
\<close>

definition append_node :: "addr \<Rightarrow> 'a store \<Rightarrow> lane \<Rightarrow> ('a store \<times> lane) option" where
  "append_node n h l =
     (case tail l of
        None \<Rightarrow> Some (h, l\<lparr>head := Some n, tail := Some n, size_of := size_of l + 1\<rparr>)
      | Some t \<Rightarrow>
          (case h t of
             None \<Rightarrow> None
           | Some c \<Rightarrow> Some (h(t \<mapsto> c\<lparr>nxt := Some n\<rparr>), l\<lparr>tail := Some n, size_of := size_of l + 1\<rparr>)))"

text \<open>\<open>q->head = n->next; if (!q->head) q->tail = NULL; q->size--\<close> for \<open>n = q->head\<close>.\<close>

definition unlink_head :: "'a store \<Rightarrow> lane \<Rightarrow> (addr \<times> lane) option" where
  "unlink_head h l =
     (case head l of
        None \<Rightarrow> None
      | Some n \<Rightarrow>
          (case h n of
             None \<Rightarrow> None
           | Some c \<Rightarrow>
               Some (n, l\<lparr>head := nxt c, tail := (if nxt c = None then None else tail l),
                          size_of := size_of l - 1\<rparr>)))"

text \<open>
  The loop \<open>while (n) { t = n->next; free(n); n = t; }\<close>, with the number of nodes it may
  visit as fuel; \<open>None\<close> when the chain is longer or broken.
\<close>

fun free_chain :: "nat \<Rightarrow> addr option \<Rightarrow> 'a store \<Rightarrow> 'a store option" where
  "free_chain fuel None h = Some h"
| "free_chain 0 (Some n) h = None"
| "free_chain (Suc fuel) (Some n) h =
     (case h n of None \<Rightarrow> None | Some c \<Rightarrow> free_chain fuel (nxt c) (h(n := None)))"

section \<open>The chain of a lane\<close>

fun chain :: "'a store \<Rightarrow> addr option \<Rightarrow> addr list \<Rightarrow> bool" where
  "chain h p [] \<longleftrightarrow> p = None"
| "chain h p (a # as) \<longleftrightarrow> p = Some a \<and> (\<exists>c. h a = Some c \<and> chain h (nxt c) as)"

definition items :: "'a store \<Rightarrow> addr list \<Rightarrow> 'a list" where
  "items h as = map (\<lambda>a. item (the (h a))) as"

definition lane_rel :: "'a store \<Rightarrow> lane \<Rightarrow> addr list \<Rightarrow> bool" where
  "lane_rel h l as \<longleftrightarrow> chain h (head l) as \<and> distinct as \<and> size_of l = length as \<and>
     tail l = (if as = [] then None else Some (last as))"

lemma items_simps [simp]:
  "items h [] = []" "items h (a # as) = item (the (h a)) # items h as"
  "items h (as @ bs) = items h as @ items h bs" "length (items h as) = length as"
  by (simp_all add: items_def)

lemma chain_cong: "(\<And>a. a \<in> set as \<Longrightarrow> h a = h' a) \<Longrightarrow> chain h p as = chain h' p as"
  by (induction as arbitrary: p) auto

lemma items_cong: "(\<And>a. a \<in> set as \<Longrightarrow> h a = h' a) \<Longrightarrow> items h as = items h' as"
  by (simp add: items_def)

lemma chain_alloc: "chain h p as \<Longrightarrow> a \<in> set as \<Longrightarrow> \<exists>c. h a = Some c"
  by (induction as arbitrary: p) auto

lemma lane_rel_alloc: "lane_rel h l as \<Longrightarrow> a \<in> set as \<Longrightarrow> \<exists>c. h a = Some c"
  by (auto simp: lane_rel_def dest: chain_alloc)

lemma lane_rel_frame:
  "(\<And>a. a \<in> set as \<Longrightarrow> h' a = h a) \<Longrightarrow> lane_rel h l as \<Longrightarrow> lane_rel h' l as \<and> items h' as = items h as"
  using chain_cong [of as h h' "head l"] items_cong [of as h h'] by (auto simp: lane_rel_def)

lemma empty_lane_rel [simp]: "lane_rel h empty_lane []"
  by (simp add: lane_rel_def empty_lane_def)

lemma chain_snoc:
  assumes "chain h p (as @ [t])" and "distinct (as @ [t])" and "n \<notin> set (as @ [t])"
    and "h t = Some c" and "h n = Some \<lparr>nxt = None, item = v\<rparr>"
  shows "chain (h(t \<mapsto> c\<lparr>nxt := Some n\<rparr>)) p (as @ [t, n])"
  using assms
proof (induction as arbitrary: p)
  case (Cons a as)
  then show ?case by auto
qed auto

lemma append_node_rel:
  assumes rel: "lane_rel h l as" and n: "n \<notin> set as" and cell: "h n = Some \<lparr>nxt = None, item = v\<rparr>"
  obtains h' l' where "append_node n h l = Some (h', l')" and "lane_rel h' l' (as @ [n])"
    and "items h' (as @ [n]) = items h as @ [v]" and "\<And>a. a \<notin> set as \<Longrightarrow> h' a = h a"
    and "\<And>a. h' a = None \<longleftrightarrow> h a = None"
proof (cases as rule: rev_cases)
  case Nil
  then show ?thesis
    using rel cell that [of h "l\<lparr>head := Some n, tail := Some n, size_of := size_of l + 1\<rparr>"]
    by (simp add: append_node_def lane_rel_def)
next
  case (snoc bs t)
  obtain c where c: "h t = Some c" using rel snoc lane_rel_alloc by fastforce
  let ?h = "h(t \<mapsto> c\<lparr>nxt := Some n\<rparr>)" and ?l = "l\<lparr>tail := Some n, size_of := size_of l + 1\<rparr>"
  have "chain ?h (head l) (bs @ [t, n])"
    using rel snoc n c cell by (intro chain_snoc [where v = v]) (auto simp: lane_rel_def)
  then have "lane_rel ?h ?l (as @ [n])" using rel snoc n by (auto simp: lane_rel_def)
  moreover have "append_node n h l = Some (?h, ?l)"
    using rel snoc c by (simp add: append_node_def lane_rel_def)
  moreover have "items ?h (as @ [n]) = items h as @ [v]"
    using snoc n c cell rel by (auto simp: items_def lane_rel_def)
  ultimately show ?thesis using that [of ?h ?l] snoc c by auto
qed

lemma unlink_head_rel:
  assumes rel: "lane_rel h l (a # as)"
  obtains l' where "unlink_head h l = Some (a, l')" and "lane_rel h l' as"
proof -
  obtain c where c: "h a = Some c" "chain h (nxt c) as" using rel by (auto simp: lane_rel_def)
  have "nxt c = None \<longleftrightarrow> as = []" using c by (cases as) auto
  then show ?thesis
    using that [of "l\<lparr>head := nxt c, tail := (if nxt c = None then None else tail l), size_of := size_of l - 1\<rparr>"]
      c rel by (auto simp: unlink_head_def lane_rel_def)
qed

lemma lane_empty_head: "lane_rel h l as \<Longrightarrow> head l = None \<longleftrightarrow> as = []"
  by (cases as) (auto simp: lane_rel_def)

lemma free_chain_rel:
  "chain h p as \<Longrightarrow> distinct as \<Longrightarrow> length as \<le> fuel \<Longrightarrow>
   free_chain fuel p h = Some (\<lambda>a. if a \<in> set as then None else h a)"
proof (induction as arbitrary: fuel p h)
  case (Cons a as)
  then obtain c k where c: "p = Some a" "h a = Some c" "chain h (nxt c) as" and k: "fuel = Suc k"
    by (cases fuel) auto
  have "chain (h(a := None)) (nxt c) as"
    by (subst chain_cong [of _ _ h]) (use Cons.prems c(3) in auto)
  then have "free_chain k (nxt c) (h(a := None)) =
      Some (\<lambda>x. if x \<in> set as then None else (h(a := None)) x)"
    by (rule Cons.IH) (use Cons.prems k in simp_all)
  moreover have "(\<lambda>x. if x \<in> set as then None else (h(a := None)) x) =
      (\<lambda>x. if x \<in> set (a # as) then None else h x)" by auto
  ultimately show ?case using c(1,2) k by simp
qed simp

section \<open>Simulation\<close>

text \<open>
  Runs of a partial concrete machine, of its specification, and the condition that every
  operation of a run is legal in the state it meets.
\<close>

fun run_ops :: "('op \<Rightarrow> 'c \<Rightarrow> ('r \<times> 'c) option) \<Rightarrow> 'op list \<Rightarrow> 'c \<Rightarrow> ('r list \<times> 'c) option" where
  "run_ops step [] c = Some ([], c)"
| "run_ops step (op # ops) c =
     (case step op c of
        None \<Rightarrow> None
      | Some (r, c1) \<Rightarrow>
          (case run_ops step ops c1 of None \<Rightarrow> None | Some (rs, c2) \<Rightarrow> Some (r # rs, c2)))"

fun run_legal ::
  "('op \<Rightarrow> 'c \<Rightarrow> bool) \<Rightarrow> ('op \<Rightarrow> 'c \<Rightarrow> ('r \<times> 'c) option) \<Rightarrow> 'op list \<Rightarrow> 'c \<Rightarrow> bool" where
  "run_legal legal step [] c \<longleftrightarrow> True"
| "run_legal legal step (op # ops) c \<longleftrightarrow>
     legal op c \<and> (case step op c of None \<Rightarrow> True | Some (r, c1) \<Rightarrow> run_legal legal step ops c1)"

fun run_spec :: "('op \<Rightarrow> 'a \<Rightarrow> 'r \<times> 'a) \<Rightarrow> 'op list \<Rightarrow> 'a \<Rightarrow> 'r list \<times> 'a" where
  "run_spec step [] a = ([], a)"
| "run_spec step (op # ops) a =
     (let (r, a1) = step op a; (rs, a2) = run_spec step ops a1 in (r # rs, a2))"

text \<open>
  The contract of a queue implementation: every legal operation on a concrete state that
  represents an abstract one is defined, answers what the abstract operation answers and
  leads to a state that represents the abstract result.
\<close>

locale simulation =
  fixes rel :: "'c \<Rightarrow> 'a \<Rightarrow> bool"
    and legal :: "'op \<Rightarrow> 'c \<Rightarrow> bool"
    and cstep :: "'op \<Rightarrow> 'c \<Rightarrow> ('r \<times> 'c) option"
    and astep :: "'op \<Rightarrow> 'a \<Rightarrow> 'r \<times> 'a"
  assumes step: "rel c a \<Longrightarrow> legal op c \<Longrightarrow> astep op a = (r, a') \<Longrightarrow>
    \<exists>c'. cstep op c = Some (r, c') \<and> rel c' a'"
begin

lemma run_sim:
  "rel c a \<Longrightarrow> run_legal legal cstep ops c \<Longrightarrow>
   \<exists>c'. run_ops cstep ops c = Some (fst (run_spec astep ops a), c') \<and> rel c' (snd (run_spec astep ops a))"
proof (induction ops arbitrary: c a)
  case (Cons op ops)
  obtain r a1 where a: "astep op a = (r, a1)" by fastforce
  obtain c1 where c: "cstep op c = Some (r, c1)" "rel c1 a1"
    using step [OF Cons.prems(1) _ a] Cons.prems(2) by auto
  from Cons.IH [OF c(2)] Cons.prems(2) c(1) a show ?case by (auto split: prod.splits)
qed simp

end

end
