(* ===== verification/Out_Queue.thy ===== *)
theory Out_Queue
  imports Linked_Queue "HOL-Library.Monad_Syntax"
begin

text \<open>
  The packet classifier and the two-lane outgoing packet queue of
  \<open>chamlon_server/src/scheduler.c\<close>; the client's copy is in \<open>Client_Queue\<close>. The
  queue operations run under the queue's mutex, so each is one atomic step. A packet buffer is always allocated with exactly \<open>pktlen\<close> bytes, so a
  node holds the byte list and no separate length. Memory that C reads outside of a buffer
  is \<open>None\<close>.
\<close>

section \<open>Classifier\<close>

datatype pkt_priority = PKT_PRIO_HIGH | PKT_PRIO_NORMAL

definition QUEUE_CAP_HIGH :: nat where [config_defs]: "QUEUE_CAP_HIGH = 64"
definition QUEUE_CAP_NORMAL :: nat where [config_defs]: "QUEUE_CAP_NORMAL = 256"

definition rd :: "bytes \<Rightarrow> nat \<Rightarrow> byte option" where
  "rd ip i = (if i < length ip then Some (ip ! i) else None)"

definition rd16 :: "bytes \<Rightarrow> nat \<Rightarrow> u16 option" where
  "rd16 ip i = do { a \<leftarrow> rd ip i; b \<leftarrow> rd ip (i + 1); Some (push_bit 8 (ucast a) OR ucast b) }"

definition classify_packet :: "bytes option \<Rightarrow> pkt_priority option" where
  "classify_packet ipo =
     (case ipo of
        None \<Rightarrow> Some PKT_PRIO_NORMAL
      | Some ip \<Rightarrow>
          if length ip < 20 then Some PKT_PRIO_NORMAL
          else do {
            b0 \<leftarrow> rd ip 0;
            let version = drop_bit 4 b0;
            if version = 4 then do {
              total_len \<leftarrow> rd16 ip 2;
              protocol \<leftarrow> rd ip 9;
              let ihl = (b0 AND 0x0F) * 4;
              if total_len \<le> 128 then Some PKT_PRIO_HIGH
              else if protocol = 1 then Some PKT_PRIO_HIGH
              else do {
                dns \<leftarrow> (if protocol = 17 \<and> length ip \<ge> unat ihl + 4 then do {
                          sport \<leftarrow> rd16 ip (unat ihl);
                          dport \<leftarrow> rd16 ip (unat ihl + 2);
                          Some (sport = 53 \<or> dport = 53) }
                        else Some False);
                if dns then Some PKT_PRIO_HIGH
                else do {
                  pure_ack \<leftarrow> (if protocol = 6 \<and> length ip \<ge> unat ihl + 20 then do {
                          off \<leftarrow> rd ip (unat ihl + 12);
                          let tcp_off = drop_bit 4 off * 4;
                          tcp_flags \<leftarrow> rd ip (unat ihl + 13);
                          let tcp_payload = total_len - ucast ihl - ucast tcp_off;
                          Some (tcp_flags AND 0x10 \<noteq> 0 \<and> tcp_payload = (0 :: u16)) }
                        else Some False);
                  Some (if pure_ack then PKT_PRIO_HIGH else PKT_PRIO_NORMAL) } } }
            else if version = 6 then do {
              icmp6 \<leftarrow> (if length ip \<ge> 40 then do { nh \<leftarrow> rd ip 6; Some (nh = 58) } else Some False);
              Some (if icmp6 \<or> length ip \<le> 128 then PKT_PRIO_HIGH else PKT_PRIO_NORMAL) }
            else Some PKT_PRIO_NORMAL })"

text \<open>What the comment of the client's copy lists as high priority.\<close>

definition interactive :: "bytes \<Rightarrow> bool" where
  "interactive ip =
     (let ihl = unat ((ip ! 0 AND 0x0F) * 4);
          w = (\<lambda>i. push_bit 8 (ucast (ip ! i)) OR ucast (ip ! (i + 1)) :: u16) in
      20 \<le> length ip \<and>
      (drop_bit 4 (ip ! 0) = 4 \<and>
         (w 2 \<le> 128 \<or> ip ! 9 = 1
          \<or> ip ! 9 = 17 \<and> ihl + 4 \<le> length ip \<and> (w ihl = 53 \<or> w (ihl + 2) = 53)
          \<or> ip ! 9 = 6 \<and> ihl + 20 \<le> length ip \<and> ip ! (ihl + 13) AND 0x10 \<noteq> 0 \<and>
            w 2 = of_nat ihl + of_nat (unat (drop_bit 4 (ip ! (ihl + 12)) * 4)))
       \<or> drop_bit 4 (ip ! 0) = 6 \<and> (40 \<le> length ip \<and> ip ! 6 = 58 \<or> length ip \<le> 128)))"

lemma rd_in [simp]: "i < length ip \<Longrightarrow> rd ip i = Some (ip ! i)"
  by (simp add: rd_def)

lemma rd16_in [simp]:
  "i + 1 < length ip \<Longrightarrow> rd16 ip i = Some (push_bit 8 (ucast (ip ! i)) OR ucast (ip ! (i + 1)))"
  by (simp add: rd16_def)

lemma of_nat_unat_ucast: "of_nat (unat (x :: byte)) = (ucast x :: u16)"
  by (rule of_nat_unat)

lemma classify_interactive:
  "classify_packet (Some ip) = Some (if interactive ip then PKT_PRIO_HIGH else PKT_PRIO_NORMAL)"
proof (cases "length ip < 20")
  case False
  have sub: "a - b = c \<longleftrightarrow> a = b + c" for a b c :: u16 by (auto simp: algebra_simps)
  define ihl where "ihl = (ip ! 0 AND 0x0F) * 4"
  have [simp]: "rd ip 0 = Some (ip ! 0)" "rd ip 9 = Some (ip ! 9)" "ip \<noteq> []"
    "rd16 ip 2 = Some (push_bit 8 (ucast (ip ! 2)) OR ucast (ip ! 3))"
    using False by (auto simp: rd_def rd16_def)
  note defs = classify_packet_def interactive_def Let_def of_nat_unat_ucast sub ihl_def [symmetric]
  consider (v4) "drop_bit 4 (ip ! 0) = 4" | (v6) "drop_bit 4 (ip ! 0) = 6"
    | (other) "drop_bit 4 (ip ! 0) \<noteq> 4" "drop_bit 4 (ip ! 0) \<noteq> 6" by blast
  then show ?thesis
  proof cases
    case v4
    then show ?thesis
      using False
      by (cases "ip ! 9 = 17 \<and> unat ihl + 4 \<le> length ip"; cases "ip ! 9 = 6 \<and> unat ihl + 20 \<le> length ip")
        (auto simp: defs)
  next
    case v6
    then show ?thesis using False by (cases "40 \<le> length ip") (simp_all add: defs)
  qed (use False in \<open>simp add: defs\<close>)
qed (simp add: classify_packet_def interactive_def)


section \<open>Queue\<close>

record out_node =
  pkt :: bytes
  seq :: u64
  priority :: pkt_priority

text \<open>The arrays \<open>head[2]\<close>, \<open>tail[2]\<close> and \<open>size[2]\<close>, grouped by their index.\<close>

record out_queue =
  lane_high :: lane
  lane_normal :: lane

primrec get_lane :: "pkt_priority \<Rightarrow> out_queue \<Rightarrow> lane" where
  "get_lane PKT_PRIO_HIGH q = lane_high q"
| "get_lane PKT_PRIO_NORMAL q = lane_normal q"

primrec set_lane :: "pkt_priority \<Rightarrow> lane \<Rightarrow> out_queue \<Rightarrow> out_queue" where
  "set_lane PKT_PRIO_HIGH l q = q\<lparr>lane_high := l\<rparr>"
| "set_lane PKT_PRIO_NORMAL l q = q\<lparr>lane_normal := l\<rparr>"

primrec queue_cap :: "pkt_priority \<Rightarrow> nat" where
  "queue_cap PKT_PRIO_HIGH = QUEUE_CAP_HIGH"
| "queue_cap PKT_PRIO_NORMAL = QUEUE_CAP_NORMAL"

definition out_queue_init :: out_queue where
  "out_queue_init = \<lparr>lane_high = empty_lane, lane_normal = empty_lane\<rparr>"

text \<open>
  \<open>mal\<close> is the address \<open>malloc\<close> returns for the node, \<open>None\<close> on failure. The boolean of the
  result tells whether the oldest packet of the lane was dropped, which the server records
  with \<open>metrics_record_queue_drop\<close>.
\<close>

definition packet_queue_push ::
  "addr option \<Rightarrow> bytes option \<Rightarrow> u64 \<Rightarrow> bytes option \<Rightarrow> out_node store \<Rightarrow> out_queue option \<Rightarrow>
   (bool \<times> out_node store \<times> out_queue option) option" where
  "packet_queue_push mal pk sq ip_buf h qo =
     (case (qo, pk) of
        (Some q, Some p) \<Rightarrow>
          (case classify_packet ip_buf of
             None \<Rightarrow> None
           | Some prio \<Rightarrow>
               (case mal of
                  None \<Rightarrow> Some (False, h, qo)
                | Some n \<Rightarrow>
                    let h1 = h(n \<mapsto> \<lparr>nxt = None, item = \<lparr>pkt = p, seq = sq, priority = prio\<rparr>\<rparr>);
                        l = get_lane prio q
                    in (if size_of l \<ge> queue_cap prio
                        then (case unlink_head h1 l of
                                None \<Rightarrow> None
                              | Some (old, l1) \<Rightarrow> Some (True, h1(old := None), l1))
                        else Some (False, h1, l))
                       \<bind> (\<lambda>(dropped, h2, l2).
                             case append_node n h2 l2 of
                               None \<Rightarrow> None
                             | Some (h3, l3) \<Rightarrow> Some (dropped, h3, Some (set_lane prio l3 q)))))
      | _ \<Rightarrow> Some (False, h, qo))"

definition out_queue_pop :: "out_node store \<Rightarrow> out_queue \<Rightarrow> (addr option \<times> out_queue) option" where
  "out_queue_pop h q =
     (if head (lane_high q) \<noteq> None
      then (case unlink_head h (lane_high q) of
              None \<Rightarrow> None | Some (n, l) \<Rightarrow> Some (Some n, set_lane PKT_PRIO_HIGH l q))
      else if head (lane_normal q) \<noteq> None
      then (case unlink_head h (lane_normal q) of
              None \<Rightarrow> None | Some (n, l) \<Rightarrow> Some (Some n, set_lane PKT_PRIO_NORMAL l q))
      else Some (None, q))"

definition out_queue_size :: "out_queue \<Rightarrow> nat" where
  "out_queue_size q = size_of (lane_high q) + size_of (lane_normal q)"

text \<open>The lane sizes bound the two freeing loops.\<close>

definition out_queue_destroy :: "out_node store \<Rightarrow> out_queue \<Rightarrow> (out_node store \<times> out_queue) option" where
  "out_queue_destroy h q =
     free_chain (size_of (lane_high q)) (head (lane_high q)) h \<bind> (\<lambda>h1.
     free_chain (size_of (lane_normal q)) (head (lane_normal q)) h1 \<bind> (\<lambda>h2.
     Some (h2, \<lparr>lane_high = empty_lane, lane_normal = empty_lane\<rparr>)))"

section \<open>Abstract queue\<close>

text \<open>Two bounded lists; a full lane loses its oldest packet, the high lane is served first.\<close>

record packet_lanes =
  high :: "out_node list"
  normal :: "out_node list"

definition lanes_empty :: packet_lanes where
  "lanes_empty = \<lparr>high = [], normal = []\<rparr>"

definition bounded_snoc :: "nat \<Rightarrow> 'a \<Rightarrow> 'a list \<Rightarrow> 'a list" where
  "bounded_snoc cap x xs = (if length xs \<ge> cap then tl xs else xs) @ [x]"

definition lanes_push :: "out_node \<Rightarrow> packet_lanes \<Rightarrow> bool \<times> packet_lanes" where
  "lanes_push x q =
     (case priority x of
        PKT_PRIO_HIGH \<Rightarrow> (length (high q) \<ge> QUEUE_CAP_HIGH, q\<lparr>high := bounded_snoc QUEUE_CAP_HIGH x (high q)\<rparr>)
      | PKT_PRIO_NORMAL \<Rightarrow>
          (length (normal q) \<ge> QUEUE_CAP_NORMAL, q\<lparr>normal := bounded_snoc QUEUE_CAP_NORMAL x (normal q)\<rparr>))"

definition lanes_pop :: "packet_lanes \<Rightarrow> out_node option \<times> packet_lanes" where
  "lanes_pop q =
     (case high q of
        x # xs \<Rightarrow> (Some x, q\<lparr>high := xs\<rparr>)
      | [] \<Rightarrow> (case normal q of x # xs \<Rightarrow> (Some x, q\<lparr>normal := xs\<rparr>) | [] \<Rightarrow> (None, q)))"

definition lanes_size :: "packet_lanes \<Rightarrow> nat" where
  "lanes_size q = length (high q) + length (normal q)"

section \<open>Refinement\<close>

text \<open>
  The store holds exactly the nodes of the two lanes, so nothing leaks, and no lane is
  above its capacity.
\<close>

definition lanes_rel ::
  "out_node store \<Rightarrow> out_queue \<Rightarrow> addr list \<Rightarrow> addr list \<Rightarrow> packet_lanes \<Rightarrow> bool" where
  "lanes_rel h q as bs fq \<longleftrightarrow>
     lane_rel h (lane_high q) as \<and> lane_rel h (lane_normal q) bs \<and> set as \<inter> set bs = {} \<and>
     items h as = high fq \<and> items h bs = normal fq \<and> dom h = set as \<union> set bs \<and>
     length as \<le> QUEUE_CAP_HIGH \<and> length bs \<le> QUEUE_CAP_NORMAL"

definition queue_rel :: "out_node store \<times> out_queue \<Rightarrow> packet_lanes \<Rightarrow> bool" where
  "queue_rel c fq \<longleftrightarrow> (\<exists>as bs. lanes_rel (fst c) (snd c) as bs fq)"

text \<open>One lane after a bounded push: the generic step both lanes use.\<close>

definition push_lane :: "nat \<Rightarrow> addr \<Rightarrow> 'a store \<Rightarrow> lane \<Rightarrow> (bool \<times> 'a store \<times> lane) option" where
  "push_lane cap n h1 l =
     (if size_of l \<ge> cap
      then (case unlink_head h1 l of
              None \<Rightarrow> None
            | Some (old, l1) \<Rightarrow> Some (True, h1(old := None), l1))
      else Some (False, h1, l))
     \<bind> (\<lambda>(dropped, h2, l2).
           case append_node n h2 l2 of None \<Rightarrow> None | Some (h3, l3) \<Rightarrow> Some (dropped, h3, l3))"

lemma push_lane_rel:
  fixes h :: "'a store" and x :: 'a
  assumes rel: "lane_rel h l as" and fresh: "h n = None" and len: "length as \<le> cap" and cap: "0 < cap"
  defines "h1 \<equiv> h(n \<mapsto> \<lparr>nxt = None, item = x\<rparr>)"
    and "as' \<equiv> (if length as \<ge> cap then tl as else as) @ [n]"
  obtains h' l' where "push_lane cap n h1 l = Some (length as \<ge> cap, h', l')"
    and "lane_rel h' l' as'" and "items h' as' = bounded_snoc cap x (items h as)"
    and "\<And>a. a \<notin> set as \<Longrightarrow> a \<noteq> n \<Longrightarrow> h' a = h a"
    and "dom h' = dom h - (set as - set as') \<union> {n}"
proof -
  have n: "n \<notin> set as" using rel fresh lane_rel_alloc by fastforce
  have "lane_rel h1 l as \<and> items h1 as = items h as"
    by (rule lane_rel_frame [OF _ rel]) (use n in \<open>auto simp: h1_def\<close>)
  then have rel1: "lane_rel h1 l as" "items h1 as = items h as" by auto
  have size: "size_of l = length as" using rel by (simp add: lane_rel_def)
  define bs where "bs = (if length as \<ge> cap then tl as else as)"
  obtain h2 l2 where first: "(if size_of l \<ge> cap
      then (case unlink_head h1 l of None \<Rightarrow> None | Some (old, l1) \<Rightarrow> Some (True, h1(old := None), l1))
      else Some (False, h1, l)) = Some (length as \<ge> cap, h2, l2)"
    and rel2: "lane_rel h2 l2 bs" "items h2 bs = (if length as \<ge> cap then tl (items h as) else items h as)"
    and h2: "\<And>a. a \<notin> set as \<Longrightarrow> h2 a = h1 a" "dom h2 = dom h1 - (set as - set bs)"
  proof (cases "length as \<ge> cap")
    case True
    with cap obtain a as1 where as: "as = a # as1" by (cases as) auto
    from rel1(1) obtain l1 where u: "unlink_head h1 l = Some (a, l1)" "lane_rel h1 l1 as1"
      unfolding as by (rule unlink_head_rel)
    have "a \<notin> set as1" using rel as by (simp add: lane_rel_def)
    then have "lane_rel (h1(a := None)) l1 as1 \<and> items (h1(a := None)) as1 = items h1 as1"
      by (intro lane_rel_frame [OF _ u(2)]) auto
    with True u size as rel1(2) \<open>a \<notin> set as1\<close> show ?thesis
      by (intro that [of "h1(a := None)" l1]) (auto simp: bs_def)
  next
    case False
    with rel1 size show ?thesis by (intro that [of h1 l]) (auto simp: bs_def)
  qed
  have nb: "n \<notin> set bs" using n by (cases as) (auto simp: bs_def)
  have cell: "h2 n = Some \<lparr>nxt = None, item = x\<rparr>" using h2(1) [OF n] by (simp add: h1_def)
  obtain h' l' where app: "append_node n h2 l2 = Some (h', l')" "lane_rel h' l' (bs @ [n])"
    "items h' (bs @ [n]) = items h2 bs @ [x]" "\<And>a. a \<notin> set bs \<Longrightarrow> h' a = h2 a"
    "\<And>a. h' a = None \<longleftrightarrow> h2 a = None"
    using append_node_rel [OF rel2(1) nb cell] by metis
  have as': "as' = bs @ [n]" by (simp add: as'_def bs_def)
  have bsub: "set bs \<subseteq> set as" by (cases as) (auto simp: bs_def)
  have "dom h' = dom h2" using app(5) by (simp add: dom_def)
  also have "\<dots> = dom h - (set as - set as') \<union> {n}"
    unfolding h2(2) using n by (auto simp: h1_def as')
  finally have dom: "dom h' = dom h - (set as - set as') \<union> {n}" .
  show ?thesis
  proof (rule that [of h' l'])
    show "push_lane cap n h1 l = Some (length as \<ge> cap, h', l')"
      by (simp add: push_lane_def first app(1) del: split_paired_All)
    show "lane_rel h' l' as'" by (simp add: as' app(2))
    show "items h' as' = bounded_snoc cap x (items h as)"
      using app(3) rel2(2) by (simp add: as' bounded_snoc_def)
    show "h' a = h a" if "a \<notin> set as" "a \<noteq> n" for a
      using app(4) [of a] h2(1) [of a] bsub that by (auto simp: h1_def)
  qed (rule dom)
qed

lemma packet_queue_push_lane:
  "classify_packet ip_buf = Some prio \<Longrightarrow>
   packet_queue_push (Some n) (Some p) sq ip_buf h (Some q) =
     push_lane (queue_cap prio) n
       (h(n \<mapsto> \<lparr>nxt = None, item = \<lparr>pkt = p, seq = sq, priority = prio\<rparr>\<rparr>)) (get_lane prio q)
     \<bind> (\<lambda>(dropped, h3, l3). Some (dropped, h3, Some (set_lane prio l3 q)))"
  by (auto simp: packet_queue_push_def push_lane_def Let_def
      split: option.split prod.split bind_splits)

lemma bounded_snoc_length: "0 < cap \<Longrightarrow> length xs \<le> cap \<Longrightarrow> length (bounded_snoc cap x xs) \<le> cap"
  by (auto simp: bounded_snoc_def)

text \<open>A lane push next to a lane it does not touch.\<close>

lemma push_lane_two:
  fixes h :: "out_node store"
  assumes rel: "lane_rel h l as" "lane_rel h m bs" "set as \<inter> set bs = {}" "dom h = set as \<union> set bs"
    and fresh: "h n = None" and len: "length as \<le> cap" and cap: "0 < cap"
  obtains h' l' as' where
    "push_lane cap n (h(n \<mapsto> \<lparr>nxt = None, item = x\<rparr>)) l = Some (length as \<ge> cap, h', l')"
    and "lane_rel h' l' as'" "items h' as' = bounded_snoc cap x (items h as)"
    and "lane_rel h' m bs" "items h' bs = items h bs"
    and "set as' \<inter> set bs = {}" "dom h' = set as' \<union> set bs" "length as' \<le> cap"
proof -
  define as' where "as' = (if length as \<ge> cap then tl as else as) @ [n]"
  obtain h' l' where p: "push_lane cap n (h(n \<mapsto> \<lparr>nxt = None, item = x\<rparr>)) l = Some (length as \<ge> cap, h', l')"
    "lane_rel h' l' as'" "items h' as' = bounded_snoc cap x (items h as)"
    and fr: "\<And>a. a \<notin> set as \<Longrightarrow> a \<noteq> n \<Longrightarrow> h' a = h a"
    and dom: "dom h' = dom h - (set as - set as') \<union> {n}"
    using push_lane_rel [OF rel(1) fresh len cap, of x] unfolding as'_def by metis
  have n: "n \<notin> set as" "n \<notin> set bs" using rel(4) fresh by auto
  have sub: "set as' \<subseteq> set as \<union> {n}" by (cases as) (auto simp: as'_def)
  have m: "lane_rel h' m bs \<and> items h' bs = items h bs"
    by (rule lane_rel_frame [OF _ rel(2)]) (use fr rel(3) n in blast)
  have "length as' \<le> cap" using len cap by (auto simp: as'_def)
  moreover have "set as' \<inter> set bs = {}" using sub rel(3) n by blast
  moreover have "dom h' = set as' \<union> set bs"
    unfolding dom rel(4) using sub rel(3) by (auto simp: as'_def)
  ultimately show ?thesis using that [OF p] m by blast
qed

lemma caps_pos [simp]: "0 < QUEUE_CAP_HIGH" "0 < QUEUE_CAP_NORMAL"
  by (simp_all add: config_defs)

lemma packet_queue_push_rel:
  assumes rel: "queue_rel (h, q) fq" and fresh: "h n = None" and cl: "classify_packet ip = Some prio"
    and push: "lanes_push \<lparr>pkt = p, seq = sq, priority = prio\<rparr> fq = (dropped, fq')"
  shows "\<exists>h' q'. packet_queue_push (Some n) (Some p) sq ip h (Some q) = Some (dropped, h', Some q') \<and>
    queue_rel (h', q') fq'"
proof -
  let ?x = "\<lparr>pkt = p, seq = sq, priority = prio\<rparr>"
  obtain as bs where r: "lane_rel h (lane_high q) as" "lane_rel h (lane_normal q) bs"
    "set as \<inter> set bs = {}" "items h as = high fq" "items h bs = normal fq" "dom h = set as \<union> set bs"
    "length as \<le> QUEUE_CAP_HIGH" "length bs \<le> QUEUE_CAP_NORMAL"
    using rel by (auto simp: queue_rel_def lanes_rel_def)
  have len: "length (high fq) = length as" "length (normal fq) = length bs"
    using arg_cong [OF r(4), of length] arg_cong [OF r(5), of length] by auto
  show ?thesis
  proof (cases prio)
    case PKT_PRIO_HIGH
    obtain h' l' as' where pl:
      "push_lane QUEUE_CAP_HIGH n (h(n \<mapsto> \<lparr>nxt = None, item = ?x\<rparr>)) (lane_high q) =
        Some (length as \<ge> QUEUE_CAP_HIGH, h', l')"
      and new: "lane_rel h' l' as'" "items h' as' = bounded_snoc QUEUE_CAP_HIGH ?x (items h as)"
        "lane_rel h' (lane_normal q) bs" "items h' bs = items h bs"
        "set as' \<inter> set bs = {}" "dom h' = set as' \<union> set bs" "length as' \<le> QUEUE_CAP_HIGH"
      by (rule push_lane_two [OF r(1,2,3,6) fresh r(7) caps_pos(1)])
    have "lanes_rel h' (set_lane prio l' q) as' bs fq'"
      using new r push by (auto simp: PKT_PRIO_HIGH lanes_rel_def lanes_push_def)
    with pl show ?thesis
      using push len
      by (auto simp: packet_queue_push_lane [OF cl] PKT_PRIO_HIGH lanes_push_def queue_rel_def)
  next
    case PKT_PRIO_NORMAL
    have comm: "set bs \<inter> set as = {}" "dom h = set bs \<union> set as" using r(3,6) by auto
    obtain h' l' bs' where pl:
      "push_lane QUEUE_CAP_NORMAL n (h(n \<mapsto> \<lparr>nxt = None, item = ?x\<rparr>)) (lane_normal q) =
        Some (length bs \<ge> QUEUE_CAP_NORMAL, h', l')"
      and new: "lane_rel h' l' bs'" "items h' bs' = bounded_snoc QUEUE_CAP_NORMAL ?x (items h bs)"
        "lane_rel h' (lane_high q) as" "items h' as = items h as"
        "set bs' \<inter> set as = {}" "dom h' = set bs' \<union> set as" "length bs' \<le> QUEUE_CAP_NORMAL"
      by (rule push_lane_two [OF r(2,1) comm fresh r(8) caps_pos(2)])
    have "lanes_rel h' (set_lane prio l' q) as bs' fq'"
      using new r push by (auto simp: PKT_PRIO_NORMAL lanes_rel_def lanes_push_def)
    with pl show ?thesis
      using push len
      by (auto simp: packet_queue_push_lane [OF cl] PKT_PRIO_NORMAL lanes_push_def queue_rel_def)
  qed
qed

section \<open>Runs of the queue\<close>

text \<open>
  The producer pushes; the sender pops a node, sends it and frees it; anybody may ask for
  the size.
\<close>

datatype queue_op = Enqueue "addr option" bytes u64 bytes | Dequeue | Size

datatype queue_result = Enqueued bool | Dequeued "out_node option" | Sized nat

fun queue_step ::
  "queue_op \<Rightarrow> out_node store \<times> out_queue \<Rightarrow> (queue_result \<times> out_node store \<times> out_queue) option" where
  "queue_step (Enqueue mal p sq ip) (h, q) =
     (case packet_queue_push mal (Some p) sq (Some ip) h (Some q) of
        Some (dropped, h', Some q') \<Rightarrow> Some (Enqueued dropped, h', q') | _ \<Rightarrow> None)"
| "queue_step Dequeue (h, q) =
     (case out_queue_pop h q of
        None \<Rightarrow> None
      | Some (None, q') \<Rightarrow> Some (Dequeued None, h, q')
      | Some (Some n, q') \<Rightarrow>
          (case h n of None \<Rightarrow> None | Some c \<Rightarrow> Some (Dequeued (Some (item c)), h(n := None), q')))"
| "queue_step Size (h, q) = Some (Sized (out_queue_size q), h, q)"

text \<open>\<open>malloc\<close> returns an address that is not allocated.\<close>

fun malloc_fresh :: "queue_op \<Rightarrow> out_node store \<times> out_queue \<Rightarrow> bool" where
  "malloc_fresh (Enqueue (Some n) p sq ip) (h, q) \<longleftrightarrow> h n = None"
| "malloc_fresh op c \<longleftrightarrow> True"

fun lanes_step :: "queue_op \<Rightarrow> packet_lanes \<Rightarrow> queue_result \<times> packet_lanes" where
  "lanes_step (Enqueue None p sq ip) fq = (Enqueued False, fq)"
| "lanes_step (Enqueue (Some n) p sq ip) fq =
     (let prio = (if interactive ip then PKT_PRIO_HIGH else PKT_PRIO_NORMAL);
          (dropped, fq') = lanes_push \<lparr>pkt = p, seq = sq, priority = prio\<rparr> fq
      in (Enqueued dropped, fq'))"
| "lanes_step Dequeue fq = (let (x, fq') = lanes_pop fq in (Dequeued x, fq'))"
| "lanes_step Size fq = (Sized (lanes_size fq), fq)"

lemma unlink_freed:
  assumes rel: "lane_rel h l (a # as)" "lane_rel h m bs" "set (a # as) \<inter> set bs = {}"
    "dom h = set (a # as) \<union> set bs"
  obtains l' c where "unlink_head h l = Some (a, l')" and "h a = Some c" and "item c = hd (items h (a # as))"
    and "lane_rel (h(a := None)) l' as" and "items (h(a := None)) as = items h as"
    and "lane_rel (h(a := None)) m bs" and "items (h(a := None)) bs = items h bs"
    and "dom (h(a := None)) = set as \<union> set bs"
proof -
  obtain l' where u: "unlink_head h l = Some (a, l')" "lane_rel h l' as"
    using unlink_head_rel [OF rel(1)] by blast
  obtain c where c: "h a = Some c" using lane_rel_alloc [OF rel(1), of a] by auto
  have a: "a \<notin> set as" "a \<notin> set bs" using rel by (auto simp: lane_rel_def)
  have 1: "lane_rel (h(a := None)) l' as \<and> items (h(a := None)) as = items h as"
    by (rule lane_rel_frame [OF _ u(2)]) (use a in auto)
  have 2: "lane_rel (h(a := None)) m bs \<and> items (h(a := None)) bs = items h bs"
    by (rule lane_rel_frame [OF _ rel(2)]) (use a in auto)
  have "dom (h(a := None)) = set as \<union> set bs" using rel(4) a by auto
  then show ?thesis using that [OF u(1) c] 1 2 c by simp
qed

lemma queue_pop_rel:
  assumes rel: "queue_rel (h, q) fq" and pop: "lanes_pop fq = (x, fq')"
  shows "\<exists>c'. queue_step Dequeue (h, q) = Some (Dequeued x, c') \<and> queue_rel c' fq'"
proof -
  obtain as bs where r: "lane_rel h (lane_high q) as" "lane_rel h (lane_normal q) bs"
    "set as \<inter> set bs = {}" "dom h = set as \<union> set bs" "items h as = high fq" "items h bs = normal fq"
    "length as \<le> QUEUE_CAP_HIGH" "length bs \<le> QUEUE_CAP_NORMAL"
    using rel by (auto simp: queue_rel_def lanes_rel_def)
  note heads = lane_empty_head [OF r(1)] lane_empty_head [OF r(2)]
  show ?thesis
  proof (cases as)
    case (Cons a as1)
    obtain l' c where u: "unlink_head h (lane_high q) = Some (a, l')" "h a = Some c"
      "item c = hd (items h (a # as1))" "lane_rel (h(a := None)) l' as1" "items (h(a := None)) as1 = items h as1"
      "lane_rel (h(a := None)) (lane_normal q) bs" "items (h(a := None)) bs = items h bs"
      "dom (h(a := None)) = set as1 \<union> set bs"
      by (rule unlink_freed [OF r(1-4) [unfolded Cons]])
    have "lanes_rel (h(a := None)) (q\<lparr>lane_high := l'\<rparr>) as1 bs (fq\<lparr>high := tl (high fq)\<rparr>)"
      using u(4-8) r(3,5-8) unfolding lanes_rel_def Cons r(5) [symmetric] by auto
    then show ?thesis
      using pop u(1-3) r(5) heads Cons
      by (auto simp: lanes_pop_def out_queue_pop_def queue_rel_def split: list.splits)
  next
    case Nil
    show ?thesis
    proof (cases bs)
      case (Cons b bs1)
      have sw: "set bs \<inter> set as = {}" "dom h = set bs \<union> set as" using r(3,4) by auto
      obtain l' c where u: "unlink_head h (lane_normal q) = Some (b, l')" "h b = Some c"
        "item c = hd (items h (b # bs1))" "lane_rel (h(b := None)) l' bs1" "items (h(b := None)) bs1 = items h bs1"
        "lane_rel (h(b := None)) (lane_high q) as" "items (h(b := None)) as = items h as"
        "dom (h(b := None)) = set bs1 \<union> set as"
        by (rule unlink_freed [OF r(2,1)[unfolded Cons] sw [unfolded Cons]])
      have "lanes_rel (h(b := None)) (q\<lparr>lane_normal := l'\<rparr>) as bs1 (fq\<lparr>normal := tl (normal fq)\<rparr>)"
        using u(4-8) r(3,5-8) unfolding lanes_rel_def Cons r(6) [symmetric] by auto
      then show ?thesis
        using pop u(1-3) r(5,6) heads Cons Nil
        by (auto simp: lanes_pop_def out_queue_pop_def queue_rel_def split: list.splits)
    next
      case bNil: Nil
      then show ?thesis
        using pop r(5,6) heads Nil rel by (auto simp: lanes_pop_def out_queue_pop_def)
    qed
  qed
qed

lemma queue_size_rel: "queue_rel (h, q) fq \<Longrightarrow> out_queue_size q = lanes_size fq"
proof -
  assume "queue_rel (h, q) fq"
  then obtain as bs where "lane_rel h (lane_high q) as" "lane_rel h (lane_normal q) bs"
    "high fq = items h as" "normal fq = items h bs" by (auto simp: queue_rel_def lanes_rel_def)
  then show ?thesis by (simp add: lane_rel_def out_queue_size_def lanes_size_def)
qed

interpretation server_queue: simulation queue_rel malloc_fresh queue_step lanes_step
proof
  fix c fq op r fq'
  assume rel: "queue_rel c fq" and legal: "malloc_fresh op c" and step: "lanes_step op fq = (r, fq')"
  obtain h q where c: "c = (h, q)" by fastforce
  show "\<exists>c'. queue_step op c = Some (r, c') \<and> queue_rel c' fq'"
  proof (cases op)
    case (Enqueue mal p sq ip)
    let ?prio = "if interactive ip then PKT_PRIO_HIGH else PKT_PRIO_NORMAL"
    show ?thesis
    proof (cases mal)
      case None
      then show ?thesis
        using rel step Enqueue c by (simp add: packet_queue_push_def classify_interactive)
    next
      case (Some n)
      obtain dropped where push: "lanes_push \<lparr>pkt = p, seq = sq, priority = ?prio\<rparr> fq = (dropped, fq')"
        and r: "r = Enqueued dropped" using step Enqueue Some by (auto simp: Let_def split: prod.splits)
      have "h n = None" using legal Enqueue Some c by simp
      from packet_queue_push_rel [OF rel [unfolded c] this classify_interactive push]
      show ?thesis using Enqueue Some c r by auto
    qed
  next
    case Dequeue
    then show ?thesis
      using queue_pop_rel [OF rel [unfolded c]] step c by (auto simp: Let_def split: prod.splits)
  next
    case Size
    then show ?thesis using queue_size_rel [OF rel [unfolded c]] rel step c by auto
  qed
qed

lemma out_queue_destroy_rel:
  assumes "queue_rel (h, q) fq"
  shows "out_queue_destroy h q = Some (Map.empty, out_queue_init)"
proof -
  obtain as bs where r: "lane_rel h (lane_high q) as" "lane_rel h (lane_normal q) bs"
    "set as \<inter> set bs = {}" "dom h = set as \<union> set bs"
    using assms by (auto simp: queue_rel_def lanes_rel_def)
  let ?h = "\<lambda>a. if a \<in> set as then None else h a"
  have 1: "free_chain (size_of (lane_high q)) (head (lane_high q)) h = Some ?h"
    using r(1) by (intro free_chain_rel) (auto simp: lane_rel_def)
  have "lane_rel ?h (lane_normal q) bs \<and> items ?h bs = items h bs"
    by (rule lane_rel_frame [OF _ r(2)]) (use r(3) in auto)
  then have 2: "free_chain (size_of (lane_normal q)) (head (lane_normal q)) ?h =
      Some (\<lambda>a. if a \<in> set bs then None else ?h a)"
    by (intro free_chain_rel) (auto simp: lane_rel_def)
  have "(\<lambda>a. if a \<in> set bs then None else ?h a) = Map.empty"
    using r(4) by (auto simp: fun_eq_iff dom_def)
  with 1 2 show ?thesis by (simp add: out_queue_destroy_def out_queue_init_def)
qed

lemma queue_rel_init: "queue_rel (Map.empty, out_queue_init) lanes_empty"
  unfolding queue_rel_def lanes_rel_def
  by (intro exI [of _ "[]"]) (simp add: out_queue_init_def lanes_empty_def)

lemma queue_rel_bounds:
  assumes "queue_rel (h, q) fq"
  shows "finite (dom h) \<and> card (dom h) = lanes_size fq \<and>
    length (high fq) \<le> QUEUE_CAP_HIGH \<and> length (normal fq) \<le> QUEUE_CAP_NORMAL"
proof -
  obtain as bs where r: "lanes_rel h q as bs fq" using assms by (auto simp: queue_rel_def)
  then have "distinct as" "distinct bs" "high fq = items h as" "normal fq = items h bs"
    by (auto simp: lanes_rel_def lane_rel_def)
  then show ?thesis
    using r by (auto simp: lanes_rel_def lanes_size_def card_Un_disjoint distinct_card)
qed

text \<open>
  C19. The linked packet queue is a pair of bounded first-in first-out lists. Any sequence of
  \<open>packet_queue_push\<close>, \<open>out_queue_pop\<close> and \<open>out_queue_size\<close>, with \<open>malloc\<close> failing or not,
  never follows a null or freed pointer and answers what the two lists answer: the high lane
  is served before the normal one, each in order of arrival, and a full lane drops its
  oldest packet. At most 64 and 256 packets are held, the store holds exactly their nodes,
  and \<open>out_queue_destroy\<close> frees every one of them.
\<close>

theorem packet_queue_correct:
  assumes "run_legal malloc_fresh queue_step ops (Map.empty, out_queue_init)"
  shows "\<exists>h q. let (rs, fq) = run_spec lanes_step ops lanes_empty in
    run_ops queue_step ops (Map.empty, out_queue_init) = Some (rs, h, q) \<and>
    card (dom h) = lanes_size fq \<and>
    length (high fq) \<le> QUEUE_CAP_HIGH \<and> length (normal fq) \<le> QUEUE_CAP_NORMAL \<and>
    out_queue_destroy h q = Some (Map.empty, out_queue_init)"
proof -
  obtain rs fq where spec: "run_spec lanes_step ops lanes_empty = (rs, fq)" by fastforce
  obtain h q where "run_ops queue_step ops (Map.empty, out_queue_init) = Some (rs, h, q)"
    and "queue_rel (h, q) fq"
    using server_queue.run_sim [OF queue_rel_init assms] by (auto simp: spec)
  then show ?thesis using queue_rel_bounds out_queue_destroy_rel by (simp add: spec)
qed

theorem packet_queue_correct_witness:
  "\<exists>h q. let ops = [Enqueue (Some 5) [1] 0 (replicate 20 0x40), Enqueue None [2] 1 [],
                     Enqueue (Some 3) [3] 2 [], Dequeue, Size, Dequeue, Dequeue];
             (rs, fq) = run_spec lanes_step ops lanes_empty in
    run_ops queue_step ops (Map.empty, out_queue_init) = Some (rs, h, q) \<and>
    card (dom h) = lanes_size fq \<and>
    length (high fq) \<le> QUEUE_CAP_HIGH \<and> length (normal fq) \<le> QUEUE_CAP_NORMAL \<and>
    out_queue_destroy h q = Some (Map.empty, out_queue_init)"
proof -
  let ?ops = "[Enqueue (Some 5) [1] 0 (replicate 20 0x40), Enqueue None [2] 1 [],
    Enqueue (Some 3) [3] 2 [], Dequeue, Size, Dequeue, Dequeue]"
  have "run_legal malloc_fresh queue_step ?ops (Map.empty, out_queue_init)"
    by code_simp
  from packet_queue_correct [OF this] show ?thesis by (simp only: Let_def)
qed

end
