(* ===== verification/Metrics.thy ===== *)
theory Metrics
  imports Chamlon_Prelude
begin

text \<open>
  The counters of \<open>chamlon_server/src/metrics.c\<close>. Each function runs under the metrics mutex and
  is one atomic step. Counters are 64-bit words that wrap; \<open>active_connections\<close> is a C \<open>int\<close>
  that stays between 0 and the number of connections. The two printing functions only read.
\<close>

section \<open>State and operations\<close>

record metrics =
  packets_received :: u64
  packets_sent :: u64
  packets_dropped :: u64
  bytes_received :: u64
  bytes_sent :: u64
  handshakes_initiated :: u64
  handshakes_completed :: u64
  handshakes_failed :: u64
  active_connections :: int
  total_connections :: u64
  total_disconnections :: u64
  max_queue_depth :: u64
  queue_drops :: u64
  backpressure_events :: u64
  total_latency_ms :: u64
  latency_samples :: u64
  max_latency_ms :: u64
  min_latency_ms :: u64
  crypto_errors :: u64
  validation_errors :: u64
  rate_limit_drops :: u64
  black_listed_ips :: u64
  startup_time :: time_t
  last_reset :: time_t

definition metrics_init :: "time_t \<Rightarrow> metrics" where
  "metrics_init now =
     \<lparr>packets_received = 0, packets_sent = 0, packets_dropped = 0, bytes_received = 0, bytes_sent = 0,
      handshakes_initiated = 0, handshakes_completed = 0, handshakes_failed = 0,
      active_connections = 0, total_connections = 0, total_disconnections = 0,
      max_queue_depth = 0, queue_drops = 0, backpressure_events = 0,
      total_latency_ms = 0, latency_samples = 0, max_latency_ms = 0, min_latency_ms = - 1,
      crypto_errors = 0, validation_errors = 0, rate_limit_drops = 0, black_listed_ips = 0,
      startup_time = now, last_reset = now\<rparr>"

definition metrics_record_packet_received :: "nat \<Rightarrow> metrics \<Rightarrow> metrics" where
  "metrics_record_packet_received sz m =
     m\<lparr>packets_received := packets_received m + 1, bytes_received := bytes_received m + of_nat sz\<rparr>"

definition metrics_record_packet_sent :: "nat \<Rightarrow> metrics \<Rightarrow> metrics" where
  "metrics_record_packet_sent sz m =
     m\<lparr>packets_sent := packets_sent m + 1, bytes_sent := bytes_sent m + of_nat sz\<rparr>"

definition metrics_record_packet_dropped :: "metrics \<Rightarrow> metrics" where
  "metrics_record_packet_dropped m = m\<lparr>packets_dropped := packets_dropped m + 1\<rparr>"

definition metrics_record_handshake_initiated :: "metrics \<Rightarrow> metrics" where
  "metrics_record_handshake_initiated m = m\<lparr>handshakes_initiated := handshakes_initiated m + 1\<rparr>"

definition metrics_record_handshake_completed :: "metrics \<Rightarrow> metrics" where
  "metrics_record_handshake_completed m = m\<lparr>handshakes_completed := handshakes_completed m + 1\<rparr>"

definition metrics_record_handshake_failed :: "metrics \<Rightarrow> metrics" where
  "metrics_record_handshake_failed m = m\<lparr>handshakes_failed := handshakes_failed m + 1\<rparr>"

definition metrics_record_connection_established :: "metrics \<Rightarrow> metrics" where
  "metrics_record_connection_established m =
     m\<lparr>total_connections := total_connections m + 1, active_connections := active_connections m + 1\<rparr>"

definition metrics_record_connection_closed :: "metrics \<Rightarrow> metrics" where
  "metrics_record_connection_closed m =
     (let m1 = (if active_connections m > 0 then m\<lparr>active_connections := active_connections m - 1\<rparr> else m)
      in m1\<lparr>total_disconnections := total_disconnections m1 + 1\<rparr>)"

definition metrics_set_active_connections :: "int \<Rightarrow> metrics \<Rightarrow> metrics" where
  "metrics_set_active_connections cnt m = m\<lparr>active_connections := cnt\<rparr>"

definition metrics_record_queue_depth :: "u64 \<Rightarrow> metrics \<Rightarrow> metrics" where
  "metrics_record_queue_depth depth m =
     (if depth > max_queue_depth m then m\<lparr>max_queue_depth := depth\<rparr> else m)"

definition metrics_record_queue_drop :: "metrics \<Rightarrow> metrics" where
  "metrics_record_queue_drop m = m\<lparr>queue_drops := queue_drops m + 1\<rparr>"

definition metrics_record_backpressure :: "metrics \<Rightarrow> metrics" where
  "metrics_record_backpressure m = m\<lparr>backpressure_events := backpressure_events m + 1\<rparr>"

definition metrics_record_latency_ms :: "u64 \<Rightarrow> metrics \<Rightarrow> metrics" where
  "metrics_record_latency_ms lat m =
     (let m1 = m\<lparr>total_latency_ms := total_latency_ms m + lat, latency_samples := latency_samples m + 1\<rparr>;
          m2 = (if lat > max_latency_ms m1 then m1\<lparr>max_latency_ms := lat\<rparr> else m1)
      in if lat < min_latency_ms m2 then m2\<lparr>min_latency_ms := lat\<rparr> else m2)"

definition metrics_record_crypto_error :: "metrics \<Rightarrow> metrics" where
  "metrics_record_crypto_error m = m\<lparr>crypto_errors := crypto_errors m + 1\<rparr>"

definition metrics_record_validation_error :: "metrics \<Rightarrow> metrics" where
  "metrics_record_validation_error m = m\<lparr>validation_errors := validation_errors m + 1\<rparr>"

definition metrics_record_rate_limit_drop :: "metrics \<Rightarrow> metrics" where
  "metrics_record_rate_limit_drop m = m\<lparr>rate_limit_drops := rate_limit_drops m + 1\<rparr>"

definition metrics_record_blacklist_event :: "metrics \<Rightarrow> metrics" where
  "metrics_record_blacklist_event m = m\<lparr>black_listed_ips := black_listed_ips m + 1\<rparr>"

record health_status =
  hs_uptime_seconds :: int
  hs_active_clients :: int
  hs_packets_per_sec :: u64
  hs_bytes_per_sec :: u64
  hs_packet_drop_rate :: int
  hs_avg_latency_ms :: int
  hs_is_healthy :: bool

text \<open>The casts \<open>(int)\<close> keep the low 32 bits, read as a signed number.\<close>

definition to_int32 :: "u64 \<Rightarrow> int" where
  "to_int32 w = sint (ucast w :: 32 word)"

definition metrics_get_health_status :: "time_t \<Rightarrow> metrics \<Rightarrow> health_status" where
  "metrics_get_health_status now m =
     (let uptime = now - startup_time m;
          total_packets = packets_received m + packets_dropped m;
          drop_rate = (if total_packets > 0
                       then to_int32 ((packets_dropped m * 100) div total_packets) else 0)
      in \<lparr>hs_uptime_seconds = uptime, hs_active_clients = active_connections m,
          hs_packets_per_sec = (if uptime > 0 then packets_received m div word_of_int uptime else 0),
          hs_bytes_per_sec = (if uptime > 0 then bytes_received m div word_of_int uptime else 0),
          hs_packet_drop_rate = drop_rate,
          hs_avg_latency_ms = (if latency_samples m > 0
                               then to_int32 (total_latency_ms m div latency_samples m) else 0),
          hs_is_healthy = (\<not> drop_rate > 5 \<and> \<not> handshakes_failed m > handshakes_completed m div 2 \<and>
                           \<not> black_listed_ips m > 100)\<rparr>)"

text \<open>
  The C function clears the whole structure, its mutex included, while it holds that mutex;
  the counters are as below.
\<close>

definition metrics_reset :: "time_t \<Rightarrow> metrics \<Rightarrow> metrics" where
  "metrics_reset now m =
     (metrics_init now)\<lparr>total_connections := total_connections m,
        total_disconnections := total_disconnections m, active_connections := active_connections m\<rparr>"

section \<open>Health\<close>

lemma signed_take_bit_31: "0 \<le> k \<Longrightarrow> k < 2147483648 \<Longrightarrow> signed_take_bit 31 k = k" for k :: int
  by (simp add: signed_take_bit_int_eq_self_iff)

lemma to_int32_small:
  assumes "unat w < 2 ^ 31"
  shows "to_int32 w = int (unat w)"
proof -
  have u: "unat (ucast w :: 32 word) = unat w"
    using assms by (simp add: unsigned_ucast_eq take_bit_nat_eq_self)
  then have "uint (ucast w :: 32 word) = int (unat w)" by (metis of_nat_unat)
  moreover have lt: "int (unat w) < 2147483648" using assms [simplified] by linarith
  have "signed_take_bit 31 (int (unat w)) = int (unat w)"
    by (rule signed_take_bit_31 [OF _ lt]) simp
  ultimately show ?thesis by (simp add: to_int32_def sint_uint)
qed

text \<open>
  Health report. As long as the counters have not wrapped, the reported drop rate is the
  percentage of dropped packets rounded down, a number from 0 to 100, and the server is
  reported healthy exactly when that rate is at most 5, at most 100 addresses were blacklisted
  and the failed handshakes are at most half of the completed ones.
\<close>

lemma health_report:
  assumes recv: "unat (packets_received m) + unat (packets_dropped m) < 2 ^ 64"
    and drop: "unat (packets_dropped m) * 100 < 2 ^ 64"
  defines "rate \<equiv> unat (packets_dropped m) * 100 div (unat (packets_received m) + unat (packets_dropped m))"
  shows "hs_packet_drop_rate (metrics_get_health_status now m) = int rate \<and> rate \<le> 100 \<and>
    (hs_is_healthy (metrics_get_health_status now m) \<longleftrightarrow>
       rate \<le> 5 \<and> unat (black_listed_ips m) \<le> 100 \<and>
       unat (handshakes_failed m) \<le> unat (handshakes_completed m) div 2)"
proof -
  let ?t = "packets_received m + packets_dropped m"
  have t: "unat ?t = unat (packets_received m) + unat (packets_dropped m)"
    using recv by (simp add: unat_u64_add)
  have d: "unat (packets_dropped m * 100) = unat (packets_dropped m) * 100"
    using drop by (simp add: unat_word_ariths)
  have le: "rate \<le> 100"
  proof (cases "unat ?t = 0")
    case False
    have "rate \<le> (unat ?t * 100) div unat ?t"
      unfolding rate_def t [symmetric] by (rule div_le_mono) (simp add: t)
    then show ?thesis using False by simp
  qed (simp add: rate_def t)
  have "unat (packets_dropped m * 100 div ?t) = rate"
    by (simp add: unat_div t d rate_def)
  then have "to_int32 (packets_dropped m * 100 div ?t) = int rate"
    using le by (simp add: to_int32_small)
  moreover have "rate = 0" if "?t = 0"
    using that t by (simp add: rate_def)
  ultimately have dr: "(if ?t > 0 then to_int32 (packets_dropped m * 100 div ?t) else 0) = int rate"
    by (auto simp: word_gt_0)
  show ?thesis
    using le by (auto simp: metrics_get_health_status_def Let_def dr not_less word_le_nat_alt unat_div)
qed

section \<open>Latency statistics\<close>

definition latency_inv :: "nat list \<Rightarrow> metrics \<Rightarrow> bool" where
  "latency_inv xs m \<longleftrightarrow> unat (total_latency_ms m) = sum_list xs \<and> unat (latency_samples m) = length xs \<and>
     (xs \<noteq> [] \<longrightarrow> unat (max_latency_ms m) = Max (set xs) \<and> unat (min_latency_ms m) = Min (set xs)) \<and>
     (xs = [] \<longrightarrow> max_latency_ms m = 0 \<and> min_latency_ms m = - 1)"

lemma latency_step:
  assumes inv: "latency_inv xs m" and sum: "sum_list xs + unat l < 2 ^ 64" and len: "length xs + 1 < 2 ^ 64"
  shows "latency_inv (xs @ [unat l]) (metrics_record_latency_ms l m)"
proof (cases "xs = []")
  case True
  have "l \<le> - 1" by (rule word_order.extremum)
  then show ?thesis
    using inv sum True
    by (auto simp: latency_inv_def metrics_record_latency_ms_def Let_def word_gt_0 not_less
        unat_u64_add dest: order_antisym)
next
  case False
  define hi lo where "hi = Max (set xs)" and "lo = Min (set xs)"
  have new: "Max (set (xs @ [unat l])) = max (unat l) hi" "Min (set (xs @ [unat l])) = min (unat l) lo"
    using False by (simp_all add: hi_def lo_def)
  have old: "unat (max_latency_ms m) = hi" "unat (min_latency_ms m) = lo"
    "unat (total_latency_ms m) = sum_list xs" "unat (latency_samples m) = length xs"
    using inv False by (simp_all add: latency_inv_def hi_def lo_def)
  show ?thesis
    unfolding latency_inv_def new using old sum len
    by (simp add: metrics_record_latency_ms_def Let_def unat_u64_add word_less_nat_alt)
qed

lemma latency_fold:
  "latency_inv xs m \<Longrightarrow> sum_list xs + sum_list (map unat ls) < 2 ^ 64 \<Longrightarrow> length xs + length ls < 2 ^ 64 \<Longrightarrow>
   latency_inv (xs @ map unat ls) (fold metrics_record_latency_ms ls m)"
proof (induction ls arbitrary: xs m)
  case (Cons l ls)
  have "latency_inv (xs @ [unat l]) (metrics_record_latency_ms l m)"
    using latency_step [OF Cons.prems(1), of l] Cons.prems(2,3) by simp
  from Cons.IH [OF this] Cons.prems(2,3) show ?case by simp
qed simp

lemma sum_list_ge: "(\<And>x. x \<in> set xs \<Longrightarrow> b \<le> x) \<Longrightarrow> length xs * b \<le> sum_list xs" for b :: nat
  by (induction xs) (simp_all add: add_mono)

lemma sum_list_le: "(\<And>x. x \<in> set xs \<Longrightarrow> x \<le> b) \<Longrightarrow> sum_list xs \<le> length xs * b" for b :: nat
  by (induction xs) (simp_all add: add_mono)

text \<open>
  Latency statistics. After any non-empty sequence of \<open>metrics_record_latency_ms\<close> whose sum
  fits in 64 bits, the recorded maximum and minimum are those of the samples and the average
  that the health report computes before its cast to \<open>int\<close> lies between them.
\<close>

lemma latency_statistics:
  fixes now :: time_t
  assumes "ls \<noteq> []" and "sum_list (map unat ls) < 2 ^ 64" and "length ls < 2 ^ 64"
  defines "m \<equiv> fold metrics_record_latency_ms ls (metrics_init now)"
  shows "unat (max_latency_ms m) = Max (unat ` set ls) \<and> unat (min_latency_ms m) = Min (unat ` set ls) \<and>
    min_latency_ms m \<le> total_latency_ms m div latency_samples m \<and>
    total_latency_ms m div latency_samples m \<le> max_latency_ms m"
proof -
  let ?xs = "map unat ls"
  have "latency_inv [] (metrics_init now)" by (simp add: latency_inv_def metrics_init_def)
  from latency_fold [OF this, of ls] assms(2,3) have inv: "latency_inv ?xs m" by (simp add: m_def)
  have ne: "?xs \<noteq> []" using assms(1) by simp
  have sums: "length ?xs * Min (set ?xs) \<le> sum_list ?xs" "sum_list ?xs \<le> length ?xs * Max (set ?xs)"
    by (rule sum_list_ge; simp) (rule sum_list_le; simp)
  have "Min (set ?xs) \<le> sum_list ?xs div length ?xs"
    using sums(1) ne by (simp add: less_eq_div_iff_mult_less_eq mult.commute)
  moreover have "sum_list ?xs div length ?xs \<le> Max (set ?xs)"
    using div_le_mono [OF sums(2), of "length ?xs"] ne by simp
  ultimately show ?thesis
    using inv ne by (simp add: latency_inv_def word_le_nat_alt unat_div)
qed

end
