(* ===== verification/Session.thy ===== *)
theory Session
  imports Replay_Window Reassembly Out_Queue Metrics
begin

text \<open>
  The session table of the server: \<open>session_t\<close> of \<open>chamlon_server/include/session.h\<close>, the
  table operations of \<open>chamlon_server/src/session.c\<close>, and the two functions of
  \<open>chamlon_server/src/packet.c\<close> that work on a session, \<open>send_control_packet\<close> and
  \<open>prepare_dummy_static_parts\<close>. A pointer into \<open>sessions[]\<close> is its index. The output
  queue of a session is the abstract queue which \<open>Out_Queue\<close> proves the linked lists to
  implement; \<open>None\<close> is a null pointer. The lemmas give the invariant of the table, that every operation
  keeps it, and what lookup, release and expiry do.
\<close>

section \<open>State\<close>

definition MAX_CLIENTS :: nat where [config_defs]: "MAX_CLIENTS = 250"
definition SESSION_TIMEOUT_SEC :: int where [config_defs]: "SESSION_TIMEOUT_SEC = 60"
definition KEEPALIVE_INTERVAL_SEC :: int where [config_defs]: "KEEPALIVE_INTERVAL_SEC = 10"

record sockaddr_in =
  sin_family :: u16
  sin_port :: u16
  sin_addr :: u32

definition sizeof_sockaddr_in :: nat where [config_defs]: "sizeof_sockaddr_in = 16"

text \<open>\<open>argv_CBR\<close> and \<open>argv_PAD\<close> hold one of these characters.\<close>

definition char_Y :: byte where [config_defs]: "char_Y = 89"
definition char_N :: byte where [config_defs]: "char_N = 78"

record session =
  active :: bool
  s_udp_sock :: int
  session_id :: bytes
  k_recv :: bytes
  k_send :: bytes
  send_seq :: u64
  last_recv_seq :: u64
  client_addr :: sockaddr_in
  client_addrlen :: nat
  vpn_ip :: bytes
  g_reassembly_table :: "reassembly_entry list"
  outq :: "packet_lanes option"
  last_activity :: time_t
  last_activity_keepalive :: time_t
  argv_MBPS :: int
  argv_FRAG :: int
  argv_CBR :: byte
  argv_PAD :: byte
  rw :: replay_window
  dummy_payload :: bytes
  final_pkt_dummy :: bytes
  static_hdr_len :: nat

text \<open>\<open>memset(sessions, 0, sizeof(sessions))\<close>\<close>

definition zero_session :: session where
  "zero_session =
     \<lparr>active = False, s_udp_sock = 0, session_id = replicate SESSION_ID_LEN 0,
      k_recv = replicate AEAD_KEY_LEN 0, k_send = replicate AEAD_KEY_LEN 0, send_seq = 0,
      last_recv_seq = 0, client_addr = \<lparr>sin_family = 0, sin_port = 0, sin_addr = 0\<rparr>,
      client_addrlen = 0, vpn_ip = replicate 4 0, g_reassembly_table = reassembly_init,
      outq = None, last_activity = 0, last_activity_keepalive = 0, argv_MBPS = 0,
      argv_FRAG = 0, argv_CBR = 0, argv_PAD = 0, rw = replay_window_zero,
      dummy_payload = replicate MAX_FRAG 0, final_pkt_dummy = replicate MAX_FRAG 0,
      static_hdr_len = 0\<rparr>"

definition sessions_init :: "session list" where
  "sessions_init = replicate MAX_CLIENTS zero_session"

text \<open>A datagram handed to \<open>sendto\<close>, and the conversion \<open>(size_t)x\<close> of an \<open>int\<close>.\<close>

type_synonym datagram = "sockaddr_in \<times> bytes"

definition size_t_of_int :: "int \<Rightarrow> nat" where
  "size_t_of_int x = nat (x mod 2 ^ 64)"

section \<open>Control packets and the dummy packet\<close>

text \<open>
  \<open>stk\<close> is the stack memory in the session identifier field of the tunnel header, which
  the code leaves uninitialised. The ciphertext is written to \<open>out[BUFFER_SIZE]\<close> before its length is
  checked; a longer one is \<open>None\<close>.
\<close>

definition send_control_packet ::
  "aead_fn \<Rightarrow> bytes \<Rightarrow> byte \<Rightarrow> session \<Rightarrow> (datagram list \<times> session) option" where
  "send_control_packet enc stk ctrl_type s =
     (if \<not> active s then Some ([], s)
      else
        let frag_len = size_t_of_int (argv_FRAG s) in
        if frag_len > MAX_FRAG \<or> frag_len < 64 then Some ([], s)
        else
          let sq = send_seq s;
              s1 = s\<lparr>send_seq := sq + 1\<rparr>;
              header = \<lparr>packet_id = 1, fragment_offset = 1, total_ip_len = 1,
                        flags = ucast ctrl_type, th_session_id = stk\<rparr>
          in if sizeof_tunnel_header > frag_len then Some ([], s1)
             else
               let b0 = replicate frag_len 0;
                   b1 = memcpy_at b0 0 (tunnel_header_bytes header);
                   b2 = memset_at b1 sizeof_tunnel_header 0x77 (frag_len - sizeof_tunnel_header)
               in case aead_encrypt enc (k_send s1) (session_id s1) sq b2 of
                    None \<Rightarrow> Some ([], s1)
                  | Some out \<Rightarrow>
                      if length out > BUFFER_SIZE then None
                      else if sizeof_proto_header + SESSION_ID_LEN + 8 + length out > BUFFER_SIZE
                      then Some ([], s1)
                      else Some ([(client_addr s1, data_packet (session_id s1) sq out)], s1))"

definition prepare_dummy_static_parts :: "session \<Rightarrow> session" where
  "prepare_dummy_static_parts s =
     (if sizeof_proto_header + SESSION_ID_LEN > MAX_FRAG then s
      else
        let p0 = memcpy_at (final_pkt_dummy s) 0 (proto_header_bytes data_header);
            p1 = memcpy_at p0 sizeof_proto_header (session_id s);
            s1 = s\<lparr>final_pkt_dummy := p1, static_hdr_len := sizeof_proto_header + SESSION_ID_LEN\<rparr>;
            frag_len0 = size_t_of_int (argv_FRAG s);
            frag_len = (if frag_len0 > MAX_FRAG \<or> frag_len0 < 64 then 1024 else frag_len0);
            th = \<lparr>packet_id = 1, fragment_offset = 1, total_ip_len = 1, flags = PKT_DUMMY,
                  th_session_id = replicate SESSION_ID_LEN 0\<rparr>
        in if sizeof_tunnel_header > MAX_FRAG then s1
           else
             let d0 = memcpy_at (dummy_payload s1) 0 (tunnel_header_bytes th);
                 d1 = (if frag_len > sizeof_tunnel_header
                       then memset_at d0 sizeof_tunnel_header 0x99 (frag_len - sizeof_tunnel_header)
                       else d0)
             in s1\<lparr>dummy_payload := d1\<rparr>)"

section \<open>Table operations\<close>

definition allocate_session :: "session list \<Rightarrow> nat option \<times> session list" where
  "allocate_session tbl =
     (case find_index (\<lambda>s. \<not> active s) tbl of
        Some i \<Rightarrow> (Some i, tbl[i := (tbl ! i)\<lparr>rw := replay_window_zero\<rparr>])
      | None \<Rightarrow> (None, tbl))"

definition session_by_id :: "bytes \<Rightarrow> session list \<Rightarrow> nat option" where
  "session_by_id sid tbl = find_index (\<lambda>s. active s \<and> session_id s = sid) tbl"

definition session_by_vpnip :: "bytes \<Rightarrow> session list \<Rightarrow> nat option" where
  "session_by_vpnip ip tbl = find_index (\<lambda>s. active s \<and> vpn_ip s = ip) tbl"

text \<open>The address scan of \<open>handle_inbound_udp\<close> and of \<open>handle_rehandshake_msg1\<close>.\<close>

definition session_by_addr :: "sockaddr_in \<Rightarrow> session list \<Rightarrow> nat option" where
  "session_by_addr src tbl =
     find_index (\<lambda>s. active s \<and> sin_addr (client_addr s) = sin_addr src \<and>
                     sin_port (client_addr s) = sin_port src) tbl"

definition assign_vpn_ip_to_session :: "nat \<Rightarrow> session list \<Rightarrow> session list" where
  "assign_vpn_ip_to_session i tbl =
     (let d = of_nat (2 + i) in tbl[i := (tbl ! i)\<lparr>vpn_ip := [10, 10, 0, d]\<rparr>])"

text \<open>The assignments that \<open>free_session\<close> and \<open>cleanup_expired_sessions\<close> share.\<close>

definition wipe_session :: "session \<Rightarrow> session" where
  "wipe_session s =
     s\<lparr>k_recv := replicate AEAD_KEY_LEN 0, k_send := replicate AEAD_KEY_LEN 0,
       session_id := replicate SESSION_ID_LEN 0, active := False, send_seq := 0,
       last_recv_seq := 0, client_addr := (client_addr s)\<lparr>sin_family := 0\<rparr>,
       client_addrlen := 0, vpn_ip := [0, 0, 0, 0], last_activity := 0\<rparr>"

definition free_session :: "nat \<Rightarrow> session list \<Rightarrow> metrics \<Rightarrow> session list \<times> metrics" where
  "free_session i tbl m =
     (if \<not> active (tbl ! i) then (tbl, m)
      else (tbl[i := wipe_session ((tbl ! i)\<lparr>outq := None\<rparr>)], metrics_record_connection_closed m))"

text \<open>The loop body of \<open>cleanup_expired_sessions\<close> on one slot; the queue stays allocated.\<close>

definition expire_session ::
  "aead_fn \<Rightarrow> bytes \<Rightarrow> time_t \<Rightarrow> session \<Rightarrow> metrics \<Rightarrow>
   (nat \<times> datagram list \<times> session \<times> metrics) option" where
  "expire_session enc stk now s m =
     (if \<not> active s then Some (0, [], s, m)
      else if now - last_activity s > SESSION_TIMEOUT_SEC
      then (case send_control_packet enc stk (ucast PKT_CTRL_DISCONNECT) s of
              None \<Rightarrow> None
            | Some (ds, s1) \<Rightarrow> Some (1, ds, wipe_session s1, metrics_record_connection_closed m))
      else Some (0, [], s, m))"

fun cleanup_expired_sessions ::
  "aead_fn \<Rightarrow> bytes \<Rightarrow> time_t \<Rightarrow> session list \<Rightarrow> metrics \<Rightarrow>
   (nat \<times> datagram list \<times> session list \<times> metrics) option" where
  "cleanup_expired_sessions enc stk now [] m = Some (0, [], [], m)"
| "cleanup_expired_sessions enc stk now (s # tbl) m =
     (case expire_session enc stk now s m of
        None \<Rightarrow> None
      | Some (n1, ds1, s1, m1) \<Rightarrow>
          (case cleanup_expired_sessions enc stk now tbl m1 of
             None \<Rightarrow> None
           | Some (n2, ds2, tbl2, m2) \<Rightarrow> Some (n1 + n2, ds1 @ ds2, s1 # tbl2, m2)))"

text \<open>\<open>sweep_reassembly_table\<close> runs over the tables of all slots, in use or not.\<close>

definition sweep_all_tables :: "time_t \<Rightarrow> session list \<Rightarrow> session list" where
  "sweep_all_tables now tbl =
     map (\<lambda>s. s\<lparr>g_reassembly_table := sweep_reassembly_table now (g_reassembly_table s)\<rparr>) tbl"

text \<open>\<open>packet_queue_push\<close> on the abstract queue; the flag tells of a dropped packet.\<close>

definition push_outq ::
  "bool \<Rightarrow> bytes \<Rightarrow> u64 \<Rightarrow> bytes \<Rightarrow> packet_lanes option \<Rightarrow> bool \<times> packet_lanes option" where
  "push_outq mem p sq ip_buf qo =
     (case qo of
        None \<Rightarrow> (False, None)
      | Some q \<Rightarrow>
          if mem
          then (let prio = (if interactive ip_buf then PKT_PRIO_HIGH else PKT_PRIO_NORMAL);
                    (dropped, q1) = lanes_push \<lparr>pkt = p, seq = sq, priority = prio\<rparr> q
                in (dropped, Some q1))
          else (False, Some q))"

section \<open>Invariant of the table\<close>

definition vpn_addr :: "nat \<Rightarrow> bytes" where
  "vpn_addr i = [10, 10, 0, of_nat (2 + i)]"

definition window_ok :: "replay_window \<Rightarrow> bool" where
  "window_ok w \<longleftrightarrow> (\<exists>S. window_rel w S)"

definition session_shape :: "session \<Rightarrow> bool" where
  "session_shape s \<longleftrightarrow>
     length (session_id s) = SESSION_ID_LEN \<and> length (k_recv s) = AEAD_KEY_LEN \<and>
     length (k_send s) = AEAD_KEY_LEN \<and> length (vpn_ip s) = 4 \<and>
     wf_table (g_reassembly_table s) \<and> bounded_table (g_reassembly_table s) \<and> window_ok (rw s) \<and>
     length (dummy_payload s) = MAX_FRAG \<and> length (final_pkt_dummy s) = MAX_FRAG"

definition params_ok :: "session \<Rightarrow> bool" where
  "params_ok s \<longleftrightarrow>
     argv_MBPS s \<in> {1..15} \<and> argv_FRAG s \<in> {64..1200} \<and>
     argv_CBR s \<in> {char_Y, char_N} \<and> argv_PAD s \<in> {char_Y, char_N}"

text \<open>What the dummy buffers of a session in use hold.\<close>

definition dummy_plain :: "nat \<Rightarrow> bytes" where
  "dummy_plain frag =
     tunnel_header_bytes \<lparr>packet_id = 1, fragment_offset = 1, total_ip_len = 1,
       flags = PKT_DUMMY, th_session_id = replicate SESSION_ID_LEN 0\<rparr> @
     replicate (frag - sizeof_tunnel_header) 0x99"

definition dummy_ok :: "session \<Rightarrow> bool" where
  "dummy_ok s \<longleftrightarrow>
     static_hdr_len s = sizeof_proto_header + SESSION_ID_LEN \<and>
     take (static_hdr_len s) (final_pkt_dummy s) = proto_header_bytes data_header @ session_id s \<and>
     take (nat (argv_FRAG s)) (dummy_payload s) = dummy_plain (nat (argv_FRAG s))"

definition slot_ok :: "nat \<Rightarrow> session \<Rightarrow> bool" where
  "slot_ok i s \<longleftrightarrow> session_shape s \<and>
     (if active s then vpn_ip s = vpn_addr i \<and> params_ok s \<and> dummy_ok s
      else k_recv s = replicate AEAD_KEY_LEN 0 \<and> k_send s = replicate AEAD_KEY_LEN 0 \<and>
           session_id s = replicate SESSION_ID_LEN 0)"

definition sessions_ok :: "session list \<Rightarrow> bool" where
  "sessions_ok tbl \<longleftrightarrow> length tbl = MAX_CLIENTS \<and> (\<forall>i<length tbl. slot_ok i (tbl ! i))"

lemma slot_shape: "slot_ok i s \<Longrightarrow> session_shape s"
  by (simp add: slot_ok_def)

lemma slot_table:
  "slot_ok i s \<Longrightarrow> wf_table (g_reassembly_table s)" "slot_ok i s \<Longrightarrow> bounded_table (g_reassembly_table s)"
  by (simp_all add: slot_ok_def session_shape_def)

lemma sessions_okD: "sessions_ok tbl \<Longrightarrow> i < length tbl \<Longrightarrow> slot_ok i (tbl ! i)"
  by (simp add: sessions_ok_def)

lemma sessions_ok_update:
  "sessions_ok tbl \<Longrightarrow> (i < length tbl \<Longrightarrow> slot_ok i s) \<Longrightarrow> sessions_ok (tbl[i := s])"
  by (cases "i < length tbl") (auto simp: sessions_ok_def nth_list_update)

lemma size_t_of_int_nonneg: "0 \<le> x \<Longrightarrow> x < 2 ^ 64 \<Longrightarrow> size_t_of_int x = nat x"
  by (simp add: size_t_of_int_def)

lemma params_frag:
  assumes "params_ok s"
  shows "size_t_of_int (argv_FRAG s) = nat (argv_FRAG s)"
    and "64 \<le> nat (argv_FRAG s)" and "nat (argv_FRAG s) \<le> 1200"
  using assms by (auto simp: params_ok_def size_t_of_int_nonneg)

lemma vpn_addr_inj:
  assumes "i < MAX_CLIENTS" "j < MAX_CLIENTS" "vpn_addr i = vpn_addr j"
  shows "i = j"
proof -
  have "unat (of_nat (2 + i) :: byte) = unat (of_nat (2 + j) :: byte)"
    using assms(3) by (simp add: vpn_addr_def)
  moreover have "unat (of_nat (2 + k) :: byte) = 2 + k" if "k < MAX_CLIENTS" for k
    using that unat_of_nat [of "2 + k", where 'a = 8] by (simp add: config_defs)
  ultimately show ?thesis using assms(1,2) by simp
qed

lemma window_ok_zero [simp]: "window_ok replay_window_zero"
  using window_rel_zero by (auto simp: window_ok_def)

lemma sessions_ok_init: "sessions_ok sessions_init"
  by (auto simp: sessions_ok_def sessions_init_def slot_ok_def session_shape_def zero_session_def
      wf_table_init bounded_init)

lemma wipe_shape: "session_shape s \<Longrightarrow> session_shape (wipe_session s)"
  by (simp add: session_shape_def wipe_session_def)

lemma wipe_slot: "session_shape s \<Longrightarrow> slot_ok i (wipe_session s)"
  by (simp add: slot_ok_def wipe_shape) (simp add: wipe_session_def)

lemma wipe_slot_ok: "slot_ok i s \<Longrightarrow> slot_ok i (wipe_session s)"
  by (rule wipe_slot) (rule slot_shape)

lemma slot_ok_seq [simp]: "slot_ok i (s\<lparr>send_seq := q\<rparr>) = slot_ok i s"
  by (simp add: slot_ok_def session_shape_def params_ok_def dummy_ok_def)

lemma slot_ok_times [simp]:
  "slot_ok i (s\<lparr>last_activity := t\<rparr>) = slot_ok i s"
  "slot_ok i (s\<lparr>last_activity_keepalive := t\<rparr>) = slot_ok i s"
  by (simp_all add: slot_ok_def session_shape_def params_ok_def dummy_ok_def)

lemma slot_ok_outq [simp]: "slot_ok i (s\<lparr>outq := q\<rparr>) = slot_ok i s"
  by (simp add: slot_ok_def session_shape_def params_ok_def dummy_ok_def)

lemma slot_ok_rw: "slot_ok i s \<Longrightarrow> window_ok w \<Longrightarrow> slot_ok i (s\<lparr>rw := w\<rparr>)"
  by (auto simp: slot_ok_def session_shape_def params_ok_def dummy_ok_def split: if_splits)

lemma slot_ok_reassembly:
  "slot_ok i s \<Longrightarrow> wf_table t \<Longrightarrow> bounded_table t \<Longrightarrow> slot_ok i (s\<lparr>g_reassembly_table := t\<rparr>)"
  by (auto simp: slot_ok_def session_shape_def params_ok_def dummy_ok_def split: if_splits)

section \<open>The control packet and the dummy packet\<close>

text \<open>What the code relies on of the AEAD's lengths.\<close>

definition aead_len :: "aead_fn \<Rightarrow> bool" where
  "aead_len enc \<longleftrightarrow> (\<forall>k n ad m c. enc k n ad m = Some c \<longrightarrow> length c = length m + MAC_LEN)"

lemma aead_correct_len: "aead_correct enc dec \<Longrightarrow> aead_len enc"
  by (simp add: aead_correct_def aead_len_def)

lemma aead_encrypt_len:
  "aead_len enc \<Longrightarrow> aead_encrypt enc k sid q m = Some c \<Longrightarrow> length c = length m + 16"
  by (simp add: aead_len_def aead_encrypt_def Let_def config_defs)

definition control_plain :: "bytes \<Rightarrow> byte \<Rightarrow> nat \<Rightarrow> bytes" where
  "control_plain stk ctrl_type frag =
     tunnel_header_bytes \<lparr>packet_id = 1, fragment_offset = 1, total_ip_len = 1,
       flags = ucast ctrl_type, th_session_id = stk\<rparr> @
     replicate (frag - sizeof_tunnel_header) 0x77"

lemma send_control_packet_params:
  assumes "active s" "params_ok s" "aead_len enc" "length stk = 16"
  shows "send_control_packet enc stk c s =
     Some (case aead_encrypt enc (k_send s) (session_id s) (send_seq s)
                  (control_plain stk c (nat (argv_FRAG s))) of
             None \<Rightarrow> ([], s\<lparr>send_seq := send_seq s + 1\<rparr>)
           | Some out \<Rightarrow> ([(client_addr s, data_packet (session_id s) (send_seq s) out)],
                          s\<lparr>send_seq := send_seq s + 1\<rparr>))"
proof -
  note f = params_frag [OF assms(2)]
  define frag where "frag = nat (argv_FRAG s)"
  have frag: "64 \<le> frag" "frag \<le> 1200" using f by (simp_all add: frag_def)
  have plain: "memset_at (memcpy_at (replicate frag 0) 0 (tunnel_header_bytes
        \<lparr>packet_id = 1, fragment_offset = 1, total_ip_len = 1, flags = ucast c, th_session_id = stk\<rparr>))
        sizeof_tunnel_header 0x77 (frag - sizeof_tunnel_header) = control_plain stk c frag"
    using frag assms(4) by (simp add: control_plain_def memset_at_def memcpy_at_def config_defs)
  have len: "length (control_plain stk c frag) = frag"
    using frag assms(4) by (simp add: control_plain_def config_defs)
  have "length out = frag + 16"
    if "aead_encrypt enc (k_send s) (session_id s) (send_seq s) (control_plain stk c frag) = Some out" for out
    using aead_encrypt_len [OF assms(3) that] len by simp
  then show ?thesis
    using frag assms(1) unfolding send_control_packet_def f(1) frag_def [symmetric]
    by (simp only: Let_def plain) (simp add: config_defs split: option.split)
qed

lemma prepare_dummy_params:
  assumes "session_shape s" "params_ok s"
  shows "prepare_dummy_static_parts s =
    s\<lparr>final_pkt_dummy := proto_header_bytes data_header @ session_id s @ drop 22 (final_pkt_dummy s),
      static_hdr_len := 22,
      dummy_payload := dummy_plain (nat (argv_FRAG s)) @ drop (nat (argv_FRAG s)) (dummy_payload s)\<rparr>"
proof -
  note f = params_frag [OF assms(2)]
  define frag where "frag = nat (argv_FRAG s)"
  have frag: "64 \<le> frag" "frag \<le> 1200" using f by (simp_all add: frag_def)
  have len: "length (final_pkt_dummy s) = 1600" "length (dummy_payload s) = 1600" "length (session_id s) = 16"
    using assms(1) by (simp_all add: session_shape_def config_defs)
  show ?thesis
    using frag len unfolding prepare_dummy_static_parts_def f(1) frag_def [symmetric]
    by (simp add: Let_def config_defs dummy_plain_def memset_at_def memcpy_at_def)
qed

lemma dummy_plain_length: "24 \<le> frag \<Longrightarrow> length (dummy_plain frag) = frag"
  by (simp add: dummy_plain_def config_defs)

lemma prepare_dummy_ok:
  assumes "session_shape s" "params_ok s"
  shows "dummy_ok (prepare_dummy_static_parts s)"
    and "session_shape (prepare_dummy_static_parts s)" and "params_ok (prepare_dummy_static_parts s)"
proof -
  note f = params_frag [OF assms(2)]
  have len: "length (dummy_plain (nat (argv_FRAG s))) = nat (argv_FRAG s)"
    using f by (simp add: dummy_plain_length)
  show "dummy_ok (prepare_dummy_static_parts s)"
    using assms(1) len by (simp add: prepare_dummy_params [OF assms] dummy_ok_def session_shape_def config_defs)
  show "session_shape (prepare_dummy_static_parts s)"
    using assms(1) len f by (simp add: prepare_dummy_params [OF assms] session_shape_def config_defs)
  show "params_ok (prepare_dummy_static_parts s)"
    using assms(2) by (simp add: prepare_dummy_params [OF assms] params_ok_def)
qed

lemma prepare_dummy_same [simp]:
  "active (prepare_dummy_static_parts s) = active s" "vpn_ip (prepare_dummy_static_parts s) = vpn_ip s"
  "session_id (prepare_dummy_static_parts s) = session_id s" "rw (prepare_dummy_static_parts s) = rw s"
  "k_recv (prepare_dummy_static_parts s) = k_recv s" "k_send (prepare_dummy_static_parts s) = k_send s"
  "send_seq (prepare_dummy_static_parts s) = send_seq s"
  "client_addr (prepare_dummy_static_parts s) = client_addr s"
  "outq (prepare_dummy_static_parts s) = outq s"
  "g_reassembly_table (prepare_dummy_static_parts s) = g_reassembly_table s"
  "argv_FRAG (prepare_dummy_static_parts s) = argv_FRAG s"
  "argv_MBPS (prepare_dummy_static_parts s) = argv_MBPS s"
  "argv_CBR (prepare_dummy_static_parts s) = argv_CBR s"
  "argv_PAD (prepare_dummy_static_parts s) = argv_PAD s"
  "last_activity (prepare_dummy_static_parts s) = last_activity s"
  by (simp_all add: prepare_dummy_static_parts_def Let_def)

text \<open>A table with one session in use, for the concrete instances of the theorems.\<close>

definition sample_session :: session where
  "sample_session = prepare_dummy_static_parts
     (zero_session\<lparr>active := True, session_id := replicate 16 7, k_recv := replicate 32 1,
        k_send := replicate 32 2, vpn_ip := vpn_addr 3, argv_MBPS := 5, argv_FRAG := 128,
        argv_CBR := char_N, argv_PAD := char_N, last_activity := 1000, outq := Some lanes_empty,
        client_addr := \<lparr>sin_family = 2, sin_port = 4000, sin_addr = 99\<rparr>,
        client_addrlen := sizeof_sockaddr_in\<rparr>)"

definition sample_table :: "session list" where
  "sample_table = sessions_init[3 := sample_session]"

lemma sample_session_ok: "slot_ok 3 sample_session"
proof -
  let ?s = "zero_session\<lparr>active := True, session_id := replicate 16 7, k_recv := replicate 32 1,
        k_send := replicate 32 2, vpn_ip := vpn_addr 3, argv_MBPS := 5, argv_FRAG := 128,
        argv_CBR := char_N, argv_PAD := char_N, last_activity := 1000, outq := Some lanes_empty,
        client_addr := \<lparr>sin_family = 2, sin_port = 4000, sin_addr = 99\<rparr>,
        client_addrlen := sizeof_sockaddr_in\<rparr>"
  have "session_shape ?s" "params_ok ?s"
    by (simp_all add: session_shape_def params_ok_def zero_session_def wf_table_init bounded_init config_defs vpn_addr_def)
  then show ?thesis
    using prepare_dummy_ok [of ?s] by (simp add: slot_ok_def sample_session_def)
qed

lemma sample_table_ok: "sessions_ok sample_table"
  using sample_session_ok by (auto simp: sample_table_def intro: sessions_ok_update sessions_ok_init)

lemma sample_table_slot [simp]: "sample_table ! 3 = sample_session"
  by (simp add: sample_table_def sessions_init_def MAX_CLIENTS_def)

lemma sample_session_fields [simp]:
  "active sample_session" "vpn_ip sample_session = vpn_addr 3" "last_activity sample_session = 1000"
  "session_id sample_session = replicate 16 7" "rw sample_session = replay_window_zero"
  "k_recv sample_session = replicate 32 1" "k_send sample_session = replicate 32 2"
  "send_seq sample_session = 0" "argv_FRAG sample_session = 128" "argv_CBR sample_session = char_N"
  "argv_PAD sample_session = char_N" "outq sample_session = Some lanes_empty"
  "g_reassembly_table sample_session = reassembly_init"
  "client_addr sample_session = \<lparr>sin_family = 2, sin_port = 4000, sin_addr = 99\<rparr>"
  by (simp_all add: sample_session_def zero_session_def)

section \<open>Lookup, release and expiry\<close>

lemma session_by_vpnip_slot:
  assumes "sessions_ok tbl" "i < MAX_CLIENTS"
  shows "session_by_vpnip (vpn_addr i) tbl = (if active (tbl ! i) then Some i else None)"
proof -
  have len: "length tbl = MAX_CLIENTS" using assms(1) by (simp add: sessions_ok_def)
  have ip: "vpn_ip (tbl ! j) = vpn_addr j" if "j < length tbl" "active (tbl ! j)" for j
    using sessions_okD [OF assms(1) that(1)] that(2) by (simp add: slot_ok_def)
  have uniq: "j = i" if "j < length tbl" "active (tbl ! j)" "vpn_ip (tbl ! j) = vpn_addr i" for j
    using vpn_addr_inj [OF _ assms(2), of j] ip [OF that(1,2)] that(1,3) len by simp
  show ?thesis
  proof (cases "active (tbl ! i)")
    case True
    then show ?thesis using assms(2) len ip uniq unfolding session_by_vpnip_def
      by (subst find_index_unique [where i = i]) auto
  next
    case False
    then have "\<forall>s\<in>set tbl. \<not> (active s \<and> vpn_ip s = vpn_addr i)"
      using uniq by (metis in_set_conv_nth)
    then show ?thesis using False by (simp add: session_by_vpnip_def find_index_None_iff)
  qed
qed

lemma session_by_vpnip_Some:
  assumes "sessions_ok tbl" "session_by_vpnip ip tbl = Some i"
  shows "i < length tbl" "active (tbl ! i)" "ip = vpn_addr i"
  using assms sessions_okD [OF assms(1), of i]
  by (auto simp: session_by_vpnip_def slot_ok_def find_index_Some_iff)

lemma session_by_id_Some:
  "session_by_id sid tbl = Some i \<Longrightarrow> i < length tbl \<and> active (tbl ! i) \<and> session_id (tbl ! i) = sid"
  by (simp add: session_by_id_def find_index_Some_iff)

lemma session_by_addr_Some:
  "session_by_addr src tbl = Some i \<Longrightarrow> i < length tbl \<and> active (tbl ! i) \<and>
     sin_addr (client_addr (tbl ! i)) = sin_addr src \<and> sin_port (client_addr (tbl ! i)) = sin_port src"
  by (simp add: session_by_addr_def find_index_Some_iff)

lemma allocate_session_ok:
  assumes "sessions_ok tbl" "allocate_session tbl = (Some i, tbl')"
  shows "i < length tbl" "\<not> active (tbl ! i)" "tbl' = tbl[i := (tbl ! i)\<lparr>rw := replay_window_zero\<rparr>]"
    "sessions_ok tbl'"
proof -
  have i: "find_index (\<lambda>s. \<not> active s) tbl = Some i"
    and tbl': "tbl' = tbl[i := (tbl ! i)\<lparr>rw := replay_window_zero\<rparr>]"
    using assms(2) by (auto simp: allocate_session_def split: option.splits)
  from i show "i < length tbl" "\<not> active (tbl ! i)" by (simp_all add: find_index_Some_iff)
  show "tbl' = tbl[i := (tbl ! i)\<lparr>rw := replay_window_zero\<rparr>]" by (rule tbl')
  show "sessions_ok tbl'" unfolding tbl'
    by (rule sessions_ok_update [OF assms(1)]) (simp add: slot_ok_rw sessions_okD assms(1))
qed

lemma free_session_ok:
  "sessions_ok tbl \<Longrightarrow> i < length tbl \<Longrightarrow> sessions_ok (fst (free_session i tbl m))"
  using sessions_okD [of tbl i] slot_shape [of i "(tbl ! i)\<lparr>outq := None\<rparr>"]
  by (auto simp: free_session_def intro!: sessions_ok_update wipe_slot)

definition expired :: "time_t \<Rightarrow> session \<Rightarrow> bool" where
  "expired now s \<longleftrightarrow> active s \<and> now - last_activity s > SESSION_TIMEOUT_SEC"

definition disconnects :: "aead_fn \<Rightarrow> bytes \<Rightarrow> session \<Rightarrow> datagram list" where
  "disconnects enc stk s =
     (case aead_encrypt enc (k_send s) (session_id s) (send_seq s)
             (control_plain stk (ucast PKT_CTRL_DISCONNECT) (nat (argv_FRAG s))) of
        None \<Rightarrow> []
      | Some out \<Rightarrow> [(client_addr s, data_packet (session_id s) (send_seq s) out)])"

lemma wipe_seq [simp]: "wipe_session (s\<lparr>send_seq := q\<rparr>) = wipe_session s"
  by (simp add: wipe_session_def)

lemma expire_session_eq:
  assumes "active s \<Longrightarrow> params_ok s" "aead_len enc" "length stk = 16"
  shows "expire_session enc stk now s m =
    Some (if expired now s
          then (1, disconnects enc stk s, wipe_session s, metrics_record_connection_closed m)
          else (0, [], s, m))"
proof (cases "expired now s")
  case True
  then have "active s" by (simp add: expired_def)
  then show ?thesis
    using True send_control_packet_params [OF _ assms(1) assms(2,3)]
    by (simp add: expire_session_def expired_def disconnects_def split: option.split)
qed (auto simp: expire_session_def expired_def)

lemma cleanup_eq:
  assumes "\<And>s. s \<in> set tbl \<Longrightarrow> active s \<Longrightarrow> params_ok s" "aead_len enc" "length stk = 16"
  shows "cleanup_expired_sessions enc stk now tbl m =
    Some (length (filter (expired now) tbl),
          concat (map (disconnects enc stk) (filter (expired now) tbl)),
          map (\<lambda>s. if expired now s then wipe_session s else s) tbl,
          (metrics_record_connection_closed ^^ length (filter (expired now) tbl)) m)"
  using assms(1)
proof (induction tbl arbitrary: m)
  case (Cons s tbl)
  have e: "expire_session enc stk now s m =
    Some (if expired now s
          then (1, disconnects enc stk s, wipe_session s, metrics_record_connection_closed m)
          else (0, [], s, m))" for m
    by (rule expire_session_eq) (use Cons.prems assms(2,3) in auto)
  have *: "(f ^^ n) (f x) = f ((f ^^ n) x)" for f :: "metrics \<Rightarrow> metrics" and n x
    by (simp add: funpow_swap1)
  show ?case using Cons by (simp add: e *)
qed simp

lemma sessions_ok_params: "sessions_ok tbl \<Longrightarrow> s \<in> set tbl \<Longrightarrow> active s \<Longrightarrow> params_ok s"
  by (auto simp: sessions_ok_def slot_ok_def in_set_conv_nth)

lemma sweep_all_ok: "sessions_ok tbl \<Longrightarrow> sessions_ok (sweep_all_tables now tbl)"
  by (auto simp: sessions_ok_def sweep_all_tables_def slot_table
      intro!: slot_ok_reassembly sweep_wf sweep_bounded)

text \<open>A destination address leads to the session that owns it: looking up
  \<open>10.10.0.(2+i)\<close> finds slot \<open>i\<close> exactly when that slot is in use, and every other address
  finds nothing, so a packet for one client is never encrypted for another.\<close>

lemma vpnip_lookup:
  assumes "sessions_ok tbl"
  shows "session_by_vpnip ip tbl = Some i \<longleftrightarrow> i < MAX_CLIENTS \<and> active (tbl ! i) \<and> ip = vpn_addr i"
proof
  assume "session_by_vpnip ip tbl = Some i"
  then show "i < MAX_CLIENTS \<and> active (tbl ! i) \<and> ip = vpn_addr i"
    using session_by_vpnip_Some [OF assms] assms by (simp add: sessions_ok_def)
next
  assume "i < MAX_CLIENTS \<and> active (tbl ! i) \<and> ip = vpn_addr i"
  then show "session_by_vpnip ip tbl = Some i"
    using session_by_vpnip_slot [OF assms] by simp
qed

text \<open>C30. The expiry scan never leaves its buffers; it wipes the keys, the identifier and the
  address of exactly the sessions idle for more than \<open>SESSION_TIMEOUT_SEC\<close> seconds, leaves
  every other slot as it was, sends the disconnect only to the wiped sessions and keeps the
  invariant of the table.\<close>

theorem expiry_exact:
  assumes "sessions_ok tbl" "aead_len enc" "length stk = 16"
  shows "\<exists>ds tbl'. cleanup_expired_sessions enc stk now tbl m =
      Some (length (filter (expired now) tbl), ds, tbl',
            (metrics_record_connection_closed ^^ length (filter (expired now) tbl)) m) \<and>
    sessions_ok tbl' \<and>
    (\<forall>i<MAX_CLIENTS. tbl' ! i = (if expired now (tbl ! i) then wipe_session (tbl ! i) else tbl ! i)) \<and>
    (\<forall>d\<in>set ds. \<exists>s\<in>set tbl. expired now s \<and> fst d = client_addr s)"
proof -
  have len: "length tbl = MAX_CLIENTS" using assms(1) by (simp add: sessions_ok_def)
  have ok: "sessions_ok (map (\<lambda>s. if expired now s then wipe_session s else s) tbl)"
    using assms(1) by (auto simp: sessions_ok_def intro: wipe_slot_ok)
  have ds: "\<exists>s\<in>set tbl. expired now s \<and> fst d = client_addr s"
    if "d \<in> set (concat (map (disconnects enc stk) (filter (expired now) tbl)))" for d
    using that by (auto simp: disconnects_def split: option.splits)
  have "cleanup_expired_sessions enc stk now tbl m =
    Some (length (filter (expired now) tbl),
          concat (map (disconnects enc stk) (filter (expired now) tbl)),
          map (\<lambda>s. if expired now s then wipe_session s else s) tbl,
          (metrics_record_connection_closed ^^ length (filter (expired now) tbl)) m)"
    by (rule cleanup_eq) (use sessions_ok_params assms in auto)
  then show ?thesis using ok ds len by simp
qed

definition sample_aead :: aead_fn where
  "sample_aead k n ad m = Some (m @ replicate 16 0)"

definition sample_aead_dec :: aead_fn where
  "sample_aead_dec k n ad c = (if length c < 16 then None else Some (take (length c - 16) c))"

lemma sample_aead_correct: "aead_correct sample_aead sample_aead_dec"
  by (auto simp: aead_correct_def sample_aead_def sample_aead_dec_def config_defs)

theorem expiry_exact_witness:
  "\<exists>n ds tbl' m'. cleanup_expired_sessions sample_aead (replicate 16 0) 1061 sample_table (metrics_init 0) =
     Some (n, ds, tbl', m') \<and> sessions_ok tbl' \<and> tbl' ! 3 = wipe_session sample_session"
  using expiry_exact [OF sample_table_ok aead_correct_len [OF sample_aead_correct], of "replicate 16 0" 1061
      "metrics_init 0"]
  by (auto simp: MAX_CLIENTS_def expired_def SESSION_TIMEOUT_SEC_def)

end
