(* ===== verification/Sched_Heap.thy ===== *)
theory Sched_Heap
  imports Chamlon_Prelude
begin

text \<open>
  The scheduler's binary min-heap of \<open>chamlon_server/src/scheduler.c\<close>: an array of tasks
  ordered by their next run time, with the sift-up and sift-down loops that move a hole
  instead of swapping. Slots of the array at or above \<open>size\<close> hold arbitrary values. A task
  is only written after it has left the heap, so the pointers to tasks are modelled by the
  tasks themselves.
\<close>

section \<open>Run times\<close>

datatype timespec = Timespec (tv_sec: int) (tv_nsec: int)

definition timespec_compare :: "timespec \<Rightarrow> timespec \<Rightarrow> int" where
  "timespec_compare a b =
     (if tv_sec a \<noteq> tv_sec b then (if tv_sec a > tv_sec b then 1 else -1)
      else if tv_nsec a \<noteq> tv_nsec b then (if tv_nsec a > tv_nsec b then 1 else -1)
      else 0)"

instantiation timespec :: linorder
begin

definition less_eq_timespec :: "timespec \<Rightarrow> timespec \<Rightarrow> bool" where
  "less_eq_timespec a b \<longleftrightarrow> timespec_compare a b \<le> 0"

definition less_timespec :: "timespec \<Rightarrow> timespec \<Rightarrow> bool" where
  "less_timespec a b \<longleftrightarrow> timespec_compare a b < 0"

instance
  by standard
    (auto simp: less_eq_timespec_def less_timespec_def timespec_compare_def timespec.expand
      split: if_splits)

end

lemma timespec_compare_ge: "timespec_compare a b \<ge> 0 \<longleftrightarrow> b \<le> a"
  using less_timespec_def [of a b] by auto

lemma timespec_compare_le: "timespec_compare a b \<le> 0 \<longleftrightarrow> a \<le> b"
  by (simp add: less_eq_timespec_def)

lemma timespec_compare_lt: "timespec_compare a b < 0 \<longleftrightarrow> a < b"
  by (simp add: less_timespec_def)

lemmas timespec_order = timespec_compare_ge timespec_compare_le timespec_compare_lt

section \<open>Operations\<close>

record scheduler_task =
  next_run :: timespec
  task_session_id :: bytes

record priority_queue =
  nodes :: "scheduler_task list"
  pq_size :: nat
  pq_capacity :: nat

text \<open>
  The contents of a fresh block are unspecified: an allocation is \<open>None\<close> when it fails, else
  a function from the index to what the slot happens to hold.
\<close>

type_synonym alloc = "(nat \<Rightarrow> scheduler_task) option"

definition pq_create :: "nat \<Rightarrow> alloc \<Rightarrow> priority_queue option" where
  "pq_create cap mem =
     (case mem of None \<Rightarrow> None
      | Some blk \<Rightarrow> Some \<lparr>nodes = map blk [0..<cap], pq_size = 0, pq_capacity = cap\<rparr>)"

definition pq_is_empty :: "priority_queue \<Rightarrow> bool" where
  "pq_is_empty pq \<longleftrightarrow> pq_size pq = 0"

definition pq_peek :: "priority_queue \<Rightarrow> scheduler_task option" where
  "pq_peek pq = (if pq_is_empty pq then None else Some (nodes pq ! 0))"

fun sift_up :: "scheduler_task \<Rightarrow> nat \<Rightarrow> scheduler_task list \<Rightarrow> scheduler_task list" where
  "sift_up task i ns =
     (if i > 0 then
        let p = (i - 1) div 2 in
        if timespec_compare (next_run task) (next_run (ns ! p)) \<ge> 0 then ns[i := task]
        else sift_up task p (ns[i := ns ! p])
      else ns[i := task])"

declare sift_up.simps [simp del]

text \<open>\<open>grow\<close> is the outcome of \<open>realloc\<close>, with the contents of the new half of the array.\<close>

definition pq_push :: "alloc \<Rightarrow> scheduler_task \<Rightarrow> priority_queue \<Rightarrow> priority_queue" where
  "pq_push grow task pq =
     (let grown =
        (if pq_size pq = pq_capacity pq then
           (case grow of
              None \<Rightarrow> None
            | Some blk \<Rightarrow> Some (pq\<lparr>nodes := nodes pq @ map blk [0..<pq_capacity pq],
                                   pq_capacity := pq_capacity pq * 2\<rparr>))
         else Some pq)
      in case grown of
           None \<Rightarrow> pq
         | Some pq1 \<Rightarrow>
             let i = pq_size pq1
             in pq1\<lparr>nodes := sift_up task i (nodes pq1), pq_size := i + 1\<rparr>)"

function sift_down :: "scheduler_task \<Rightarrow> nat \<Rightarrow> nat \<Rightarrow> scheduler_task list \<Rightarrow> scheduler_task list" where
  "sift_down lst n i ns =
     (if i * 2 + 1 < n then
        let c = i * 2 + 1;
            child = (if c + 1 < n \<and> timespec_compare (next_run (ns ! (c + 1))) (next_run (ns ! c)) < 0
                     then c + 1 else c)
        in if timespec_compare (next_run lst) (next_run (ns ! child)) \<le> 0 then ns[i := lst]
           else sift_down lst n child (ns[i := ns ! child])
      else ns[i := lst])"
  by pat_completeness auto
termination
  by (relation "measure (\<lambda>(lst, n, i, ns). n - i)") (auto simp: Let_def split: if_splits)

declare sift_down.simps [simp del]

definition pq_pop :: "priority_queue \<Rightarrow> scheduler_task option \<times> priority_queue" where
  "pq_pop pq =
     (if pq_size pq = 0 then (None, pq)
      else
        let res = nodes pq ! 0;
            n = pq_size pq - 1;
            lst = nodes pq ! n
        in (Some res, pq\<lparr>nodes := sift_down lst n 0 (nodes pq), pq_size := n\<rparr>))"

section \<open>Heap order\<close>

definition parent :: "nat \<Rightarrow> nat" where
  "parent k = (k - 1) div 2"

definition edge_ok :: "scheduler_task list \<Rightarrow> nat \<Rightarrow> bool" where
  "edge_ok ns k \<longleftrightarrow> next_run (ns ! parent k) \<le> next_run (ns ! k)"

definition heap_ok :: "scheduler_task list \<Rightarrow> nat \<Rightarrow> bool" where
  "heap_ok ns n \<longleftrightarrow> (\<forall>k. 0 < k \<and> k < n \<longrightarrow> edge_ok ns k)"

definition pq_inv :: "priority_queue \<Rightarrow> bool" where
  "pq_inv pq \<longleftrightarrow> pq_size pq \<le> pq_capacity pq \<and> length (nodes pq) = pq_capacity pq \<and>
     0 < pq_capacity pq \<and> heap_ok (nodes pq) (pq_size pq)"

definition tasks :: "priority_queue \<Rightarrow> scheduler_task multiset" where
  "tasks pq = mset (take (pq_size pq) (nodes pq))"

lemma parent_less: "0 < k \<Longrightarrow> parent k < k"
  unfolding parent_def by linarith

lemma parent_child: "0 < k \<Longrightarrow> parent k = i \<longleftrightarrow> k = i * 2 + 1 \<or> k = i * 2 + 2"
  unfolding parent_def by linarith

text \<open>Moving the hole from \<open>i\<close> to \<open>p\<close> permutes the array with the hole filled.\<close>

lemma mset_move_hole:
  assumes "i < n" "p < n" "n \<le> length ns"
  shows "mset (take n (ns[i := ns ! p, p := t])) = mset (take n (ns[i := t]))"
proof (cases "i = p")
  case False
  let ?xs = "take n (ns[i := t])"
  have "take n (ns[i := ns ! p, p := t]) = ?xs[i := ?xs ! p, p := ?xs ! i]"
    using assms False by (simp add: take_update_swap)
  also have "mset \<dots> = mset ?xs" using assms by (intro mset_swap) simp_all
  finally show ?thesis .
qed (use assms in simp)

lemma heap_root_min: "heap_ok ns n \<Longrightarrow> k < n \<Longrightarrow> next_run (ns ! 0) \<le> next_run (ns ! k)"
proof (induction k rule: less_induct)
  case (less k)
  show ?case
  proof (cases "k = 0")
    case False
    then have "next_run (ns ! 0) \<le> next_run (ns ! parent k)"
      using less parent_less [of k] by simp
    also have "\<dots> \<le> next_run (ns ! k)"
      using less.prems False by (simp add: heap_ok_def edge_ok_def)
    finally show ?thesis .
  qed simp
qed

section \<open>The loops restore the heap order\<close>

definition up_inv :: "scheduler_task \<Rightarrow> nat \<Rightarrow> nat \<Rightarrow> scheduler_task list \<Rightarrow> bool" where
  "up_inv t n i ns \<longleftrightarrow> i < n \<and> n \<le> length ns \<and>
     (\<forall>k. 0 < k \<and> k < n \<and> k \<noteq> i \<longrightarrow> edge_ok (ns[i := t]) k) \<and>
     (\<forall>k. 0 < k \<and> k < n \<and> parent k = i \<and> 0 < i \<longrightarrow> next_run (ns ! parent i) \<le> next_run (ns ! k))"

lemma up_inv_move:
  assumes inv: "up_inv t n i ns" and i: "0 < i" and lt: "\<not> next_run (ns ! parent i) \<le> next_run t"
  shows "up_inv t n (parent i) (ns[i := ns ! parent i])"
proof -
  let ?p = "parent i" and ?ns = "ns[i := ns ! parent i]"
  have p: "?p < i" "i < n" "n \<le> length ns" using parent_less [OF i] inv by (auto simp: up_inv_def)
  have e: "edge_ok (ns[i := t]) k" if "0 < k" "k < n" "k \<noteq> i" for k
    using inv that by (auto simp: up_inv_def)
  have g: "next_run (ns ! ?p) \<le> next_run (ns ! k)" if "0 < k" "k < n" "parent k = i" for k
    using inv that i by (auto simp: up_inv_def)
  have "edge_ok (?ns[?p := t]) k" if k: "0 < k" "k < n" "k \<noteq> ?p" for k
  proof -
    have len: "k < length ns" "parent k < length ns" "?p < length ns" "i < length ns"
      using k p parent_less [of k] by linarith+
    consider (this) "k = i" | (below) "k \<noteq> i" "parent k = i"
      | (sibling) "k \<noteq> i" "parent k = ?p" "parent k \<noteq> i" | (far) "k \<noteq> i" "parent k \<noteq> i" "parent k \<noteq> ?p"
      by metis
    then show ?thesis
      using e [of k] g [of k] lt k p len by cases (auto simp: edge_ok_def)
  qed
  moreover have "next_run (?ns ! parent ?p) \<le> next_run (?ns ! k)"
    if k: "0 < k" "k < n" "parent k = ?p" "0 < ?p" for k
    using e [of k] e [of ?p] k p parent_less [of ?p] parent_less [of k]
    by (cases "k = i") (auto simp: edge_ok_def nth_list_update)
  ultimately show ?thesis using p by (auto simp: up_inv_def)
qed

lemma sift_up_heap:
  "up_inv t n i ns \<Longrightarrow>
   heap_ok (sift_up t i ns) n \<and> length (sift_up t i ns) = length ns \<and>
   mset (take n (sift_up t i ns)) = mset (take n (ns[i := t]))"
proof (induction t i ns rule: sift_up.induct)
  case (1 t i ns)
  let ?p = "parent i"
  have i: "i < n" "n \<le> length ns" and e: "\<And>k. 0 < k \<Longrightarrow> k < n \<Longrightarrow> k \<noteq> i \<Longrightarrow> edge_ok (ns[i := t]) k"
    using "1.prems" by (auto simp: up_inv_def)
  consider (root) "i = 0" | (stop) "0 < i" "next_run (ns ! ?p) \<le> next_run t"
    | (move) "0 < i" "\<not> next_run (ns ! ?p) \<le> next_run t" by auto
  then show ?case
  proof cases
    case root
    then show ?thesis using e by (simp add: sift_up.simps heap_ok_def)
  next
    case stop
    then have "edge_ok (ns[i := t]) i" using i parent_less [of i] by (simp add: edge_ok_def)
    then have "heap_ok (ns[i := t]) n" using e by (auto simp: heap_ok_def)
    then show ?thesis using stop by (simp add: sift_up.simps timespec_order parent_def)
  next
    case move
    then show ?thesis
      using "1.IH" [OF _ refl] up_inv_move [OF "1.prems" move] i parent_less [of i]
        mset_move_hole [of i n ?p ns t]
      by (simp add: sift_up.simps [of t i ns] timespec_order Let_def parent_def)
  qed
qed

definition down_inv :: "scheduler_task \<Rightarrow> nat \<Rightarrow> nat \<Rightarrow> scheduler_task list \<Rightarrow> bool" where
  "down_inv t n i ns \<longleftrightarrow> i < n \<and> n \<le> length ns \<and>
     (\<forall>k. 0 < k \<and> k < n \<and> parent k \<noteq> i \<longrightarrow> edge_ok (ns[i := t]) k) \<and>
     (\<forall>k. 0 < k \<and> k < n \<and> parent k = i \<and> 0 < i \<longrightarrow> next_run (ns ! parent i) \<le> next_run (ns ! k))"

definition min_child :: "scheduler_task list \<Rightarrow> nat \<Rightarrow> nat \<Rightarrow> nat" where
  "min_child ns n i =
     (if i * 2 + 2 < n \<and> next_run (ns ! (i * 2 + 2)) < next_run (ns ! (i * 2 + 1))
      then i * 2 + 2 else i * 2 + 1)"

lemma sift_down_step:
  "sift_down t n i ns =
     (if i * 2 + 1 < n \<and> next_run (ns ! min_child ns n i) < next_run t
      then sift_down t n (min_child ns n i) (ns[i := ns ! min_child ns n i])
      else ns[i := t])"
  by (subst sift_down.simps) (auto simp: timespec_order min_child_def Let_def)

lemma min_child_props:
  assumes "i * 2 + 1 < n"
  shows "parent (min_child ns n i) = i" "min_child ns n i < n" "i < min_child ns n i"
  using assms by (auto simp: min_child_def parent_def)

lemma min_child_le:
  assumes "0 < k" "k < n" "parent k = i"
  shows "i * 2 + 1 < n \<and> next_run (ns ! min_child ns n i) \<le> next_run (ns ! k)"
  using assms parent_child [of k i] by (auto simp: min_child_def not_less)

lemma down_inv_move:
  assumes inv: "down_inv t n i ns" and c: "i * 2 + 1 < n"
    and lt: "next_run (ns ! min_child ns n i) < next_run t"
  shows "down_inv t n (min_child ns n i) (ns[i := ns ! min_child ns n i])"
proof -
  define c where "c = min_child ns n i"
  note mc = min_child_props [OF c, of ns, folded c_def]
  let ?ns = "ns[i := ns ! c]"
  have i: "i < n" "n \<le> length ns" and e: "\<And>k. 0 < k \<Longrightarrow> k < n \<Longrightarrow> parent k \<noteq> i \<Longrightarrow> edge_ok (ns[i := t]) k"
    and g: "\<And>k. 0 < k \<Longrightarrow> k < n \<Longrightarrow> parent k = i \<Longrightarrow> 0 < i \<Longrightarrow> next_run (ns ! parent i) \<le> next_run (ns ! k)"
    using inv by (auto simp: down_inv_def)
  have "edge_ok (?ns[c := t]) k" if k: "0 < k" "k < n" "parent k \<noteq> c" for k
  proof -
    have len: "k < length ns" "parent k < length ns" "c < length ns" "i < length ns" "parent k < k"
      using k i mc parent_less [of k] by linarith+
    consider (this) "k = c" | (sibling) "k \<noteq> c" "parent k = i" | (self) "k = i"
      | (far) "k \<noteq> i" "k \<noteq> c" "parent k \<noteq> i" by metis
    then show ?thesis
      using e [of k] g [of c] min_child_le [of k n i ns] lt k i mc(1-3) len
      by cases (auto simp: edge_ok_def c_def [symmetric])
  qed
  moreover have "next_run (?ns ! parent c) \<le> next_run (?ns ! k)"
    if k: "0 < k" "k < n" "parent k = c" for k
    using e [of k] k i mc(1-3) parent_less [of k] by (auto simp: edge_ok_def)
  ultimately show ?thesis using i mc(2) unfolding down_inv_def c_def [symmetric] by simp
qed

lemma sift_down_heap:
  "down_inv t n i ns \<Longrightarrow>
   heap_ok (sift_down t n i ns) n \<and> length (sift_down t n i ns) = length ns \<and>
   mset (take n (sift_down t n i ns)) = mset (take n (ns[i := t]))"
proof (induction "n - i" arbitrary: i ns rule: less_induct)
  case less
  have i: "i < n" "n \<le> length ns" and e: "\<And>k. 0 < k \<Longrightarrow> k < n \<Longrightarrow> parent k \<noteq> i \<Longrightarrow> edge_ok (ns[i := t]) k"
    using less.prems by (auto simp: down_inv_def)
  show ?case
  proof (cases "i * 2 + 1 < n \<and> next_run (ns ! min_child ns n i) < next_run t")
    case True
    note mc = min_child_props [of i n ns]
    show ?thesis
      using less.hyps [OF _ down_inv_move [OF less.prems]] True mc(2,3) i
        mset_move_hole [of i n "min_child ns n i" ns t]
      by (subst (1 2 3) sift_down_step) (simp add: diff_less_mono2)
  next
    case False
    have "edge_ok (ns[i := t]) k" if k: "0 < k" "k < n" "parent k = i" for k
    proof -
      have "next_run t \<le> next_run (ns ! k)" using False min_child_le [OF k, of ns] by auto
      then show ?thesis using k i parent_less [of k] by (auto simp: edge_ok_def)
    qed
    then have "heap_ok (ns[i := t]) n" using e by (auto simp: heap_ok_def)
    then show ?thesis using False by (subst (1 2 3) sift_down_step) auto
  qed
qed

section \<open>The queue operations\<close>

lemma pq_push_room:
  assumes inv: "heap_ok ns n" and n: "n < length ns"
  shows "heap_ok (sift_up t n ns) (n + 1) \<and> length (sift_up t n ns) = length ns \<and>
    mset (take (n + 1) (sift_up t n ns)) = add_mset t (mset (take n ns))"
proof -
  have "edge_ok (ns[n := t]) k" if "0 < k" "k < n" for k
    using inv that parent_less [of k] by (simp add: heap_ok_def edge_ok_def)
  moreover have "parent k \<noteq> n" if "0 < k" "k < n + 1" for k
    using parent_less [of k] that by linarith
  ultimately have "up_inv t (n + 1) n ns" using n unfolding up_inv_def by auto
  moreover have "mset (take (n + 1) (ns[n := t])) = add_mset t (mset (take n ns))"
    using n by (simp add: take_Suc_conv_app_nth)
  ultimately show ?thesis using sift_up_heap [of t "n + 1" n ns] by simp
qed

lemma pq_push_inv:
  assumes inv: "pq_inv pq"
  shows "pq_inv (pq_push grow t pq) \<and>
    (tasks (pq_push grow t pq) = add_mset t (tasks pq) \<or>
     grow = None \<and> pq_size pq = pq_capacity pq \<and> pq_push grow t pq = pq)"
proof (cases "pq_size pq = pq_capacity pq")
  case True
  show ?thesis
  proof (cases grow)
    case None
    then show ?thesis using True inv by (simp add: pq_push_def)
  next
    case (Some blk)
    let ?ns = "nodes pq @ map blk [0..<pq_capacity pq]"
    have eq: "pq_push grow t pq =
        pq\<lparr>nodes := sift_up t (pq_size pq) ?ns, pq_capacity := pq_capacity pq * 2, pq_size := pq_size pq + 1\<rparr>"
      using True Some by (simp add: pq_push_def Let_def)
    have "edge_ok ?ns k" if "0 < k" "k < pq_size pq" for k
      using inv True that parent_less [of k] by (simp add: pq_inv_def heap_ok_def edge_ok_def nth_append)
    then have "heap_ok ?ns (pq_size pq)" by (simp add: heap_ok_def)
    moreover have "pq_size pq < length ?ns" using inv True by (simp add: pq_inv_def)
    ultimately show ?thesis
      using pq_push_room [of ?ns "pq_size pq" t] inv True
      unfolding eq by (auto simp: pq_inv_def tasks_def)
  qed
next
  case False
  then have eq: "pq_push grow t pq = pq\<lparr>nodes := sift_up t (pq_size pq) (nodes pq), pq_size := pq_size pq + 1\<rparr>"
    by (simp add: pq_push_def Let_def)
  show ?thesis
    using pq_push_room [of "nodes pq" "pq_size pq" t] inv False
    unfolding eq by (simp add: pq_inv_def tasks_def)
qed

lemma tasks_root:
  assumes inv: "pq_inv pq" and n: "pq_size pq \<noteq> 0"
  shows "nodes pq ! 0 \<in># tasks pq" and "\<forall>y\<in>#tasks pq. next_run (nodes pq ! 0) \<le> next_run y"
proof -
  have len: "pq_size pq \<le> length (nodes pq)" using inv by (simp add: pq_inv_def)
  show "nodes pq ! 0 \<in># tasks pq"
    using n len by (auto simp: tasks_def in_set_conv_nth intro!: exI [of _ 0])
  show "\<forall>y\<in>#tasks pq. next_run (nodes pq ! 0) \<le> next_run y"
    using inv heap_root_min [of "nodes pq" "pq_size pq"]
    by (auto simp: pq_inv_def tasks_def in_set_conv_nth)
qed

lemma mset_pop_root:
  assumes "0 < n" "n < length ns"
  shows "mset (take (Suc n) ns) = add_mset (ns ! 0) (mset (take n (ns[0 := ns ! n])))"
  using assms by (cases ns; cases n) (auto simp: take_Suc_conv_app_nth)

lemma pq_pop_inv:
  assumes inv: "pq_inv pq" and n: "pq_size pq \<noteq> 0"
  shows "\<exists>pq'. pq_pop pq = (Some (nodes pq ! 0), pq') \<and> pq_inv pq' \<and>
    tasks pq = add_mset (nodes pq ! 0) (tasks pq')"
proof -
  let ?ns = "nodes pq" and ?n = "pq_size pq - 1"
  let ?l = "?ns ! ?n"
  define ns' where "ns' = sift_down ?l ?n 0 ?ns"
  have pop: "pq_pop pq = (Some (?ns ! 0), pq\<lparr>nodes := ns', pq_size := ?n\<rparr>)"
    using n by (simp add: pq_pop_def ns'_def Let_def)
  have len: "?n < length ?ns" "?n < pq_size pq" using inv n by (auto simp: pq_inv_def)
  have h: "edge_ok ?ns k" if "0 < k" "k < pq_size pq" for k
    using inv that by (auto simp: pq_inv_def heap_ok_def)
  have "heap_ok ns' ?n \<and> length ns' = length ?ns \<and> mset (take ?n ns') = mset (take ?n (?ns[0 := ?l]))"
  proof (cases "?n = 0")
    case True
    then show ?thesis by (simp add: ns'_def heap_ok_def sift_down_step [of _ 0])
  next
    case False
    have "down_inv ?l ?n 0 ?ns"
      using False len h by (auto simp: down_inv_def edge_ok_def)
    from sift_down_heap [OF this] show ?thesis by (simp add: ns'_def)
  qed
  moreover have "mset (take (pq_size pq) ?ns) = add_mset (?ns ! 0) (mset (take ?n (?ns[0 := ?l])))"
  proof (cases "?n = 0")
    case True
    with n have "pq_size pq = Suc 0" by simp
    then show ?thesis using len by (cases ?ns) auto
  next
    case False
    then show ?thesis using mset_pop_root [of ?n ?ns] len n by simp
  qed
  ultimately show ?thesis using pop inv len by (auto simp: pq_inv_def tasks_def)
qed

section \<open>The queue as a multiset\<close>

datatype pq_op = Push alloc scheduler_task | Pop

fun pq_run :: "pq_op list \<Rightarrow> priority_queue \<Rightarrow> scheduler_task option list" where
  "pq_run [] pq = []"
| "pq_run (Push g t # ops) pq = None # pq_run ops (pq_push g t pq)"
| "pq_run (Pop # ops) pq = (let (r, pq1) = pq_pop pq in r # pq_run ops pq1)"

text \<open>
  The specification: a pop answers a task of least run time among those pushed and not yet
  popped, and answers nothing only if there is none. A push may lose its task only when the
  array could not be enlarged.
\<close>

fun min_trace :: "pq_op list \<Rightarrow> scheduler_task option list \<Rightarrow> scheduler_task multiset \<Rightarrow> bool" where
  "min_trace [] rs M \<longleftrightarrow> rs = []"
| "min_trace (Push g t # ops) (r # rs) M \<longleftrightarrow>
     r = None \<and> (min_trace ops rs (add_mset t M) \<or> g = None \<and> min_trace ops rs M)"
| "min_trace (Pop # ops) (r # rs) M \<longleftrightarrow>
     (case r of
        None \<Rightarrow> M = {#} \<and> min_trace ops rs M
      | Some x \<Rightarrow> x \<in># M \<and> (\<forall>y\<in>#M. next_run x \<le> next_run y) \<and> min_trace ops rs (M - {#x#}))"
| "min_trace (op # ops) [] M \<longleftrightarrow> False"

locale min_queue =
  fixes inv :: "'q \<Rightarrow> bool" and cont :: "'q \<Rightarrow> scheduler_task multiset"
    and push :: "alloc \<Rightarrow> scheduler_task \<Rightarrow> 'q \<Rightarrow> 'q" and pop :: "'q \<Rightarrow> scheduler_task option \<times> 'q"
  assumes push_law: "inv q \<Longrightarrow> inv (push g t q) \<and>
      (cont (push g t q) = add_mset t (cont q) \<or> g = None \<and> cont (push g t q) = cont q)"
    and pop_empty: "inv q \<Longrightarrow> cont q = {#} \<Longrightarrow> pop q = (None, q)"
    and pop_min: "inv q \<Longrightarrow> cont q \<noteq> {#} \<Longrightarrow> \<exists>x q'. pop q = (Some x, q') \<and> inv q' \<and>
      cont q = add_mset x (cont q') \<and> (\<forall>y\<in>#cont q. next_run x \<le> next_run y)"
begin

fun run :: "pq_op list \<Rightarrow> 'q \<Rightarrow> scheduler_task option list" where
  "run [] q = []"
| "run (Push g t # ops) q = None # run ops (push g t q)"
| "run (Pop # ops) q = (let (r, q1) = pop q in r # run ops q1)"

lemma run_min: "inv q \<Longrightarrow> min_trace ops (run ops q) (cont q)"
proof (induction ops q rule: run.induct)
  case (2 g t ops q)
  then show ?case using push_law [of q g t] by fastforce
next
  case (3 ops q)
  show ?case
  proof (cases "cont q = {#}")
    case True
    then show ?thesis using 3 pop_empty [of q] by simp
  next
    case False
    then obtain x q' where "pop q = (Some x, q')" "inv q'" "cont q = add_mset x (cont q')"
      "\<forall>y\<in>#cont q. next_run x \<le> next_run y" using pop_min [OF 3(2)] by blast
    then show ?thesis using 3 by simp
  qed
qed simp

end

lemma tasks_empty: "pq_inv pq \<Longrightarrow> tasks pq = {#} \<longleftrightarrow> pq_size pq = 0"
  by (auto simp: tasks_def pq_inv_def)

interpretation sched_heap: min_queue pq_inv tasks pq_push pq_pop
proof
  fix q g t
  assume "pq_inv q"
  then show "pq_inv (pq_push g t q) \<and>
      (tasks (pq_push g t q) = add_mset t (tasks q) \<or> g = None \<and> tasks (pq_push g t q) = tasks q)"
    using pq_push_inv [of q g t] by auto
  show "tasks q = {#} \<Longrightarrow> pq_pop q = (None, q)"
    using tasks_empty [OF \<open>pq_inv q\<close>] by (simp add: pq_pop_def)
  assume "tasks q \<noteq> {#}"
  then have "pq_size q \<noteq> 0" using tasks_empty [OF \<open>pq_inv q\<close>] by simp
  from pq_pop_inv [OF \<open>pq_inv q\<close> this] tasks_root(2) [OF \<open>pq_inv q\<close> this]
  show "\<exists>x q'. pq_pop q = (Some x, q') \<and> pq_inv q' \<and> tasks q = add_mset x (tasks q') \<and>
      (\<forall>y\<in>#tasks q. next_run x \<le> next_run y)" by blast
qed

lemma pq_run_eq: "sched_heap.run ops pq = pq_run ops pq"
  by (induction ops pq rule: pq_run.induct) (auto simp: split: prod.split)

lemma pq_create_inv: "0 < cap \<Longrightarrow> pq_create cap (Some blk) = Some pq \<Longrightarrow> pq_inv pq \<and> tasks pq = {#}"
  by (auto simp: pq_create_def pq_inv_def tasks_def heap_ok_def)

text \<open>
  C22. The scheduler heap is a priority queue. Whatever sequence of \<open>pq_push\<close> and \<open>pq_pop\<close>
  runs on a heap made by \<open>pq_create\<close>, each pop answers a task that is due first among those
  in the heap, answers nothing only when the heap is empty, and no task is lost, duplicated
  or invented; a push loses its task only when \<open>realloc\<close> fails.
\<close>

theorem scheduler_heap_correct:
  assumes "0 < cap" and "pq_create cap (Some blk) = Some pq"
  shows "min_trace ops (pq_run ops pq) {#}"
  using sched_heap.run_min [of pq ops] pq_create_inv [OF assms] by (simp add: pq_run_eq)

theorem scheduler_heap_correct_witness:
  "let t = (\<lambda>s. \<lparr>next_run = Timespec s 0, task_session_id = []\<rparr>); g = (\<lambda>i. t 0);
       ops = [Push None (t 3), Push (Some g) (t 1), Push (Some g) (t 2), Pop, Pop, Pop, Pop] in
   case pq_create 1 (Some g) of
     Some pq \<Rightarrow> min_trace ops (pq_run ops pq) {#} \<and>
       pq_run ops pq = [None, None, None, Some (t 1), Some (t 2), Some (t 3), None]
   | None \<Rightarrow> False"
proof -
  define t where "t = (\<lambda>s. \<lparr>next_run = Timespec s 0, task_session_id = []\<rparr>)"
  define g where "g = (\<lambda>i::nat. t 0)"
  let ?ops = "[Push None (t 3), Push (Some g) (t 1), Push (Some g) (t 2), Pop, Pop, Pop, Pop]"
  obtain pq where pq: "pq_create 1 (Some g) = Some pq" by (simp add: pq_create_def)
  have "min_trace ?ops (pq_run ?ops pq) {#}" by (rule scheduler_heap_correct [OF _ pq]) simp
  moreover have "pq_run ?ops (the (pq_create 1 (Some g))) =
      [None, None, None, Some (t 1), Some (t 2), Some (t 3), None]"
    unfolding g_def t_def by code_simp
  ultimately show ?thesis
    unfolding Let_def t_def [symmetric] g_def [symmetric] pq option.case option.sel by blast
qed

end
