(* ===== verification/Cbr_Timing.thy ===== *)
theory Cbr_Timing
  imports Complex_Main Sched_Heap "HOL-Library.Log_Nat"
begin

text \<open>
  The timing of constant-bit-rate traffic: \<open>add_mbps_interval_to_timespec\<close> and the catch-up
  computation of \<open>scheduler_worker_fn\<close> (\<open>chamlon_server/src/scheduler.c\<close>), and
  \<open>set_interval_from_mbps\<close>, \<open>timespec_add\<close> and \<open>timespec_cmp\<close> of
  \<open>chamlon_client/src/vpn_sender_thread.c\<close>. The C code computes with \<open>double\<close>: a value is a
  rational number, and every operation rounds its exact result to 53 significant bits, to
  nearest and ties to even, as IEEE 754 prescribes. Exponents stay far from the limits of the format, so
  overflow and subnormal numbers do not occur.
\<close>

section \<open>Double precision\<close>

definition ilog2 :: "rat \<Rightarrow> int" where
  "ilog2 x =
     (let (a, b) = quotient_of x; e = bitlen a - bitlen b
      in if 2 powi e \<le> x then e else e - 1)"

definition round_even :: "rat \<Rightarrow> int" where
  "round_even x =
     (let f = \<lfloor>x\<rfloor>; d = x - of_int f
      in if d < 1 / 2 then f else if d > 1 / 2 then f + 1 else if even f then f else f + 1)"

definition dbl :: "rat \<Rightarrow> rat" where
  "dbl x =
     (let r = (\<lambda>y. let e = ilog2 y - 52 in of_int (round_even (y / 2 powi e)) * 2 powi e)
      in if x = 0 then 0 else if x > 0 then r x else - r (- x))"

text \<open>Conversion to an unsigned or signed 64-bit integer truncates.\<close>

definition trunc :: "rat \<Rightarrow> int" where
  "trunc x = (if x < 0 then \<lceil>x\<rceil> else \<lfloor>x\<rfloor>)"

section \<open>Intervals\<close>

definition cbr_wire_len :: "int \<Rightarrow> rat" where
  "cbr_wire_len frag =
     (let payload_len = dbl (of_int (frag + 16 + 16 + 8))
      in dbl (dbl (dbl (payload_len + 14) + 20) + 8))"

definition cbr_interval_sec :: "int \<Rightarrow> int \<Rightarrow> rat" where
  "cbr_interval_sec mbps frag = dbl (dbl (cbr_wire_len frag * 8) / dbl (dbl (of_int mbps) * 1000000))"

text \<open>\<open>while (tv_nsec >= 1000000000L) { tv_sec++; tv_nsec -= 1000000000L; }\<close>\<close>

function carry_ns :: "int \<Rightarrow> int \<Rightarrow> timespec" where
  "carry_ns sec nsec =
     (if nsec \<ge> 1000000000 then carry_ns (sec + 1) (nsec - 1000000000) else Timespec sec nsec)"
  by pat_completeness auto
termination
  by (relation "measure (\<lambda>(sec, nsec). nat nsec)") auto

declare carry_ns.simps [simp del]

definition cbr_interval_ns :: "int \<Rightarrow> int \<Rightarrow> int" where
  "cbr_interval_ns mbps frag =
     (let i0 = cbr_interval_sec mbps frag;
          i1 = (if i0 < dbl (1 / 100000) then dbl (1 / 100000) else i0)
      in trunc (dbl (i1 * 1000000000)))"

definition add_mbps_interval_to_timespec :: "int \<Rightarrow> int \<Rightarrow> timespec \<Rightarrow> timespec" where
  "add_mbps_interval_to_timespec mbps frag ts =
     carry_ns (tv_sec ts) (tv_nsec ts + cbr_interval_ns mbps frag)"

text \<open>
  The part of \<open>scheduler_worker_fn\<close> that runs when a session is behind its schedule: whole
  missed intervals are skipped at once.
\<close>

definition cbr_interval_dbl :: "int \<Rightarrow> int \<Rightarrow> rat" where
  "cbr_interval_dbl mbps frag =
     (let i = dbl (cbr_interval_sec mbps frag * 1000000000) in if i < 10000 then 10000 else i)"

definition skip_missed :: "timespec \<Rightarrow> int \<Rightarrow> int \<Rightarrow> timespec \<Rightarrow> timespec" where
  "skip_missed now mbps frag nr =
     (let behind_ns = (tv_sec now - tv_sec nr) * 1000000000 + (tv_nsec now - tv_nsec nr)
      in if behind_ns > 0 then
           let interval_ns = cbr_interval_dbl mbps frag;
               skipped = trunc (dbl (dbl (of_int behind_ns) / interval_ns))
           in if skipped > 0 then
                let skip_ns = trunc (dbl (dbl (of_int skipped) * interval_ns))
                in carry_ns (tv_sec nr + skip_ns div 1000000000) (tv_nsec nr + skip_ns mod 1000000000)
              else nr
         else nr)"

section \<open>The client's interval\<close>

definition set_interval_from_mbps :: "int \<Rightarrow> int \<Rightarrow> bool \<Rightarrow> timespec" where
  "set_interval_from_mbps frag mbps include_headers =
     (let payload_len = dbl (of_int (frag + 16 + 16 + 8 + 6));
          ipv4_packet_len = dbl (dbl (dbl (payload_len + 14) + 20) + 8);
          bytes_per_pkt = (if include_headers then ipv4_packet_len else payload_len);
          bits_per_pkt = dbl (bytes_per_pkt * 8);
          i0 = dbl (bits_per_pkt / dbl (dbl (of_int mbps) * 1000000));
          i1 = (if i0 \<le> 0 then dbl (1 / 1000) else i0);
          ns = trunc (dbl (i1 * 1000000000))
      in Timespec (ns div 1000000000) (ns mod 1000000000))"

definition timespec_add :: "timespec \<Rightarrow> timespec \<Rightarrow> timespec" where
  "timespec_add ts delta =
     (let sec = tv_sec ts + tv_sec delta; nsec = tv_nsec ts + tv_nsec delta
      in if nsec \<ge> 1000000000 then Timespec (sec + 1) (nsec - 1000000000) else Timespec sec nsec)"

definition timespec_cmp :: "timespec \<Rightarrow> timespec \<Rightarrow> int" where
  "timespec_cmp a b =
     (if tv_sec a \<noteq> tv_sec b then (if tv_sec a > tv_sec b then 1 else -1)
      else if tv_nsec a \<noteq> tv_nsec b then (if tv_nsec a > tv_nsec b then 1 else -1)
      else 0)"

section \<open>Accuracy of the rounding\<close>

lemma round_even_error: "\<bar>of_int (round_even x) - x\<bar> \<le> 1 / 2"
  unfolding round_even_def Let_def using floor_correct [of x] by auto

lemma round_even_int [simp]: "round_even (of_int n) = n"
  by (simp add: round_even_def)

lemma ilog2_le:
  assumes "x > 0"
  shows "2 powi ilog2 x \<le> x"
proof -
  obtain a b where ab: "quotient_of x = (a, b)" by (cases "quotient_of x")
  have b: "b > 0" using quotient_of_denom_pos [OF ab] .
  have x: "x = of_int a / of_int b" using quotient_of_div [OF ab] .
  have a: "a > 0" using assms b unfolding x by (simp add: zero_less_divide_iff)
  have la: "2 ^ nat (bitlen a - 1) \<le> a" "bitlen a \<ge> 1"
    using bitlen_bounds [OF a] a bitlen_eq_zero_iff [of a] bitlen_nonneg [of a] by auto
  have lb: "b < 2 ^ nat (bitlen b)" "bitlen b \<ge> 0" using bitlen_bounds [OF b] bitlen_nonneg by auto
  have pa: "2 powi (bitlen a - 1) \<le> (of_int a :: rat)"
    using la by (simp add: power_int_def)
  have pb: "(of_int b :: rat) \<le> 2 powi bitlen b"
    using lb by (simp add: power_int_def)
  have "2 powi (bitlen a - bitlen b - 1) = (2 :: rat) powi (bitlen a - 1 - bitlen b)"
    by (rule arg_cong) simp
  also have "\<dots> = 2 powi (bitlen a - 1) / 2 powi bitlen b"
    by (rule power_int_diff) simp
  also have "\<dots> \<le> of_int a / of_int b"
    by (rule frac_le) (use pa pb a b in auto)
  finally show ?thesis using ab x by (simp add: ilog2_def Let_def)
qed

lemma dbl_pos: "x > 0 \<Longrightarrow> dbl x = of_int (round_even (x / 2 powi (ilog2 x - 52))) * 2 powi (ilog2 x - 52)"
  by (simp add: dbl_def Let_def)

lemma dbl_error:
  assumes "x > 0"
  shows "\<bar>dbl x - x\<bar> \<le> x / 2 ^ 53"
proof -
  define u where "u = (2 :: rat) powi (ilog2 x - 52)"
  have u: "u > 0" by (simp add: u_def)
  have ux: "u * 2 ^ 52 \<le> x"
    using ilog2_le [OF assms] by (simp add: u_def power_int_diff)
  have "dbl x - x = (of_int (round_even (x / u)) - x / u) * u"
    using u by (simp add: dbl_pos [OF assms] u_def [symmetric] field_simps)
  then have "\<bar>dbl x - x\<bar> = \<bar>of_int (round_even (x / u)) - x / u\<bar> * u"
    using u by (simp add: abs_mult)
  also have "\<dots> \<le> 1 / 2 * u"
    using round_even_error u by (intro mult_right_mono) auto
  also have "\<dots> \<le> x / 2 ^ 53" using ux by simp
  finally show ?thesis .
qed

lemma dbl_int:
  assumes "0 \<le> n" "n < 2 ^ 53"
  shows "dbl (of_int n) = of_int n"
proof (cases "n = 0")
  case True
  then show ?thesis by (simp add: dbl_def)
next
  case False
  then have pos: "(of_int n :: rat) > 0" using assms by simp
  have "(2 :: rat) powi ilog2 (of_int n) < 2 powi 53"
    using ilog2_le [OF pos] assms(2) by (simp add: le_less_trans)
  then have "\<not> 53 \<le> ilog2 (of_int n)"
    using power_int_increasing [of 53 "ilog2 (of_int n)" "2 :: rat"] by auto
  then have e: "ilog2 (of_int n) \<le> 52" by simp
  define k where "k = nat (52 - ilog2 (of_int n))"
  have u: "(2 :: rat) powi (ilog2 (of_int n) - 52) = 1 / 2 ^ k"
    using e by (simp add: k_def power_int_def divide_simps)
  have "(of_int n :: rat) / (1 / 2 ^ k) = of_int (n * 2 ^ k)" by simp
  then show ?thesis by (simp add: dbl_pos [OF pos] u del: of_int_mult) simp
qed

lemma dbl_gt_0:
  assumes "x > 0"
  shows "dbl x > 0"
proof -
  have "x / 2 ^ 53 < x" using assms by (simp add: divide_less_eq)
  then show ?thesis using dbl_error [OF assms] by linarith
qed

lemma dbl_twice:
  assumes "x > 0" "c > 0"
  shows "\<bar>dbl (dbl x * c) - x * c\<bar> \<le> 3 * (x * c) / 2 ^ 53"
proof -
  define y where "y = dbl x"
  have y: "y > 0" "\<bar>y - x\<bar> \<le> x / 2 ^ 53" using dbl_gt_0 dbl_error assms by (simp_all add: y_def)
  have yc: "y * c > 0" using y assms by simp
  have "\<bar>y * c - x * c\<bar> = \<bar>y - x\<bar> * c" using assms by (simp add: abs_mult left_diff_distrib [symmetric])
  also have "\<dots> \<le> x / 2 ^ 53 * c" using y assms by (intro mult_right_mono) auto
  finally have 1: "\<bar>y * c - x * c\<bar> \<le> x * c / 2 ^ 53" by simp
  have "x * c / 2 ^ 53 \<le> x * c" using assms by (simp add: divide_le_eq)
  with 1 have 2: "y * c \<le> 2 * (x * c)" by linarith
  have "\<bar>dbl (y * c) - y * c\<bar> \<le> 2 * (x * c) / 2 ^ 53"
    by (rule order_trans [OF dbl_error [OF yc] divide_right_mono [OF 2]]) simp
  with 1 show ?thesis unfolding y_def [symmetric] by linarith
qed

section \<open>Time arithmetic\<close>

definition ts_ns :: "timespec \<Rightarrow> int" where
  "ts_ns t = tv_sec t * 1000000000 + tv_nsec t"

definition ts_ok :: "timespec \<Rightarrow> bool" where
  "ts_ok t \<longleftrightarrow> 0 \<le> tv_nsec t \<and> tv_nsec t < 1000000000"

lemma carry_ns_ns: "ts_ns (carry_ns sec nsec) = sec * 1000000000 + nsec"
  by (induction sec nsec rule: carry_ns.induct) (subst carry_ns.simps, simp add: ts_ns_def)

lemma carry_ns_ok: "0 \<le> nsec \<Longrightarrow> ts_ok (carry_ns sec nsec)"
  by (induction sec nsec rule: carry_ns.induct) (subst carry_ns.simps, simp add: ts_ok_def)

lemma ts_ok_nonneg: "ts_ok t \<Longrightarrow> 0 \<le> tv_nsec t"
  by (simp add: ts_ok_def)

lemma ts_less: "ts_ok a \<Longrightarrow> ts_ok b \<Longrightarrow> a < b \<longleftrightarrow> ts_ns a < ts_ns b"
  by (cases a; cases b) (auto simp: less_timespec_def timespec_compare_def ts_ok_def ts_ns_def)

lemma timespec_add_ns: "ts_ns (timespec_add a b) = ts_ns a + ts_ns b"
  by (simp add: timespec_add_def ts_ns_def Let_def)

lemma timespec_add_ok: "ts_ok a \<Longrightarrow> ts_ok b \<Longrightarrow> ts_ok (timespec_add a b)"
  by (auto simp: timespec_add_def ts_ok_def Let_def)

section \<open>The interval of a constant-bit-rate session\<close>

lemma wire_len_exact:
  assumes "0 \<le> f" "f \<le> 65536"
  shows "cbr_wire_len f = of_int (f + 82)"
proof -
  have 1: "dbl (of_int (f + 16 + 16 + 8)) = of_int (f + 40)" using assms by (subst dbl_int) auto
  have 2: "dbl (of_int (f + 40) + 14) = of_int (f + 54)"
    using dbl_int [of "f + 54"] assms by (simp add: algebra_simps)
  have 3: "dbl (of_int (f + 54) + 20) = of_int (f + 74)"
    using dbl_int [of "f + 74"] assms by (simp add: algebra_simps)
  have 4: "dbl (of_int (f + 74) + 8) = of_int (f + 82)"
    using dbl_int [of "f + 82"] assms by (simp add: algebra_simps)
  show ?thesis unfolding cbr_wire_len_def Let_def 1 2 3 4 ..
qed

lemma interval_sec_exact:
  assumes "f \<in> {0..65536}" "m \<in> {1..1000}"
  shows "cbr_interval_sec m f = dbl (of_int (8 * (f + 82)) / of_int (1000000 * m))"
proof -
  have f: "0 \<le> f" "f \<le> 65536" and m: "1 \<le> m" "m \<le> 1000" using assms by auto
  have 1: "dbl (of_int (f + 82) * 8) = of_int (8 * (f + 82))"
    using dbl_int [of "8 * (f + 82)"] f by (simp add: algebra_simps)
  have 2: "dbl (of_int m) = of_int m" using m by (intro dbl_int) auto
  have 3: "dbl (of_int m * 1000000) = of_int (1000000 * m)"
    using dbl_int [of "1000000 * m"] m by (simp add: algebra_simps)
  show ?thesis unfolding cbr_interval_sec_def wire_len_exact [OF f] 1 2 3 ..
qed

lemma interval_dbl_error:
  assumes "f \<in> {0..65536}" "m \<in> {1..1000}"
  shows "\<bar>dbl (cbr_interval_sec m f * 1000000000) - of_int (8000 * (f + 82)) / of_int m\<bar> \<le> 1 / 2 ^ 20"
proof -
  let ?x = "of_int (8 * (f + 82)) / of_int (1000000 * m) :: rat"
  have f: "0 \<le> f" "f \<le> 65536" and m: "1 \<le> m" "m \<le> 1000" using assms by auto
  have x: "?x > 0" using f m by simp
  have eq: "?x * 1000000000 = of_int (8000 * (f + 82)) / of_int m" using m by (simp add: field_simps)
  have "of_int (8000 * (f + 82)) / (of_int m :: rat) \<le> of_int (8000 * (f + 82)) / 1"
    using f m by (intro divide_left_mono) auto
  also have "\<dots> \<le> of_int (2 ^ 30)" unfolding div_by_1 of_int_le_iff using f by simp
  finally have le: "?x * 1000000000 \<le> 2 ^ 30" unfolding eq by simp
  have "3 * z / 2 ^ 53 \<le> 1 / 2 ^ 20" if "z \<le> 2 ^ 30" for z :: rat using that by simp
  from this [OF le] have "3 * (?x * 1000000000) / 2 ^ 53 \<le> 1 / 2 ^ 20" .
  then show ?thesis using dbl_twice [OF x, of 1000000000]
    unfolding interval_sec_exact [OF assms] eq [symmetric] by linarith
qed

lemma interval_ns_bounds:
  assumes "f \<in> {64..1200}" "m \<in> {1..15}"
  shows "\<bar>m * cbr_interval_ns m f - 8000 * (f + 82)\<bar> \<le> m" "77000 \<le> cbr_interval_ns m f"
proof -
  have f: "64 \<le> f" "f \<le> 1200" and m: "1 \<le> m" "m \<le> 15" using assms by auto
  define X where "X = of_int (8000 * (f + 82)) / (of_int m :: rat)"
  define z where "z = dbl (cbr_interval_sec m f * 1000000000)"
  have "\<bar>z - X\<bar> \<le> 1 / 2 ^ 20"
    using interval_dbl_error [of f m] assms unfolding z_def X_def by auto
  then have z: "\<bar>z - X\<bar> \<le> 1 / 1000000" by (rule order_trans) simp
  define x where "x = (of_int (8 * (f + 82)) / of_int (1000000 * m) :: rat)"
  have "of_int (8 * (64 + 82)) / of_int (1000000 * 15) \<le> x"
    unfolding x_def by (intro frac_le) (use f m in auto)
  then have x: "7786 / 100000000 \<le> x" by simp
  have "1 / 100000 + 1 / 100000 / 2 ^ 53 < x - x / 2 ^ 53" using x by simp
  moreover have "\<bar>dbl (1 / 100000) - 1 / 100000\<bar> \<le> 1 / 100000 / 2 ^ 53" by (rule dbl_error) simp
  moreover have "\<bar>dbl x - x\<bar> \<le> x / 2 ^ 53" using x by (intro dbl_error) simp
  ultimately have "dbl (1 / 100000) < dbl x" by linarith
  then have ns: "cbr_interval_ns m f = trunc z"
    using interval_sec_exact [of f m] assms unfolding cbr_interval_ns_def Let_def z_def x_def by auto
  have Xm: "of_int m * X = of_int (8000 * (f + 82))" using m by (simp add: X_def)
  have "of_int 1168000 / of_int 15 \<le> X" unfolding X_def by (intro frac_le) (use f m in auto)
  then have X: "77866 \<le> X" by simp
  have zpos: "z > 0" using z X by linarith
  then have fl: "of_int (trunc z) \<le> z" "z < of_int (trunc z) + 1"
    using floor_correct [of z] by (auto simp: trunc_def)
  have "(77000 :: rat) \<le> of_int (trunc z)" using fl z X by linarith
  then show "77000 \<le> cbr_interval_ns m f" by (simp add: ns)
  have lo: "X - 1 - 1 / 1000000 < of_int (trunc z)" and hi: "of_int (trunc z) \<le> X + 1 / 1000000"
    using fl z by linarith+
  have m1: "(of_int m :: rat) \<le> 15" "1 \<le> (of_int m :: rat)" using m by auto
  have "of_int m * (X - 1 - 1 / 1000000) < of_int m * of_int (trunc z)"
    using lo m1 by (intro mult_strict_left_mono) auto
  moreover have "of_int m * of_int (trunc z) \<le> of_int m * (X + 1 / 1000000)"
    using hi m1 by (intro mult_left_mono) auto
  ultimately have "of_int (8000 * (f + 82)) - of_int m - 1 < (of_int (m * trunc z) :: rat)"
    "(of_int (m * trunc z) :: rat) < of_int (8000 * (f + 82)) + 1"
    using m1 unfolding right_diff_distrib distrib_left Xm of_int_mult [symmetric] by linarith+
  then have "of_int (8000 * (f + 82) - m - 1) < (of_int (m * trunc z) :: rat)"
    "(of_int (m * trunc z) :: rat) < of_int (8000 * (f + 82) + 1)" by simp_all
  then have "8000 * (f + 82) - m - 1 < m * trunc z" "m * trunc z < 8000 * (f + 82) + 1"
    unfolding of_int_less_iff by simp_all
  then show "\<bar>m * cbr_interval_ns m f - 8000 * (f + 82)\<bar> \<le> m"
    using m unfolding ns by linarith
qed

lemma floor_bounds:
  assumes "(0 :: rat) \<le> x"
  shows "of_int (trunc x) \<le> x" "x < of_int (trunc x) + 1" "0 \<le> trunc x"
  using floor_correct [of x] assms by (auto simp: trunc_def)

lemma quotient_error:
  fixes I b :: rat
  assumes I: "10000 \<le> I" and b: "0 < b" "b < 2 ^ 53"
  shows "\<bar>dbl (b / I) * I - b\<bar> \<le> 1" "0 \<le> dbl (b / I)"
proof -
  have bI: "b / I > 0" using I b by simp
  have "\<bar>dbl (b / I) - b / I\<bar> * I \<le> b / I / 2 ^ 53 * I"
    using dbl_error [OF bI] I by (intro mult_right_mono) auto
  also have "\<dots> = b / 2 ^ 53" using I by simp
  also have "\<dots> \<le> 1" using b by simp
  finally show "\<bar>dbl (b / I) * I - b\<bar> \<le> 1"
    using I by (simp add: abs_mult_pos left_diff_distrib [symmetric] abs_mult [symmetric])
      (simp add: left_diff_distrib)
  show "0 \<le> dbl (b / I)" using dbl_gt_0 [OF bI] by simp
qed

text \<open>Skipping whole intervals: what is left of the delay, in nanoseconds.\<close>

lemma skipped_time:
  fixes I b :: rat
  assumes I: "10000 \<le> I" and b: "0 < b" "b < 2 ^ 53"
    and k: "k = trunc (dbl (b / I))" "0 < k" and d: "d = trunc (dbl (dbl (of_int k) * I))"
  shows "of_int d \<le> b + 3" "b - I - 4 < of_int d" "0 \<le> d"
proof -
  define q where "q = dbl (b / I)"
  note q = quotient_error [OF I b, folded q_def]
  have kq: "of_int k \<le> q" "q < of_int k + 1" using floor_bounds [OF q(2)] k by (auto simp: q_def)
  have qI: "q * I \<le> b + 1" "b - 1 \<le> q * I" using q(1) by linarith+
  have kI: "of_int k * I \<le> q * I" using kq I by (intro mult_right_mono) auto
  have kI': "q * I < (of_int k + 1) * I" using kq I by (intro mult_strict_right_mono) auto
  have "of_int k * 10000 \<le> of_int k * I" using I k(2) by (intro mult_left_mono) auto
  then have "(of_int k :: rat) < of_int (2 ^ 53)" using kI qI b by simp
  then have dk: "dbl (of_int k) = of_int k" using k(2) by (intro dbl_int) (auto simp only: of_int_less_iff)
  define s where "s = dbl (of_int k * I)"
  have pos: "of_int k * I > 0" using k(2) I by simp
  have "\<bar>s - of_int k * I\<bar> \<le> of_int k * I / 2 ^ 53" unfolding s_def by (rule dbl_error [OF pos])
  also have "\<dots> \<le> 2" using kI qI b by simp
  finally have s: "\<bar>s - of_int k * I\<bar> \<le> 2" .
  have spos: "0 \<le> s" using dbl_gt_0 [OF pos] by (simp add: s_def)
  have ds: "of_int d \<le> s" "s < of_int d + 1" "0 \<le> d" using floor_bounds [OF spos] d dk by (auto simp: s_def)
  have "(of_int k + 1) * I = of_int k * I + I" by (simp add: distrib_right)
  then show "of_int d \<le> b + 3" "b - I - 4 < of_int d" using ds s kI kI' qI by linarith+
  show "0 \<le> d" by (rule ds)
qed

lemma interval_dbl_range:
  assumes "f \<in> {64..1200}" "m \<in> {1..15}"
  shows "10000 \<le> cbr_interval_dbl m f" "cbr_interval_dbl m f < of_int (cbr_interval_ns m f) + 2"
proof -
  have f: "64 \<le> f" "f \<le> 1200" and m: "1 \<le> m" "m \<le> 15" using assms by auto
  define z where "z = dbl (cbr_interval_sec m f * 1000000000)"
  define X where "X = of_int (8000 * (f + 82)) / (of_int m :: rat)"
  have "\<bar>z - X\<bar> \<le> 1 / 2 ^ 20"
    using interval_dbl_error [of f m] assms unfolding z_def X_def by auto
  then have z: "\<bar>z - X\<bar> \<le> 1 / 1000000" by (rule order_trans) simp
  have "of_int 1168000 / of_int 15 \<le> X" unfolding X_def by (intro frac_le) (use f m in auto)
  then have X: "77866 \<le> X" by simp
  have "m * cbr_interval_ns m f \<ge> 8000 * (f + 82) - m" using interval_ns_bounds(1) [OF assms] by linarith
  then have "of_int (8000 * (f + 82) - m) \<le> (of_int (m * cbr_interval_ns m f) :: rat)" by (simp only: of_int_le_iff)
  then have "of_int (8000 * (f + 82) - m) / of_int m \<le> (of_int (m * cbr_interval_ns m f) / of_int m :: rat)"
    by (rule divide_right_mono) (use m in simp)
  then have ns: "X - 1 \<le> of_int (cbr_interval_ns m f)" using m by (simp add: X_def diff_divide_distrib)
  have "\<not> z < 10000" using z X by linarith
  then have "cbr_interval_dbl m f = z" by (simp add: cbr_interval_dbl_def z_def Let_def)
  then show "10000 \<le> cbr_interval_dbl m f" "cbr_interval_dbl m f < of_int (cbr_interval_ns m f) + 2"
    using z X ns by linarith+
qed

lemma skip_missed_bounds:
  assumes "f \<in> {64..1200}" "m \<in> {1..15}" "ts_ok nr" "ts_ns now - ts_ns nr < 2 ^ 53"
  shows "ts_ns now - ts_ns (skip_missed now m f nr) \<le> cbr_interval_ns m f + 6"
    and "ts_ns nr \<le> ts_ns (skip_missed now m f nr)"
    and "ts_ns (skip_missed now m f nr) \<le> max (ts_ns nr) (ts_ns now + 3)"
    and "ts_ok (skip_missed now m f nr)"
proof -
  define B where "B = ts_ns now - ts_ns nr"
  define I where "I = cbr_interval_dbl m f"
  define k where "k = trunc (dbl (of_int B / I))"
  define d where "d = trunc (dbl (dbl (of_int k) * I))"
  note I = interval_dbl_range [OF assms(1,2), folded I_def]
  have behind: "(tv_sec now - tv_sec nr) * 1000000000 + (tv_nsec now - tv_nsec nr) = B"
    by (simp add: B_def ts_ns_def algebra_simps)
  have dB: "dbl (of_int B) = of_int B" if "0 < B" using that assms(4) by (intro dbl_int) (auto simp: B_def)
  have eq: "skip_missed now m f nr =
    (if 0 < B \<and> 0 < k
     then carry_ns (tv_sec nr + d div 1000000000) (tv_nsec nr + d mod 1000000000) else nr)"
    unfolding skip_missed_def behind Let_def I_def [symmetric] using dB
    by (auto simp: k_def d_def)
  have carry: "ts_ns (carry_ns (tv_sec nr + d div 1000000000) (tv_nsec nr + d mod 1000000000)) = ts_ns nr + d"
    by (subst carry_ns_ns) (use div_mult_mod_eq [of d 1000000000] in \<open>simp add: ts_ns_def algebra_simps\<close>)
  have ns: "ts_ns (skip_missed now m f nr) = ts_ns nr + (if 0 < B \<and> 0 < k then d else 0)"
    using carry unfolding eq by simp
  have Bq: "of_int B < (2 ^ 53 :: rat)"
    using assms(4) unfolding B_def [symmetric] by (metis of_int_less_iff of_int_numeral of_int_power)
  have small: "of_int B < I + 2" if "0 < B" "\<not> 0 < k"
  proof -
    have B0: "(0 :: rat) < of_int B" using that by simp
    note q = quotient_error [OF I(1) B0 Bq]
    have "dbl (of_int B / I) < 1" using floor_bounds(2) [OF q(2)] that(2) unfolding k_def [symmetric]
      by (auto intro: less_le_trans)
    then have "dbl (of_int B / I) * I < 1 * I" using I(1) by (intro mult_strict_right_mono) auto
    then show ?thesis using q(1) by linarith
  qed
  have skip: "of_int d \<le> (of_int (B + 3) :: rat)" "of_int (B - 4) - I < of_int d" "0 \<le> d" if "0 < B" "0 < k"
    using skipped_time [OF I(1) _ Bq k_def that(2) d_def] that(1) by simp_all
  show "ts_ok (skip_missed now m f nr)"
    unfolding eq using assms(3) ts_ok_nonneg [OF assms(3)] by (auto intro!: carry_ns_ok)
  show "ts_ns nr \<le> ts_ns (skip_missed now m f nr)" unfolding ns using skip(3) by simp
  show "ts_ns (skip_missed now m f nr) \<le> max (ts_ns nr) (ts_ns now + 3)"
    unfolding ns using skip(1) by (auto simp: B_def)
  have "of_int (B - (if 0 < B \<and> 0 < k then d else 0)) < (of_int (cbr_interval_ns m f + 7) :: rat)"
  proof (cases "0 < B")
    case True
    then show ?thesis using small skip(2) I(2) by (cases "0 < k") auto
  next
    case False
    then have "(of_int B :: rat) \<le> 0" by simp
    moreover have "(0 :: rat) \<le> of_int (cbr_interval_ns m f)" using interval_ns_bounds(2) [OF assms(1,2)] by simp
    ultimately show ?thesis using False by simp
  qed
  then show "ts_ns now - ts_ns (skip_missed now m f nr) \<le> cbr_interval_ns m f + 6"
    unfolding ns of_int_less_iff by (simp add: B_def)
qed

lemma add_interval_ns: "ts_ns (add_mbps_interval_to_timespec m f ts) = ts_ns ts + cbr_interval_ns m f"
  unfolding add_mbps_interval_to_timespec_def by (subst carry_ns_ns) (simp add: ts_ns_def)

lemma add_interval_ok:
  assumes "f \<in> {64..1200}" "m \<in> {1..15}" "ts_ok ts"
  shows "ts_ok (add_mbps_interval_to_timespec m f ts)"
  unfolding add_mbps_interval_to_timespec_def
  by (rule carry_ns_ok) (use interval_ns_bounds(2) [OF assms(1,2)] ts_ok_nonneg [OF assms(3)] in simp)



text \<open>A session that fell behind (by less than \<open>2 ^ 53\<close> nanoseconds) catches up in one
  step: after the missed intervals are skipped its deadline lies less than one interval and a few
  nanoseconds in the past, never earlier than before, and never more than three nanoseconds beyond the present unless it was
  there already, so no burst follows.\<close>

lemma cbr_catches_up:
  assumes "f \<in> {64..1200}" "m \<in> {1..15}" "ts_ok ts" "ts_ns now - ts_ns ts < 2 ^ 53"
  shows "let nr = add_mbps_interval_to_timespec m f ts; nr' = skip_missed now m f nr
    in ts_ns now - ts_ns nr' \<le> cbr_interval_ns m f + 6 \<and> ts_ns nr \<le> ts_ns nr' \<and>
       ts_ns nr' \<le> max (ts_ns nr) (ts_ns now + 3)"
proof -
  define nr where "nr = add_mbps_interval_to_timespec m f ts"
  have nr: "ts_ns nr = ts_ns ts + cbr_interval_ns m f" unfolding nr_def by (rule add_interval_ns)
  have ns: "77000 \<le> cbr_interval_ns m f" by (rule interval_ns_bounds [OF assms(1,2)])
  have ok: "ts_ok nr" unfolding nr_def by (rule add_interval_ok [OF assms(1-3)])
  have "ts_ns now - ts_ns nr < 2 ^ 53" using assms(4) nr ns by linarith
  from skip_missed_bounds [OF assms(1,2) ok this] show ?thesis by (simp add: nr_def Let_def)
qed

end
