(* ===== verification/Scheduler.thy ===== *)
theory Scheduler
  imports Session Cbr_Timing
begin

text \<open>
  The send scheduler of \<open>chamlon_server/src/scheduler.c\<close> above its heap (\<open>Sched_Heap\<close>), its
  clock arithmetic (\<open>Cbr_Timing\<close>) and the output queues (\<open>Out_Queue\<close>): what a worker sends when
  the task of a session comes due (\<open>execute_send\<close>), one round of \<open>scheduler_worker_fn\<close>,
  \<open>scheduler_add_session\<close> and \<open>init_global_scheduler\<close>. The main results are that a
  constant-bit-rate session emits one packet of constant size per round, whether or not
  there is traffic, and that a round keeps every other task and re-inserts its own.
\<close>

section \<open>Sending\<close>

text \<open>The loop \<open>while ((node = out_queue_pop(s->outq)) != NULL)\<close>.\<close>

function drain_lanes :: "packet_lanes \<Rightarrow> out_node list \<times> packet_lanes" where
  "drain_lanes q =
     (case lanes_pop q of
        (None, q1) \<Rightarrow> ([], q1)
      | (Some x, q1) \<Rightarrow> (let (xs, q2) = drain_lanes q1 in (x # xs, q2)))"
  by pat_completeness auto
termination
  by (relation "measure lanes_size")
    (auto simp: lanes_pop_def lanes_size_def split: list.splits)

declare drain_lanes.simps [simp del]

text \<open>
  The body of \<open>execute_send\<close> on the session it found. A null queue is dereferenced by
  \<open>out_queue_pop\<close>; that and every access outside a buffer is \<open>None\<close>. \<open>now\<close> is \<open>time(NULL)\<close>.
\<close>

definition send_for_session ::
  "aead_fn \<Rightarrow> bytes \<Rightarrow> time_t \<Rightarrow> session \<Rightarrow> (bool \<times> datagram list \<times> session) option" where
  "send_for_session enc stk now s =
     (case outq s of
        None \<Rightarrow> None
      | Some q \<Rightarrow>
          if argv_CBR s = char_Y then
            (case lanes_pop q of
               (Some node, q1) \<Rightarrow> Some (True, [(client_addr s, pkt node)], s\<lparr>outq := Some q1\<rparr>)
             | (None, q1) \<Rightarrow>
                 let sq = send_seq s;
                     s1 = s\<lparr>outq := Some q1, send_seq := sq + 1\<rparr>;
                     n = size_t_of_int (argv_FRAG s1)
                 in if n > length (dummy_payload s1) then None
                    else
                      (case aead_encrypt enc (k_send s1) (session_id s1) sq (take n (dummy_payload s1)) of
                         None \<Rightarrow> Some (False, [], s1)
                       | Some out \<Rightarrow>
                           let ptr = static_hdr_len s1; total_len = ptr + 8 + length out
                           in if length out > BUFFER_SIZE \<or> total_len > length (final_pkt_dummy s1) then None
                              else
                                let p0 = memcpy_at (final_pkt_dummy s1) ptr (be64 sq);
                                    p1 = memcpy_at p0 (ptr + 8) out
                                in Some (False, [(client_addr s1, take total_len p1)],
                                         s1\<lparr>final_pkt_dummy := p1\<rparr>)))
          else
            let (ns, q1) = drain_lanes q;
                s1 = s\<lparr>outq := Some q1\<rparr>
            in if ns \<noteq> [] then Some (True, map (\<lambda>node. (client_addr s1, pkt node)) ns, s1)
               else if now - last_activity s1 \<ge> KEEPALIVE_INTERVAL_SEC \<and>
                       now - last_activity_keepalive s1 \<ge> KEEPALIVE_INTERVAL_SEC
               then (case send_control_packet enc stk (ucast PKT_CTRL_KEEPALIVE) s1 of
                       None \<Rightarrow> None
                     | Some (ds, s2) \<Rightarrow> Some (False, ds, s2\<lparr>last_activity_keepalive := now\<rparr>))
               else Some (False, [], s1))"

definition execute_send ::
  "aead_fn \<Rightarrow> bytes \<Rightarrow> time_t \<Rightarrow> bytes \<Rightarrow> session list \<Rightarrow>
   (bool \<times> datagram list \<times> session list) option" where
  "execute_send enc stk now sid tbl =
     (case session_by_id sid tbl of
        None \<Rightarrow> Some (False, [], tbl)
      | Some i \<Rightarrow>
          (case send_for_session enc stk now (tbl ! i) of
             None \<Rightarrow> None
           | Some (sent_real, ds, s1) \<Rightarrow> Some (sent_real, ds, tbl[i := s1])))"

section \<open>Worker\<close>

definition NUM_SHARDS :: nat where [config_defs]: "NUM_SHARDS = 4"

text \<open>A shard; its queue pointer is null until \<open>init_global_scheduler\<close> creates it.\<close>

record global_scheduler =
  sh_pq :: "priority_queue option"
  running :: bool

text \<open>Under the lock, after the sleep: take the first task if it is due.\<close>

definition worker_pop :: "timespec \<Rightarrow> priority_queue \<Rightarrow> scheduler_task option \<times> priority_queue" where
  "worker_pop now pq =
     (if pq_is_empty pq then (None, pq)
      else
        (case pq_peek pq of
           None \<Rightarrow> (None, pq)
         | Some task \<Rightarrow>
             if timespec_compare now (next_run task) < 0 then (None, pq) else pq_pop pq))"

definition reschedule :: "timespec \<Rightarrow> session \<Rightarrow> scheduler_task \<Rightarrow> scheduler_task" where
  "reschedule now s task =
     (if argv_CBR s = char_Y then
        let nr = add_mbps_interval_to_timespec (argv_MBPS s) (argv_FRAG s) (next_run task)
        in task\<lparr>next_run := skip_missed now (argv_MBPS s) (argv_FRAG s) nr\<rparr>
      else task\<lparr>next_run := Timespec (tv_sec now + KEEPALIVE_INTERVAL_SEC) (tv_nsec now)\<rparr>)"

text \<open>
  One round of the loop of \<open>scheduler_worker_fn\<close>: \<open>now1\<close> and \<open>now2\<close> are the two readings of the
  monotonic clock, \<open>grow\<close> the outcome of the \<open>realloc\<close> in \<open>pq_push\<close>. A task whose session is gone is freed.
\<close>

definition worker_round ::
  "aead_fn \<Rightarrow> bytes \<Rightarrow> time_t \<Rightarrow> timespec \<Rightarrow> timespec \<Rightarrow> alloc \<Rightarrow> priority_queue \<Rightarrow> session list \<Rightarrow>
   (scheduler_task option \<times> datagram list \<times> priority_queue \<times> session list) option" where
  "worker_round enc stk now now1 now2 grow pq tbl =
     (case worker_pop now1 pq of
        (None, pq1) \<Rightarrow> Some (None, [], pq1, tbl)
      | (Some task, pq1) \<Rightarrow>
          (case execute_send enc stk now (task_session_id task) tbl of
             None \<Rightarrow> None
           | Some (sent_real, ds, tbl1) \<Rightarrow>
               (case session_by_id (task_session_id task) tbl1 of
                  None \<Rightarrow> Some (Some task, ds, pq1, tbl1)
                | Some i \<Rightarrow>
                    Some (Some task, ds, pq_push grow (reschedule now2 (tbl1 ! i) task) pq1, tbl1))))"

section \<open>Lifecycle\<close>

definition scheduler_add_session ::
  "bool \<Rightarrow> alloc \<Rightarrow> timespec \<Rightarrow> bytes \<Rightarrow> global_scheduler list \<Rightarrow> global_scheduler list option" where
  "scheduler_add_session mem grow now sid shs =
     (if \<not> mem then Some shs
      else
        let task = \<lparr>next_run = now, task_session_id = take SESSION_ID_LEN sid\<rparr>;
            shard_idx = unat (sid ! 0) mod NUM_SHARDS
        in case sh_pq (shs ! shard_idx) of
             None \<Rightarrow> None
           | Some pq \<Rightarrow> Some (shs[shard_idx := (shs ! shard_idx)\<lparr>sh_pq := Some (pq_push grow task pq)\<rparr>]))"

text \<open>
  The loop of \<open>init_global_scheduler\<close>; for every shard, the outcome of its allocation and of
  its \<open>pthread_create\<close>. A failure ends the loop.
\<close>

fun init_shards :: "nat \<Rightarrow> (alloc \<times> bool) list \<Rightarrow> global_scheduler list \<Rightarrow> global_scheduler list" where
  "init_shards cap ((mem, thr) # outs) (sh # shs) =
     (case pq_create cap mem of
        None \<Rightarrow> sh\<lparr>sh_pq := None\<rparr> # shs
      | Some pq \<Rightarrow>
          if thr then sh\<lparr>sh_pq := Some pq, running := True\<rparr> # init_shards cap outs shs
          else sh\<lparr>sh_pq := Some pq, running := False\<rparr> # shs)"
| "init_shards cap _ shs = shs"

definition init_global_scheduler :: "int \<Rightarrow> (alloc \<times> bool) list \<Rightarrow> global_scheduler list" where
  "init_global_scheduler initial_capacity outs =
     (let cap = (if initial_capacity < 128 \<or> initial_capacity > 65536 then 1024 else initial_capacity)
      in init_shards (nat cap) outs (replicate NUM_SHARDS \<lparr>sh_pq = None, running = False\<rparr>))"

section \<open>What a session sends\<close>

lemma drain_lanes_eq: "drain_lanes q = (high q @ normal q, lanes_empty)"
proof (induction q rule: drain_lanes.induct)
  case (1 q)
  show ?case
  proof (cases "high q")
    case Nil
    show ?thesis
      using Nil 1 by (subst drain_lanes.simps) (cases "normal q"; simp add: lanes_pop_def lanes_empty_def)
  next
    case (Cons x xs)
    then show ?thesis using 1 by (subst drain_lanes.simps) (simp add: lanes_pop_def)
  qed
qed

text \<open>
  In a constant-bit-rate session every queued packet has the size of a full fragment on the
  wire: header, session identifier, sequence number, \<open>argv_FRAG\<close> bytes and the tag.
\<close>

definition cbr_wire :: "session \<Rightarrow> nat" where
  "cbr_wire s = DATA_HEADER_LEN + nat (argv_FRAG s) + MAC_LEN"

definition queued :: "session \<Rightarrow> out_node list" where
  "queued s = (case outq s of None \<Rightarrow> [] | Some q \<Rightarrow> high q @ normal q)"

definition cbr_queue :: "session \<Rightarrow> bool" where
  "cbr_queue s \<longleftrightarrow> (argv_CBR s = char_Y \<longrightarrow> (\<forall>x\<in>set (queued s). length (pkt x) = cbr_wire s))"

definition dummy_packet :: "aead_fn \<Rightarrow> session \<Rightarrow> datagram list" where
  "dummy_packet enc s =
     (case aead_encrypt enc (k_send s) (session_id s) (send_seq s) (dummy_plain (nat (argv_FRAG s))) of
        None \<Rightarrow> []
      | Some out \<Rightarrow> [(client_addr s, data_packet (session_id s) (send_seq s) out)])"

lemma slot_active:
  assumes "slot_ok i s" "active s"
  shows "session_shape s" "params_ok s" "dummy_ok s" "vpn_ip s = vpn_addr i"
  using assms by (simp_all add: slot_ok_def)

lemma dummy_sent:
  assumes ok: "slot_ok i s" "active s" and enc: "aead_len enc"
    and cbr: "argv_CBR s = char_Y" "outq s = Some q" "lanes_pop q = (None, q1)"
  obtains fp where "send_for_session enc stk now s =
      Some (False, dummy_packet enc s,
            s\<lparr>outq := Some q1, send_seq := send_seq s + 1, final_pkt_dummy := fp\<rparr>)"
    and "length fp = MAX_FRAG" "take 22 fp = take 22 (final_pkt_dummy s)"
proof -
  note s = slot_active [OF ok]
  define n where "n = nat (argv_FRAG s)"
  note f = params_frag [OF s(2), folded n_def]
  have len: "length (dummy_payload s) = 1600" "length (final_pkt_dummy s) = 1600" "length (session_id s) = 16"
    using s(1) by (simp_all add: session_shape_def config_defs)
  have d: "static_hdr_len s = 22" "take n (dummy_payload s) = dummy_plain n"
    "take 22 (final_pkt_dummy s) = proto_header_bytes data_header @ session_id s"
    using s(3) by (auto simp: dummy_ok_def config_defs n_def)
  show ?thesis
  proof (cases "aead_encrypt enc (k_send s) (session_id s) (send_seq s) (dummy_plain n)")
    case None
    show ?thesis
      by (rule that [of "final_pkt_dummy s"])
        (use None f len d cbr in \<open>simp_all add: send_for_session_def dummy_packet_def Let_def config_defs n_def [symmetric]\<close>)
  next
    case (Some out)
    have out: "length out = n + 16" using aead_encrypt_len [OF enc Some] f by (simp add: dummy_plain_length)
    define fp where "fp = memcpy_at (memcpy_at (final_pkt_dummy s) 22 (be64 (send_seq s))) 30 out"
    have fp: "take (30 + length out) fp = data_packet (session_id s) (send_seq s) out"
      "length fp = 1600" "take 22 fp = take 22 (final_pkt_dummy s)"
      using len d(3) out f by (simp_all add: fp_def memcpy_at_def data_packet_def)
    show ?thesis
      by (rule that [of fp])
        (use Some f len d cbr out fp in \<open>simp_all add: send_for_session_def dummy_packet_def Let_def config_defs
          n_def [symmetric] fp_def [symmetric]\<close>)
  qed
qed

text \<open>
  Every case of \<open>send_for_session\<close> on a session in use, and what it leaves: the slot stays
  well-formed, and the packets in the queue stay of constant size.
\<close>

lemma send_for_session_cases:
  assumes ok: "slot_ok i s" "active s" and enc: "aead_len enc" "length stk = 16" and q: "outq s = Some q"
  obtains (real) x q1 where "argv_CBR s = char_Y" "lanes_pop q = (Some x, q1)"
      "send_for_session enc stk now s = Some (True, [(client_addr s, pkt x)], s\<lparr>outq := Some q1\<rparr>)"
  | (dummy) q1 fp where "argv_CBR s = char_Y" "lanes_pop q = (None, q1)"
      "send_for_session enc stk now s = Some (False, dummy_packet enc s,
         s\<lparr>outq := Some q1, send_seq := send_seq s + 1, final_pkt_dummy := fp\<rparr>)"
      "length fp = MAX_FRAG" "take 22 fp = take 22 (final_pkt_dummy s)"
  | (drained) "argv_CBR s \<noteq> char_Y" "high q @ normal q \<noteq> []"
      "send_for_session enc stk now s =
         Some (True, map (\<lambda>x. (client_addr s, pkt x)) (high q @ normal q), s\<lparr>outq := Some lanes_empty\<rparr>)"
  | (keepalive) ds where "argv_CBR s \<noteq> char_Y" "high q @ normal q = []"
      "now - last_activity s \<ge> 10" "now - last_activity_keepalive s \<ge> 10"
      "send_for_session enc stk now s =
         Some (False, ds, s\<lparr>outq := Some lanes_empty, send_seq := send_seq s + 1, last_activity_keepalive := now\<rparr>)"
  | (idle) "argv_CBR s \<noteq> char_Y" "high q @ normal q = []"
      "\<not> (now - last_activity s \<ge> 10 \<and> now - last_activity_keepalive s \<ge> 10)"
      "send_for_session enc stk now s = Some (False, [], s\<lparr>outq := Some lanes_empty\<rparr>)"
proof (cases "argv_CBR s = char_Y")
  case True
  obtain x q1 where pop: "lanes_pop q = (x, q1)" by (cases "lanes_pop q")
  show ?thesis
  proof (cases x)
    case None
    from dummy_sent [OF ok enc(1) True q pop [unfolded None]]
    obtain fp where "send_for_session enc stk now s = Some (False, dummy_packet enc s,
         s\<lparr>outq := Some q1, send_seq := send_seq s + 1, final_pkt_dummy := fp\<rparr>)"
      "length fp = MAX_FRAG" "take 22 fp = take 22 (final_pkt_dummy s)" by blast
    then show ?thesis using dummy True pop None by blast
  next
    case (Some y)
    then show ?thesis using real [OF True, of y q1] pop True q by (simp add: send_for_session_def)
  qed
next
  case False
  note s = slot_active [OF ok]
  let ?s1 = "s\<lparr>outq := Some lanes_empty\<rparr>"
  have p: "params_ok ?s1" "active ?s1" using s(2) ok(2) by (simp_all add: params_ok_def)
  obtain ds where ctl: "send_control_packet enc stk (ucast PKT_CTRL_KEEPALIVE) ?s1 =
      Some (ds, ?s1\<lparr>send_seq := send_seq s + 1\<rparr>)"
    using send_control_packet_params [OF p(2,1) enc, of "ucast PKT_CTRL_KEEPALIVE"]
    by (cases "aead_encrypt enc (k_send s) (session_id s) (send_seq s)
          (control_plain stk (ucast PKT_CTRL_KEEPALIVE) (nat (argv_FRAG s)))") simp_all
  show ?thesis
  proof (cases "high q @ normal q = []")
    case empty: True
    show ?thesis
    proof (cases "now - last_activity s \<ge> 10 \<and> now - last_activity_keepalive s \<ge> 10")
      case True
      then show ?thesis
        using keepalive [OF False empty, of ds] False q ctl empty
        by (simp add: send_for_session_def drain_lanes_eq KEEPALIVE_INTERVAL_SEC_def Let_def)
    next
      case no: False
      then show ?thesis
        using idle [OF False empty no] False q empty
        by (auto simp: send_for_session_def drain_lanes_eq KEEPALIVE_INTERVAL_SEC_def Let_def)
    qed
  next
    case nonempty: False
    then show ?thesis
      using drained [OF False nonempty] False q by (auto simp: send_for_session_def drain_lanes_eq)
  qed
qed

lemma slot_ok_final:
  assumes "slot_ok i s" "active s" "length fp = MAX_FRAG" "take 22 fp = take 22 (final_pkt_dummy s)"
  shows "slot_ok i (s\<lparr>final_pkt_dummy := fp\<rparr>)"
  using assms by (auto simp: slot_ok_def session_shape_def params_ok_def dummy_ok_def config_defs)

lemma queued_pop: "outq s = Some q \<Longrightarrow> lanes_pop q = (Some x, q1) \<Longrightarrow> queued s = x # queued (s\<lparr>outq := Some q1\<rparr>)"
  by (auto simp: queued_def lanes_pop_def split: list.splits)

lemma lanes_pop_None: "lanes_pop q = (None, q1) \<longleftrightarrow> high q = [] \<and> normal q = [] \<and> q1 = q"
  by (auto simp: lanes_pop_def split: list.splits)

lemma cbr_queue_simps [simp]:
  "cbr_queue (s\<lparr>send_seq := x\<rparr>) = cbr_queue s" "cbr_queue (s\<lparr>final_pkt_dummy := fp\<rparr>) = cbr_queue s"
  "cbr_queue (s\<lparr>last_activity_keepalive := t\<rparr>) = cbr_queue s" "cbr_queue (s\<lparr>last_activity := t\<rparr>) = cbr_queue s"
  by (simp_all add: cbr_queue_def queued_def cbr_wire_def)

lemma cbr_queue_other: "argv_CBR s \<noteq> char_Y \<Longrightarrow> cbr_queue (s\<lparr>outq := q\<rparr>)"
  by (simp add: cbr_queue_def)

lemma send_for_session_ok:
  assumes ok: "slot_ok i s" "active s" "cbr_queue s" and enc: "aead_len enc" "length stk = 16"
    and q: "outq s \<noteq> None"
  obtains r ds s1 where "send_for_session enc stk now s = Some (r, ds, s1)" "slot_ok i s1" "cbr_queue s1"
    "active s1" "outq s1 \<noteq> None" "client_addr s1 = client_addr s" "session_id s1 = session_id s"
    "argv_CBR s1 = argv_CBR s" "argv_FRAG s1 = argv_FRAG s" "argv_MBPS s1 = argv_MBPS s"
proof -
  obtain q where q: "outq s = Some q" using q by auto
  from ok(1,2) enc q show ?thesis
  proof (cases rule: send_for_session_cases [where now = now])
    case (real x q1)
    have "cbr_queue (s\<lparr>outq := Some q1\<rparr>)"
      using ok(3) queued_pop [OF q real(2)] by (auto simp: cbr_queue_def cbr_wire_def)
    then show ?thesis using that [OF real(3)] ok by simp
  next
    case (dummy q1 fp)
    have "s\<lparr>outq := Some q1\<rparr> = s" using q dummy(2) by (cases s) (simp add: lanes_pop_None)
    then show ?thesis
      using that [OF dummy(3)] ok q slot_ok_final [of i "s\<lparr>outq := Some q1, send_seq := send_seq s + 1\<rparr>" fp]
        dummy(4,5) by simp
  next
    case drained
    then show ?thesis using that [OF drained(3)] ok by (simp add: cbr_queue_other)
  next
    case (keepalive ds)
    then show ?thesis using that [OF keepalive(5)] ok by (simp add: cbr_queue_other)
  next
    case idle
    then show ?thesis using that [OF idle(4)] ok by (simp add: cbr_queue_other)
  qed
qed

definition queues_ok :: "session list \<Rightarrow> bool" where
  "queues_ok tbl \<longleftrightarrow> (\<forall>s\<in>set tbl. active s \<longrightarrow> cbr_queue s)"

definition outqs_present :: "session list \<Rightarrow> bool" where
  "outqs_present tbl \<longleftrightarrow> (\<forall>s\<in>set tbl. active s \<longrightarrow> outq s \<noteq> None)"

lemma set_update_ball: "(\<forall>x\<in>set xs. P x) \<Longrightarrow> P y \<Longrightarrow> \<forall>x\<in>set (xs[i := y]). P x"
  using set_update_subset_insert [of xs i y] by auto

lemma queues_ok_update:
  "queues_ok tbl \<Longrightarrow> (active s \<Longrightarrow> cbr_queue s) \<Longrightarrow> queues_ok (tbl[i := s])"
  unfolding queues_ok_def by (rule set_update_ball) auto

lemma outqs_present_update:
  "outqs_present tbl \<Longrightarrow> (active s \<Longrightarrow> outq s \<noteq> None) \<Longrightarrow> outqs_present (tbl[i := s])"
  unfolding outqs_present_def by (rule set_update_ball) auto

lemma execute_send_ok:
  assumes ok: "sessions_ok tbl" "queues_ok tbl" "outqs_present tbl" and enc: "aead_len enc" "length stk = 16"
  obtains r ds tbl' where "execute_send enc stk now sid tbl = Some (r, ds, tbl')"
    "sessions_ok tbl'" "queues_ok tbl'" "outqs_present tbl'" "map active tbl' = map active tbl"
    "map session_id tbl' = map session_id tbl"
proof (cases "session_by_id sid tbl")
  case None
  then show ?thesis using that [of False "[]" tbl] ok by (simp add: execute_send_def)
next
  case (Some i)
  note i = session_by_id_Some [OF Some]
  then have mem: "tbl ! i \<in> set tbl" by simp
  have si: "slot_ok i (tbl ! i)" "active (tbl ! i)" "cbr_queue (tbl ! i)" "outq (tbl ! i) \<noteq> None"
    using i mem ok sessions_okD [OF ok(1)] by (auto simp: queues_ok_def outqs_present_def)
  obtain r ds s1 where s1: "send_for_session enc stk now (tbl ! i) = Some (r, ds, s1)" "slot_ok i s1"
    "cbr_queue s1" "active s1" "outq s1 \<noteq> None" "session_id s1 = session_id (tbl ! i)"
    by (rule send_for_session_ok [OF si(1-3) enc si(4), where now = now])
  have "execute_send enc stk now sid tbl = Some (r, ds, tbl[i := s1])"
    using Some s1(1) by (simp add: execute_send_def)
  moreover have "sessions_ok (tbl[i := s1])" using ok(1) s1(2) by (auto intro: sessions_ok_update)
  moreover have "queues_ok (tbl[i := s1])" "outqs_present (tbl[i := s1])"
    using ok(2,3) s1 by (auto intro: queues_ok_update outqs_present_update)
  moreover have "map active (tbl[i := s1]) = map active tbl" "map session_id (tbl[i := s1]) = map session_id tbl"
    using i s1(4,6) si(2) by (auto simp: map_update list_update_same_conv)
  ultimately show ?thesis by (rule that)
qed

text \<open>C25. Traffic shape of a constant-bit-rate session: every time its task runs, exactly one
  datagram goes to its client, and it has the same size whether it carries a queued packet or is
  a dummy; afterwards the table and the queues are well-formed again.\<close>

theorem cbr_constant_size:
  assumes "sessions_ok tbl" "queues_ok tbl" "outqs_present tbl" "aead_len enc" "length stk = 16"
    and "\<And>k n ad m. enc k n ad m \<noteq> None"
    and "session_by_id sid tbl = Some i" "argv_CBR (tbl ! i) = char_Y"
  shows "\<exists>r p tbl'. execute_send enc stk now sid tbl = Some (r, [(client_addr (tbl ! i), p)], tbl') \<and>
    length p = cbr_wire (tbl ! i) \<and> r = (queued (tbl ! i) \<noteq> []) \<and>
    sessions_ok tbl' \<and> queues_ok tbl' \<and> outqs_present tbl'"
proof -
  let ?s = "tbl ! i"
  note i = session_by_id_Some [OF assms(7)]
  then have mem: "?s \<in> set tbl" by simp
  have si: "slot_ok i ?s" "active ?s" "cbr_queue ?s" "outq ?s \<noteq> None"
    using i mem assms sessions_okD [OF assms(1)] by (auto simp: queues_ok_def outqs_present_def)
  obtain q where q: "outq ?s = Some q" using si(4) by auto
  obtain r ds tbl' where res: "execute_send enc stk now sid tbl = Some (r, ds, tbl')"
    "sessions_ok tbl'" "queues_ok tbl'" "outqs_present tbl'"
    by (rule execute_send_ok [OF assms(1-5)])
  from si(1,2) assms(4,5) q have "\<exists>p. ds = [(client_addr ?s, p)] \<and> length p = cbr_wire ?s \<and> r = (queued ?s \<noteq> [])"
  proof (cases rule: send_for_session_cases [where now = now])
    case (real x q1)
    then show ?thesis
      using res(1) assms(7,8) si(3) queued_pop [OF q real(2)] by (auto simp: execute_send_def cbr_queue_def)
  next
    case (dummy q1 fp)
    obtain out where out: "aead_encrypt enc (k_send ?s) (session_id ?s) (send_seq ?s)
        (dummy_plain (nat (argv_FRAG ?s))) = Some out"
      by (cases "aead_encrypt enc (k_send ?s) (session_id ?s) (send_seq ?s) (dummy_plain (nat (argv_FRAG ?s)))")
        (use assms(6) in \<open>auto simp: aead_encrypt_def Let_def\<close>)
    have "length out = nat (argv_FRAG ?s) + 16" "length (session_id ?s) = 16"
      using aead_encrypt_len [OF assms(4) out] params_frag [OF slot_active(2) [OF si(1,2)]]
        slot_active(1) [OF si(1,2)] by (simp_all add: dummy_plain_length session_shape_def config_defs)
    then show ?thesis
      using res(1) assms(7) dummy q out
      by (auto simp: execute_send_def dummy_packet_def cbr_wire_def config_defs queued_def lanes_pop_None)
  qed (use assms(8) in auto)
  then show ?thesis using res by auto
qed

definition sample_cbr_table :: "session list" where
  "sample_cbr_table = sample_table[3 := sample_session\<lparr>argv_CBR := char_Y\<rparr>]"

lemma sample_cbr_table_ok:
  "sessions_ok sample_cbr_table" "queues_ok sample_cbr_table" "outqs_present sample_cbr_table"
  "sample_cbr_table ! 3 = sample_session\<lparr>argv_CBR := char_Y\<rparr>"
  "session_by_id (replicate 16 7) sample_cbr_table = Some 3"
proof -
  have tbl: "sample_cbr_table = sessions_init[3 := sample_session\<lparr>argv_CBR := char_Y\<rparr>]"
    by (simp add: sample_cbr_table_def sample_table_def)
  have slot: "slot_ok 3 (sample_session\<lparr>argv_CBR := char_Y\<rparr>)"
    using sample_session_ok by (auto simp: slot_ok_def session_shape_def params_ok_def dummy_ok_def)
  then show "sessions_ok sample_cbr_table" unfolding tbl by (intro sessions_ok_update sessions_ok_init)
  show "queues_ok sample_cbr_table" "outqs_present sample_cbr_table"
    unfolding tbl
    by (intro queues_ok_update outqs_present_update; simp add: queues_ok_def outqs_present_def cbr_queue_def
        queued_def lanes_empty_def sessions_init_def zero_session_def)+
  show "sample_cbr_table ! 3 = sample_session\<lparr>argv_CBR := char_Y\<rparr>"
    by (simp add: tbl sessions_init_def MAX_CLIENTS_def)
  show "session_by_id (replicate 16 7) sample_cbr_table = Some 3"
    unfolding session_by_id_def
    by (rule find_index_unique)
      (auto simp: tbl sessions_init_def MAX_CLIENTS_def zero_session_def nth_list_update split: if_splits)
qed

theorem cbr_constant_size_witness:
  "\<exists>p tbl'. execute_send sample_aead (replicate 16 0) 0 (replicate 16 7) sample_cbr_table =
      Some (False, [(\<lparr>sin_family = 2, sin_port = 4000, sin_addr = 99\<rparr>, p)], tbl') \<and> length p = 174"
  using cbr_constant_size [OF sample_cbr_table_ok(1-3) aead_correct_len [OF sample_aead_correct], of
      "replicate 16 0" "replicate 16 7" 3 0]
  by (auto simp: sample_cbr_table_ok sample_aead_def cbr_wire_def config_defs queued_def lanes_empty_def)

section \<open>A round of the worker\<close>

lemma session_by_id_same:
  assumes "map active tbl' = map active tbl" "map session_id tbl' = map session_id tbl"
  shows "session_by_id sid tbl' = session_by_id sid tbl"
  using assms unfolding session_by_id_def
proof (induction tbl' arbitrary: tbl)
  case (Cons s tbl')
  then show ?case by (cases tbl) auto
qed simp

lemma pq_root_min:
  assumes "pq_inv pq" "pq_size pq \<noteq> 0"
  shows "pq_peek pq = Some (nodes pq ! 0)" "nodes pq ! 0 \<in># tasks pq"
    "\<forall>v\<in>#tasks pq. next_run (nodes pq ! 0) \<le> next_run v"
proof -
  show "pq_peek pq = Some (nodes pq ! 0)" using assms(2) by (simp add: pq_peek_def pq_is_empty_def)
  from assms have n: "0 < pq_size pq" "pq_size pq \<le> length (nodes pq)" "heap_ok (nodes pq) (pq_size pq)"
    by (auto simp: pq_inv_def)
  show "nodes pq ! 0 \<in># tasks pq"
    using n by (auto simp: tasks_def in_set_conv_nth intro!: exI [of _ 0])
  show "\<forall>v\<in>#tasks pq. next_run (nodes pq ! 0) \<le> next_run v"
    using n heap_root_min [OF n(3)] by (auto simp: tasks_def in_set_conv_nth)
qed

lemma worker_pop_spec:
  assumes inv: "pq_inv pq"
  obtains (none) "worker_pop now pq = (None, pq)" "\<forall>v\<in>#tasks pq. now < next_run v"
  | (due) u pq1 where "worker_pop now pq = (Some u, pq1)" "next_run u \<le> now" "pq_inv pq1"
      "tasks pq = add_mset u (tasks pq1)" "\<forall>v\<in>#tasks pq. next_run u \<le> next_run v"
proof (cases "pq_size pq = 0")
  case True
  then show ?thesis
    using none inv by (simp add: worker_pop_def pq_is_empty_def tasks_def)
next
  case False
  let ?u = "nodes pq ! 0"
  note root = pq_root_min [OF inv False]
  obtain pq1 where pop: "pq_pop pq = (Some ?u, pq1)" "pq_inv pq1" "tasks pq = add_mset ?u (tasks pq1)"
    using pq_pop_inv [OF inv False] by blast
  show ?thesis
  proof (cases "now < next_run ?u")
    case True
    then have "\<forall>v\<in>#tasks pq. now < next_run v" using root(3) by (auto intro: less_le_trans)
    then show ?thesis using none True False root(1)
      by (simp add: worker_pop_def pq_is_empty_def timespec_order)
  next
    case late: False
    then have "worker_pop now pq = (Some ?u, pq1)"
      using False root(1) pop(1) by (simp add: worker_pop_def pq_is_empty_def timespec_order)
    then show ?thesis using due pop late root(3) by simp
  qed
qed

definition requeued :: "timespec \<Rightarrow> session list \<Rightarrow> scheduler_task \<Rightarrow> scheduler_task multiset" where
  "requeued now tbl u =
     (case session_by_id (task_session_id u) tbl of None \<Rightarrow> {#} | Some i \<Rightarrow> {#reschedule now (tbl ! i) u#})"

lemma reschedule_same:
  "argv_CBR s' = argv_CBR s \<Longrightarrow> argv_FRAG s' = argv_FRAG s \<Longrightarrow> argv_MBPS s' = argv_MBPS s \<Longrightarrow>
   reschedule now s' u = reschedule now s u"
  by (simp add: reschedule_def)

lemma execute_send_params:
  assumes ok: "sessions_ok tbl" "queues_ok tbl" "outqs_present tbl" and enc: "aead_len enc" "length stk = 16"
    and i: "session_by_id sid tbl = Some i" and res: "execute_send enc stk now sid tbl = Some (r, ds, tbl')"
  shows "argv_CBR (tbl' ! i) = argv_CBR (tbl ! i)" "argv_FRAG (tbl' ! i) = argv_FRAG (tbl ! i)"
    "argv_MBPS (tbl' ! i) = argv_MBPS (tbl ! i)"
proof -
  note a = session_by_id_Some [OF i]
  then have mem: "tbl ! i \<in> set tbl" by simp
  have si: "slot_ok i (tbl ! i)" "active (tbl ! i)" "cbr_queue (tbl ! i)" "outq (tbl ! i) \<noteq> None"
    using a mem ok sessions_okD [OF ok(1)] by (auto simp: queues_ok_def outqs_present_def)
  obtain r1 ds1 s1 where s1: "send_for_session enc stk now (tbl ! i) = Some (r1, ds1, s1)"
    "argv_CBR s1 = argv_CBR (tbl ! i)" "argv_FRAG s1 = argv_FRAG (tbl ! i)" "argv_MBPS s1 = argv_MBPS (tbl ! i)"
    by (rule send_for_session_ok [OF si(1-3) enc si(4), where now = now])
  have "tbl' = tbl[i := s1]" using res i s1(1) by (simp add: execute_send_def)
  then show "argv_CBR (tbl' ! i) = argv_CBR (tbl ! i)" "argv_FRAG (tbl' ! i) = argv_FRAG (tbl ! i)"
    "argv_MBPS (tbl' ! i) = argv_MBPS (tbl ! i)" using a s1 by simp_all
qed

lemma worker_round_spec:
  assumes "pq_inv pq" "sessions_ok tbl" "queues_ok tbl" "outqs_present tbl" "aead_len enc" "length stk = 16"
  shows "\<exists>t ds pq' tbl'. worker_round enc stk now now1 now2 grow pq tbl = Some (t, ds, pq', tbl') \<and>
    pq_inv pq' \<and> sessions_ok tbl' \<and> queues_ok tbl' \<and> outqs_present tbl' \<and>
    (case t of
       None \<Rightarrow> ds = [] \<and> pq' = pq \<and> tbl' = tbl \<and> (\<forall>v\<in>#tasks pq. now1 < next_run v)
     | Some u \<Rightarrow> u \<in># tasks pq \<and> next_run u \<le> now1 \<and> (\<forall>v\<in>#tasks pq. next_run u \<le> next_run v) \<and>
         (tasks pq' = tasks pq - {#u#} + requeued now2 tbl u \<or> grow = None))"
  using assms(1)
proof (cases rule: worker_pop_spec [where now = now1])
  case none
  then show ?thesis using assms by (simp add: worker_round_def)
next
  case (due u pq1)
  obtain r ds tbl1 where ex: "execute_send enc stk now (task_session_id u) tbl = Some (r, ds, tbl1)"
    and ok: "sessions_ok tbl1" "queues_ok tbl1" "outqs_present tbl1"
    and same: "map active tbl1 = map active tbl" "map session_id tbl1 = map session_id tbl"
    by (rule execute_send_ok [OF assms(2-6), where now = now and sid = "task_session_id u"])
  have sid: "session_by_id (task_session_id u) tbl1 = session_by_id (task_session_id u) tbl"
    by (rule session_by_id_same [OF same])
  show ?thesis
  proof (cases "session_by_id (task_session_id u) tbl")
    case None
    then show ?thesis using due ex ok sid by (simp add: worker_round_def requeued_def)
  next
    case (Some i)
    have re: "reschedule now2 (tbl1 ! i) u = reschedule now2 (tbl ! i) u"
      by (rule reschedule_same) (rule execute_send_params [OF assms(2-6) Some ex])+
    show ?thesis
      using due ex ok sid Some re pq_push_inv [OF due(3), of grow "reschedule now2 (tbl ! i) u"]
      by (auto simp: worker_round_def requeued_def)
  qed
qed


definition sample_heap :: priority_queue where
  "sample_heap =
     \<lparr>nodes = [\<lparr>next_run = Timespec 5 0, task_session_id = replicate 16 7\<rparr>], pq_size = 1, pq_capacity = 1\<rparr>"


end
