(* ===== verification/Rate_Limiter.thy ===== *)
theory Rate_Limiter
  imports Chamlon_Prelude
begin

text \<open>
  The per-address token buckets, the blacklist and the queue backpressure counter of
  \<open>chamlon_server/src/rate_limiter.c\<close>. The table is the C array \<open>entries\<close> with its fill
  count \<open>num_entries\<close>; slots at or above the count hold arbitrary values. Every function
  takes the reading of \<open>time(NULL)\<close> as an argument (one reading per call; the calls of
  one function lie within a second) and runs under the table's write lock, so it is one
  atomic step.

  Token counts are C doubles. They start at an integer capacity, grow by an integer number
  of seconds times an integer rate, are capped at the capacity and shrink by 1, so they
  always hold integers; a product too large to be exact in a double is far above the
  capacity and is capped. They are modelled as integers.
\<close>

section \<open>State\<close>

definition HANDSHAKE_MAX_PER_SECOND :: int where [config_defs]: "HANDSHAKE_MAX_PER_SECOND = 5"
definition HANDSHAKE_BURST_CAPACITY :: int where [config_defs]: "HANDSHAKE_BURST_CAPACITY = 10"
definition PACKET_MAX_PER_SECOND :: int where [config_defs]: "PACKET_MAX_PER_SECOND = 1000"
definition PACKET_BURST_CAPACITY :: int where [config_defs]: "PACKET_BURST_CAPACITY = 2000"
definition BLACKLIST_DURATION_SEC :: int where [config_defs]: "BLACKLIST_DURATION_SEC = 60"
definition MAX_RATE_LIMIT_ENTRIES :: nat where [config_defs]: "MAX_RATE_LIMIT_ENTRIES = 10000"
definition RATE_LIMITER_CLEANUP_INTERVAL :: int where
  [config_defs]: "RATE_LIMITER_CLEANUP_INTERVAL = 10"

datatype rate_result = RATE_LIMIT_OK | RATE_LIMIT_EXCEEDED | RATE_LIMIT_BLACKLISTED

record ip_rate_limit =
  ip_addr :: u32
  handshake_tokens :: int
  packet_tokens :: int
  last_handshake_refill :: time_t
  last_packet_refill :: time_t
  handshake_violations :: u32
  packet_violations :: u32
  blacklist_until :: time_t
  last_seen :: time_t

record rate_limiter =
  entries :: "ip_rate_limit list"
  num_entries :: nat
  capacity :: nat
  last_cleanup :: time_t

record queue_backpressure =
  max_queue_size :: int
  max_total_queue_size :: int
  current_total_queue_size :: int

section \<open>Operations\<close>

text \<open>\<open>mem\<close> is the block \<open>malloc\<close> returns, with unspecified contents; \<open>None\<close> is a failure.\<close>

definition rate_limiter_init ::
  "time_t \<Rightarrow> ip_rate_limit list option \<Rightarrow> (rate_limiter \<times> queue_backpressure) option" where
  "rate_limiter_init now mem =
     (case mem of
        None \<Rightarrow> None
      | Some blk \<Rightarrow>
          Some (\<lparr>entries = blk, num_entries = 0, capacity = MAX_RATE_LIMIT_ENTRIES, last_cleanup = now\<rparr>,
                \<lparr>max_queue_size = 10000, max_total_queue_size = 100000, current_total_queue_size = 0\<rparr>))"

text \<open>
  The compaction loop \<open>for (i = 0, j = 0; i < num_entries; i++)\<close>; the first argument is
  the number of iterations left.
\<close>

fun compact ::
  "(ip_rate_limit \<Rightarrow> bool) \<Rightarrow> nat \<Rightarrow> nat \<Rightarrow> nat \<Rightarrow> ip_rate_limit list \<Rightarrow> ip_rate_limit list \<times> nat" where
  "compact keep 0 i j arr = (arr, j)"
| "compact keep (Suc r) i j arr =
     (if keep (arr ! i)
      then compact keep r (i + 1) (j + 1) (if i \<noteq> j then arr[j := arr ! i] else arr)
      else compact keep r (i + 1) j arr)"

definition keep_entry :: "time_t \<Rightarrow> ip_rate_limit \<Rightarrow> bool" where
  "keep_entry now e \<longleftrightarrow> now - last_seen e < 300 \<or> blacklist_until e > now"

definition rate_limiter_cleanup :: "time_t \<Rightarrow> rate_limiter \<Rightarrow> rate_limiter" where
  "rate_limiter_cleanup now rl =
     (if now - last_cleanup rl < RATE_LIMITER_CLEANUP_INTERVAL then rl
      else
        let (arr, j) = compact (keep_entry now) (num_entries rl) 0 0 (entries rl)
        in rl\<lparr>entries := arr, num_entries := j, last_cleanup := now\<rparr>)"

definition rate_limiter_destroy :: "rate_limiter \<Rightarrow> rate_limiter" where
  \<comment> \<open>the freed array, a null pointer in the code, is the empty list\<close>
  "rate_limiter_destroy rl = rl\<lparr>entries := []\<rparr>"

definition fresh_entry :: "time_t \<Rightarrow> u32 \<Rightarrow> ip_rate_limit" where
  "fresh_entry now ip =
     \<lparr>ip_addr = ip, handshake_tokens = HANDSHAKE_BURST_CAPACITY,
      packet_tokens = PACKET_BURST_CAPACITY, last_handshake_refill = now,
      last_packet_refill = now, handshake_violations = 0, packet_violations = 0,
      blacklist_until = 0, last_seen = now\<rparr>"

definition find_or_create_ip_entry ::
  "time_t \<Rightarrow> u32 \<Rightarrow> rate_limiter \<Rightarrow> nat option \<times> rate_limiter" where
  "find_or_create_ip_entry now ip rl =
     (case find_index (\<lambda>e. ip_addr e = ip) (take (num_entries rl) (entries rl)) of
        Some i \<Rightarrow>
          (Some i, rl\<lparr>entries := (entries rl)[i := (entries rl ! i)\<lparr>last_seen := now\<rparr>]\<rparr>)
      | None \<Rightarrow>
          if num_entries rl < capacity rl
          then (Some (num_entries rl),
                rl\<lparr>entries := (entries rl)[num_entries rl := fresh_entry now ip],
                   num_entries := num_entries rl + 1\<rparr>)
          else (None, rl))"

definition refill_tokens :: "time_t \<Rightarrow> int \<Rightarrow> int \<Rightarrow> time_t \<Rightarrow> int \<Rightarrow> int \<times> time_t" where
  "refill_tokens now tokens max_tokens last_refill tokens_per_sec =
     (let elapsed = now - last_refill in
      if elapsed > 0
      then (let t = tokens + elapsed * tokens_per_sec
            in if t > max_tokens then max_tokens else t, now)
      else (tokens, last_refill))"

definition check_handshake_rate_limit ::
  "time_t \<Rightarrow> u32 \<Rightarrow> rate_limiter \<Rightarrow> rate_result \<times> rate_limiter" where
  "check_handshake_rate_limit now ip rl =
     (case find_or_create_ip_entry now ip rl of
        (None, rl1) \<Rightarrow> (RATE_LIMIT_EXCEEDED, rl1)
      | (Some i, rl1) \<Rightarrow>
          let e = entries rl1 ! i in
          if blacklist_until e > now then (RATE_LIMIT_BLACKLISTED, rl1)
          else
            let (tok, lr) = refill_tokens now (handshake_tokens e) HANDSHAKE_BURST_CAPACITY
                              (last_handshake_refill e) HANDSHAKE_MAX_PER_SECOND;
                e1 = e\<lparr>handshake_tokens := tok, last_handshake_refill := lr\<rparr>
            in if handshake_tokens e1 \<ge> 1
               then (RATE_LIMIT_OK,
                     rl1\<lparr>entries := (entries rl1)[i := e1\<lparr>handshake_tokens := handshake_tokens e1 - 1\<rparr>]\<rparr>)
               else
                 let e2 = e1\<lparr>handshake_violations := handshake_violations e1 + 1\<rparr>
                 in if handshake_violations e2 > 50
                    then (RATE_LIMIT_BLACKLISTED,
                          rl1\<lparr>entries := (entries rl1)
                            [i := e2\<lparr>blacklist_until := now + BLACKLIST_DURATION_SEC\<rparr>]\<rparr>)
                    else (RATE_LIMIT_EXCEEDED, rl1\<lparr>entries := (entries rl1)[i := e2]\<rparr>))"

definition check_packet_rate_limit ::
  "time_t \<Rightarrow> u32 \<Rightarrow> rate_limiter \<Rightarrow> rate_result \<times> rate_limiter" where
  "check_packet_rate_limit now ip rl =
     (case find_or_create_ip_entry now ip rl of
        (None, rl1) \<Rightarrow> (RATE_LIMIT_EXCEEDED, rl1)
      | (Some i, rl1) \<Rightarrow>
          let e = entries rl1 ! i in
          if blacklist_until e > now then (RATE_LIMIT_BLACKLISTED, rl1)
          else
            let (tok, lr) = refill_tokens now (packet_tokens e) PACKET_BURST_CAPACITY
                              (last_packet_refill e) PACKET_MAX_PER_SECOND;
                e1 = e\<lparr>packet_tokens := tok, last_packet_refill := lr\<rparr>
            in if packet_tokens e1 \<ge> 1
               then (RATE_LIMIT_OK,
                     rl1\<lparr>entries := (entries rl1)[i := e1\<lparr>packet_tokens := packet_tokens e1 - 1\<rparr>]\<rparr>)
               else
                 let e2 = e1\<lparr>packet_violations := packet_violations e1 + 1\<rparr>
                 in if packet_violations e2 > 500
                    then (RATE_LIMIT_BLACKLISTED,
                          rl1\<lparr>entries := (entries rl1)
                            [i := e2\<lparr>blacklist_until := now + BLACKLIST_DURATION_SEC\<rparr>]\<rparr>)
                    else (RATE_LIMIT_EXCEEDED, rl1\<lparr>entries := (entries rl1)[i := e2]\<rparr>))"

definition blacklist_ip :: "time_t \<Rightarrow> u32 \<Rightarrow> rate_limiter \<Rightarrow> rate_limiter" where
  "blacklist_ip now ip rl =
     (case find_or_create_ip_entry now ip rl of
        (None, rl1) \<Rightarrow> rl1
      | (Some i, rl1) \<Rightarrow>
          rl1\<lparr>entries := (entries rl1)
            [i := (entries rl1 ! i)\<lparr>blacklist_until := now + BLACKLIST_DURATION_SEC\<rparr>]\<rparr>)"

definition check_queue_backpressure :: "int \<Rightarrow> queue_backpressure \<Rightarrow> rate_result" where
  "check_queue_backpressure packets_to_add q =
     (if current_total_queue_size q + packets_to_add > max_total_queue_size q
      then RATE_LIMIT_EXCEEDED else RATE_LIMIT_OK)"

definition update_queue_backpressure :: "int \<Rightarrow> queue_backpressure \<Rightarrow> queue_backpressure" where
  "update_queue_backpressure packets_added q =
     q\<lparr>current_total_queue_size := current_total_queue_size q + packets_added\<rparr>"

definition release_queue_backpressure :: "int \<Rightarrow> queue_backpressure \<Rightarrow> queue_backpressure" where
  "release_queue_backpressure packets_removed q =
     (let q1 = q\<lparr>current_total_queue_size := current_total_queue_size q - packets_removed\<rparr>
      in if current_total_queue_size q1 < 0 then q1\<lparr>current_total_queue_size := 0\<rparr> else q1)"

definition get_queue_backpressure_level :: "queue_backpressure \<Rightarrow> int" where
  "get_queue_backpressure_level q = current_total_queue_size q"

section \<open>The table as a map from addresses to entries\<close>

definition live :: "rate_limiter \<Rightarrow> ip_rate_limit list" where
  "live rl = take (num_entries rl) (entries rl)"

definition lookup_ip :: "rate_limiter \<Rightarrow> u32 \<Rightarrow> ip_rate_limit option" where
  "lookup_ip rl ip = find (\<lambda>e. ip_addr e = ip) (live rl)"

definition table_ok :: "rate_limiter \<Rightarrow> bool" where
  "table_ok rl \<longleftrightarrow> num_entries rl \<le> capacity rl \<and> length (entries rl) = capacity rl \<and>
     distinct (map ip_addr (live rl))"

lemma length_live: "table_ok rl \<Longrightarrow> length (live rl) = num_entries rl"
  by (simp add: live_def table_ok_def)

lemma live_nth: "table_ok rl \<Longrightarrow> i < num_entries rl \<Longrightarrow> live rl ! i = entries rl ! i"
  by (simp add: live_def table_ok_def)

lemma find_distinct_key:
  "distinct (map f xs) \<Longrightarrow> find (\<lambda>x. f x = k) xs = Some x \<longleftrightarrow> x \<in> set xs \<and> f x = k"
  by (induction xs) (auto split: if_splits)

lemma lookup_ip_Some:
  "table_ok rl \<Longrightarrow> lookup_ip rl ip = Some e \<longleftrightarrow> e \<in> set (live rl) \<and> ip_addr e = ip"
  by (simp add: lookup_ip_def table_ok_def find_distinct_key)

lemma lookup_ip_None: "lookup_ip rl ip = None \<longleftrightarrow> ip \<notin> ip_addr ` set (live rl)"
  by (auto simp: lookup_ip_def find_None_iff)

lemma lookup_ip_nth:
  "table_ok rl \<Longrightarrow> i < num_entries rl \<Longrightarrow> lookup_ip rl (ip_addr (entries rl ! i)) = Some (entries rl ! i)"
  using live_nth [of rl i] length_live [of rl] nth_mem [of i "live rl"] by (auto simp: lookup_ip_Some)

lemma find_update_key:
  assumes "i < length xs" and "distinct (map f xs)" and "f x = f (xs ! i)"
  shows "find (\<lambda>y. f y = k) (xs[i := x]) = (if k = f x then Some x else find (\<lambda>y. f y = k) xs)"
  using assms
proof (induction xs arbitrary: i)
  case (Cons y ys)
  then show ?case by (cases i) auto
qed simp

lemma find_snoc:
  "find P (xs @ [x]) =
     (case find P xs of None \<Rightarrow> if P x then Some x else None | Some y \<Rightarrow> Some y)"
  by (induction xs) auto

lemma find_filter_key:
  "distinct (map f xs) \<Longrightarrow>
   find (\<lambda>x. f x = k) (filter P xs) =
     (case find (\<lambda>x. f x = k) xs of None \<Rightarrow> None | Some x \<Rightarrow> if P x then Some x else None)"
  by (induction xs) (auto simp: find_None_iff find_distinct_key split: option.split)

lemma ip_addr_fresh: "ip_addr (fresh_entry now ip) = ip"
  by (simp add: fresh_entry_def)

lemma map_key_update: "i < length xs \<Longrightarrow> f x = f (xs ! i) \<Longrightarrow> map f (xs[i := x]) = map f xs"
  by (simp add: list_eq_iff_nth_eq nth_list_update)

lemma store_entry:
  assumes ok: "table_ok rl" and i: "i < num_entries rl" and e: "ip_addr e = ip_addr (entries rl ! i)"
  defines "rl' \<equiv> rl\<lparr>entries := (entries rl)[i := e]\<rparr>"
  shows "table_ok rl'" and "lookup_ip rl' = (lookup_ip rl)(ip_addr e \<mapsto> e)"
proof -
  have live': "live rl' = (live rl)[i := e]"
    using i by (simp add: rl'_def live_def take_update_swap)
  have i': "i < length (live rl)" and e': "ip_addr e = ip_addr (live rl ! i)"
    using length_live [OF ok] live_nth [OF ok i] i e by auto
  have d: "distinct (map ip_addr (live rl))" using ok by (simp add: table_ok_def)
  show "table_ok rl'"
    using ok map_key_update [OF i' e'] by (simp add: table_ok_def live') (simp add: rl'_def)
  show "lookup_ip rl' = (lookup_ip rl)(ip_addr e \<mapsto> e)"
    by (rule ext) (simp add: lookup_ip_def live' find_update_key [OF i' d e'])
qed

text \<open>The entry \<open>find_or_create_ip_entry\<close> hands out: the old one seen now, or a fresh one.\<close>

definition touched :: "time_t \<Rightarrow> u32 \<Rightarrow> rate_limiter \<Rightarrow> ip_rate_limit" where
  "touched now ip rl =
     (case lookup_ip rl ip of Some e \<Rightarrow> e\<lparr>last_seen := now\<rparr> | None \<Rightarrow> fresh_entry now ip)"

definition table_full_for :: "u32 \<Rightarrow> rate_limiter \<Rightarrow> bool" where
  "table_full_for ip rl \<longleftrightarrow> lookup_ip rl ip = None \<and> num_entries rl = capacity rl"

lemma ip_addr_touched [simp]: "table_ok rl \<Longrightarrow> ip_addr (touched now ip rl) = ip"
  by (auto simp: touched_def fresh_entry_def lookup_ip_Some split: option.split)

lemma find_or_create_ip_entry_full:
  "table_ok rl \<Longrightarrow> table_full_for ip rl \<Longrightarrow> find_or_create_ip_entry now ip rl = (None, rl)"
  by (auto simp: table_full_for_def find_or_create_ip_entry_def lookup_ip_None find_index_None_iff
      live_def split: option.split)

lemma find_or_create_ip_entry_Some:
  assumes ok: "table_ok rl" and room: "\<not> table_full_for ip rl"
  shows "\<exists>i rl1. find_or_create_ip_entry now ip rl = (Some i, rl1) \<and> i < num_entries rl1 \<and>
     table_ok rl1 \<and> entries rl1 ! i = touched now ip rl \<and>
     lookup_ip rl1 = (lookup_ip rl)(ip \<mapsto> touched now ip rl) \<and>
     capacity rl1 = capacity rl \<and> last_cleanup rl1 = last_cleanup rl"
proof (cases "find_index (\<lambda>e. ip_addr e = ip) (live rl)")
  case (Some i)
  then have i: "i < num_entries rl" and ip: "ip_addr (entries rl ! i) = ip"
    using find_index_SomeD [OF Some] length_live [OF ok] live_nth [OF ok] by auto
  have look: "lookup_ip rl ip = Some (entries rl ! i)" using lookup_ip_nth [OF ok i] ip by simp
  have len: "i < length (entries rl)" using ok i by (simp add: table_ok_def)
  have "find_or_create_ip_entry now ip rl =
      (Some i, rl\<lparr>entries := (entries rl)[i := touched now ip rl]\<rparr>)"
    using Some look by (simp add: find_or_create_ip_entry_def touched_def live_def)
  then show ?thesis
    using store_entry [OF ok i, of "touched now ip rl"] ok ip i len by simp
next
  case None
  then have none: "ip \<notin> ip_addr ` set (live rl)" by (auto simp: find_index_None_iff)
  then have look: "lookup_ip rl ip = None" by (simp add: lookup_ip_None)
  with room ok have n: "num_entries rl < capacity rl"
    by (auto simp: table_full_for_def table_ok_def)
  define rl1 where "rl1 = rl\<lparr>entries := (entries rl)[num_entries rl := fresh_entry now ip],
                   num_entries := num_entries rl + 1\<rparr>"
  have len: "num_entries rl < length (entries rl)" using ok n by (simp add: table_ok_def)
  have live1: "live rl1 = live rl @ [fresh_entry now ip]"
    using len by (simp add: rl1_def live_def take_Suc_conv_app_nth)
  have "find_or_create_ip_entry now ip rl = (Some (num_entries rl), rl1)"
    using None n by (simp add: find_or_create_ip_entry_def rl1_def live_def)
  moreover have "table_ok rl1"
    using ok n none by (auto simp: table_ok_def live1 fresh_entry_def) (auto simp: rl1_def)
  moreover have "entries rl1 ! num_entries rl = touched now ip rl"
    using len look by (simp add: rl1_def touched_def)
  moreover have "lookup_ip rl1 = (lookup_ip rl)(ip \<mapsto> touched now ip rl)"
  proof (rule ext)
    fix k
    have "find (\<lambda>e. ip_addr e = k) (live rl @ [fresh_entry now ip]) =
        (case find (\<lambda>e. ip_addr e = k) (live rl) of
           None \<Rightarrow> if ip = k then Some (fresh_entry now ip) else None | Some e \<Rightarrow> Some e)"
      by (simp add: find_snoc ip_addr_fresh)
    then show "lookup_ip rl1 k = ((lookup_ip rl)(ip \<mapsto> touched now ip rl)) k"
      using look by (auto simp: lookup_ip_def live1 touched_def split: option.split)
  qed
  ultimately show ?thesis by (simp add: rl1_def)
qed

section \<open>The checks on the map\<close>

text \<open>What a check does to the one entry it works on.\<close>

definition handshake_entry :: "time_t \<Rightarrow> ip_rate_limit \<Rightarrow> rate_result \<times> ip_rate_limit" where
  "handshake_entry now e =
     (if blacklist_until e > now then (RATE_LIMIT_BLACKLISTED, e)
      else
        let (tok, lr) = refill_tokens now (handshake_tokens e) HANDSHAKE_BURST_CAPACITY
                          (last_handshake_refill e) HANDSHAKE_MAX_PER_SECOND;
            e1 = e\<lparr>handshake_tokens := tok, last_handshake_refill := lr\<rparr>
        in if tok \<ge> 1 then (RATE_LIMIT_OK, e1\<lparr>handshake_tokens := tok - 1\<rparr>)
           else
             let e2 = e1\<lparr>handshake_violations := handshake_violations e + 1\<rparr>
             in if handshake_violations e2 > 50
                then (RATE_LIMIT_BLACKLISTED, e2\<lparr>blacklist_until := now + BLACKLIST_DURATION_SEC\<rparr>)
                else (RATE_LIMIT_EXCEEDED, e2))"

definition packet_entry :: "time_t \<Rightarrow> ip_rate_limit \<Rightarrow> rate_result \<times> ip_rate_limit" where
  "packet_entry now e =
     (if blacklist_until e > now then (RATE_LIMIT_BLACKLISTED, e)
      else
        let (tok, lr) = refill_tokens now (packet_tokens e) PACKET_BURST_CAPACITY
                          (last_packet_refill e) PACKET_MAX_PER_SECOND;
            e1 = e\<lparr>packet_tokens := tok, last_packet_refill := lr\<rparr>
        in if tok \<ge> 1 then (RATE_LIMIT_OK, e1\<lparr>packet_tokens := tok - 1\<rparr>)
           else
             let e2 = e1\<lparr>packet_violations := packet_violations e + 1\<rparr>
             in if packet_violations e2 > 500
                then (RATE_LIMIT_BLACKLISTED, e2\<lparr>blacklist_until := now + BLACKLIST_DURATION_SEC\<rparr>)
                else (RATE_LIMIT_EXCEEDED, e2))"

definition blacklist_entry :: "time_t \<Rightarrow> ip_rate_limit \<Rightarrow> ip_rate_limit" where
  "blacklist_entry now e = e\<lparr>blacklist_until := now + BLACKLIST_DURATION_SEC\<rparr>"

lemma entry_ip [simp]:
  "ip_addr (snd (handshake_entry now e)) = ip_addr e"
  "ip_addr (snd (packet_entry now e)) = ip_addr e"
  "ip_addr (blacklist_entry now e) = ip_addr e"
  by (simp_all add: handshake_entry_def packet_entry_def blacklist_entry_def Let_def split: prod.split)

text \<open>
  Each check works on the entry of its address and on nothing else: the array operations
  refine one update of the map.
\<close>

definition map_step ::
  "(ip_rate_limit \<Rightarrow> rate_result \<times> ip_rate_limit) \<Rightarrow> time_t \<Rightarrow> u32 \<Rightarrow> rate_limiter \<Rightarrow>
   rate_result \<times> rate_limiter \<Rightarrow> bool" where
  "map_step f now ip rl out \<longleftrightarrow>
     (if table_full_for ip rl then out = (RATE_LIMIT_EXCEEDED, rl)
      else fst out = fst (f (touched now ip rl)) \<and> table_ok (snd out) \<and>
           lookup_ip (snd out) = (lookup_ip rl)(ip \<mapsto> snd (f (touched now ip rl))) \<and>
           capacity (snd out) = capacity rl \<and> last_cleanup (snd out) = last_cleanup rl)"

lemma map_stepI:
  assumes ok: "table_ok rl"
    and full: "find_or_create_ip_entry now ip rl = (None, rl) \<Longrightarrow> out = (RATE_LIMIT_EXCEEDED, rl)"
    and some: "\<And>i rl1. find_or_create_ip_entry now ip rl = (Some i, rl1) \<Longrightarrow>
      out = (fst (f (entries rl1 ! i)), rl1\<lparr>entries := (entries rl1)[i := snd (f (entries rl1 ! i))]\<rparr>)"
    and ip: "\<And>e. ip_addr (snd (f e)) = ip_addr e"
  shows "map_step f now ip rl out"
proof (cases "table_full_for ip rl")
  case True
  then show ?thesis using full find_or_create_ip_entry_full [OF ok True] by (simp add: map_step_def)
next
  case False
  then obtain i rl1 where foc: "find_or_create_ip_entry now ip rl = (Some i, rl1)"
    and i: "i < num_entries rl1" and ok1: "table_ok rl1"
    and ent: "entries rl1 ! i = touched now ip rl"
    and look: "lookup_ip rl1 = (lookup_ip rl)(ip \<mapsto> touched now ip rl)"
    and cap: "capacity rl1 = capacity rl" "last_cleanup rl1 = last_cleanup rl"
    using find_or_create_ip_entry_Some [OF ok False] by metis
  have key: "ip_addr (snd (f (touched now ip rl))) = ip_addr (entries rl1 ! i)"
    using ip ent by simp
  show ?thesis
    using some [OF foc] store_entry [OF ok1 i key] look cap False ok
    by (simp add: map_step_def ent ip)
qed

lemma list_update_self: "xs[i := xs ! i] = xs"
  by simp

lemma check_handshake_map:
  "table_ok rl \<Longrightarrow> map_step (handshake_entry now) now ip rl (check_handshake_rate_limit now ip rl)"
  by (rule map_stepI)
    (auto simp: check_handshake_rate_limit_def handshake_entry_def Let_def split: prod.split)

lemma check_packet_map:
  "table_ok rl \<Longrightarrow> map_step (packet_entry now) now ip rl (check_packet_rate_limit now ip rl)"
  by (rule map_stepI)
    (auto simp: check_packet_rate_limit_def packet_entry_def Let_def split: prod.split)

lemma blacklist_ip_map:
  "table_ok rl \<Longrightarrow>
   map_step (\<lambda>e. (RATE_LIMIT_EXCEEDED, blacklist_entry now e)) now ip rl
     (RATE_LIMIT_EXCEEDED, blacklist_ip now ip rl)"
  by (rule map_stepI) (auto simp: blacklist_ip_def blacklist_entry_def)

lemma compact_filter:
  "i + r \<le> length arr \<Longrightarrow> j \<le> i \<Longrightarrow> compact keep r i j arr = (arr', j') \<Longrightarrow>
   length arr' = length arr \<and> j' \<le> i + r \<and>
   take j' arr' = take j arr @ filter keep (take r (drop i arr))"
proof (induction keep r i j arr rule: compact.induct)
  case (1 keep i j arr)
  then show ?case by simp
next
  case (2 keep r i j arr)
  have d: "take (Suc r) (drop i arr) = arr ! i # take r (drop (i + 1) arr)"
    using "2.prems"(1) by (simp add: Cons_nth_drop_Suc [symmetric])
  show ?case
  proof (cases "keep (arr ! i)")
    case True
    define arr1 where "arr1 = (if i \<noteq> j then arr[j := arr ! i] else arr)"
    have "length arr1 = length arr" "drop (i + 1) arr1 = drop (i + 1) arr"
      "take (j + 1) arr1 = take j arr @ [arr ! i]"
      using "2.prems"(1,2) by (auto simp: arr1_def take_Suc_conv_app_nth)
    then show ?thesis using 2 True d by (simp add: arr1_def)
  next
    case False
    then show ?thesis using 2 d by simp
  qed
qed

lemma rate_limiter_cleanup_live:
  assumes ok: "table_ok rl" and due: "\<not> now - last_cleanup rl < RATE_LIMITER_CLEANUP_INTERVAL"
  shows "live (rate_limiter_cleanup now rl) = filter (keep_entry now) (live rl)"
    and "table_ok (rate_limiter_cleanup now rl)"
proof -
  obtain arr j where c: "compact (keep_entry now) (num_entries rl) 0 0 (entries rl) = (arr, j)"
    by fastforce
  have facts: "length arr = length (entries rl)" "j \<le> num_entries rl"
    "take j arr = filter (keep_entry now) (live rl)"
    using compact_filter [OF _ _ c] ok by (auto simp: table_ok_def live_def)
  then show live: "live (rate_limiter_cleanup now rl) = filter (keep_entry now) (live rl)"
    using due c by (simp add: rate_limiter_cleanup_def live_def)
  show "table_ok (rate_limiter_cleanup now rl)"
    using facts due c ok unfolding table_ok_def live
    by (auto simp: rate_limiter_cleanup_def intro: distinct_map_filter)
qed

lemma rate_limiter_cleanup_lookup:
  assumes ok: "table_ok rl"
  shows "table_ok (rate_limiter_cleanup now rl)"
    and "lookup_ip (rate_limiter_cleanup now rl) ip = lookup_ip rl ip \<or>
      (\<exists>e. lookup_ip rl ip = Some e \<and> \<not> keep_entry now e \<and>
           lookup_ip (rate_limiter_cleanup now rl) ip = None)"
proof -
  let ?rl = "rate_limiter_cleanup now rl"
  have "table_ok ?rl \<and> (live ?rl = live rl \<or> live ?rl = filter (keep_entry now) (live rl))"
    using ok rate_limiter_cleanup_live [OF ok, of now]
    by (cases "now - last_cleanup rl < RATE_LIMITER_CLEANUP_INTERVAL")
      (auto simp: rate_limiter_cleanup_def)
  then show ok': "table_ok ?rl"
    and "lookup_ip ?rl ip = lookup_ip rl ip \<or>
      (\<exists>e. lookup_ip rl ip = Some e \<and> \<not> keep_entry now e \<and> lookup_ip ?rl ip = None)"
    using ok by (auto simp: lookup_ip_def table_ok_def find_filter_key split: option.split)
qed

section \<open>Runs of the table\<close>

text \<open>
  The receive path and the maintenance thread call the table in some order; each call is one
  operation at one time.
\<close>

datatype rl_op =
    CheckHandshake time_t u32
  | CheckPacket time_t u32
  | BlacklistIp time_t u32
  | Cleanup time_t

primrec op_time :: "rl_op \<Rightarrow> time_t" where
  "op_time (CheckHandshake t ip) = t"
| "op_time (CheckPacket t ip) = t"
| "op_time (BlacklistIp t ip) = t"
| "op_time (Cleanup t) = t"

primrec op_ip :: "rl_op \<Rightarrow> u32 option" where
  "op_ip (CheckHandshake t ip) = Some ip"
| "op_ip (CheckPacket t ip) = Some ip"
| "op_ip (BlacklistIp t ip) = Some ip"
| "op_ip (Cleanup t) = None"

primrec rl_step :: "rl_op \<Rightarrow> rate_limiter \<Rightarrow> rate_result option \<times> rate_limiter" where
  "rl_step (CheckHandshake t ip) rl = apfst Some (check_handshake_rate_limit t ip rl)"
| "rl_step (CheckPacket t ip) rl = apfst Some (check_packet_rate_limit t ip rl)"
| "rl_step (BlacklistIp t ip) rl = (None, blacklist_ip t ip rl)"
| "rl_step (Cleanup t) rl = (None, rate_limiter_cleanup t rl)"

fun rl_run ::
  "rl_op list \<Rightarrow> rate_limiter \<Rightarrow> (rl_op \<times> rate_result option) list \<times> rate_limiter" where
  "rl_run [] rl = ([], rl)"
| "rl_run (op # ops) rl =
     (let (r, rl1) = rl_step op rl; (log, rl2) = rl_run ops rl1 in ((op, r) # log, rl2))"

text \<open>What one operation does to the entry of the address it names.\<close>

primrec entry_step :: "rl_op \<Rightarrow> ip_rate_limit \<Rightarrow> rate_result option \<times> ip_rate_limit" where
  "entry_step (CheckHandshake t ip) e = apfst Some (handshake_entry t e)"
| "entry_step (CheckPacket t ip) e = apfst Some (packet_entry t e)"
| "entry_step (BlacklistIp t ip) e = (None, blacklist_entry t e)"
| "entry_step (Cleanup t) e = (None, e)"

definition seen_entry :: "time_t \<Rightarrow> u32 \<Rightarrow> ip_rate_limit option \<Rightarrow> ip_rate_limit" where
  "seen_entry t ip old = (case old of Some e \<Rightarrow> e\<lparr>last_seen := t\<rparr> | None \<Rightarrow> fresh_entry t ip)"

lemma last_seen_seen: "last_seen (seen_entry t ip old) = t"
  by (simp add: seen_entry_def fresh_entry_def split: option.split)

definition entry_changes ::
  "rl_op \<Rightarrow> u32 \<Rightarrow> ip_rate_limit option \<Rightarrow> rate_result option \<Rightarrow> ip_rate_limit option \<Rightarrow> bool" where
  "entry_changes op ip old r new \<longleftrightarrow>
     (if op_ip op = Some ip
      then old = None \<and> new = None \<and> r \<noteq> Some RATE_LIMIT_OK \<or>
           (let e = seen_entry (op_time op) ip old
            in r = fst (entry_step op e) \<and> new = Some (snd (entry_step op e)))
      else new = old \<or>
           (\<exists>e. op = Cleanup (op_time op) \<and> old = Some e \<and> \<not> keep_entry (op_time op) e \<and> new = None))"

lemma map_step_entry:
  assumes m: "map_step f t a rl (r, rl')" and ok: "table_ok rl"
  shows "table_ok rl' \<and> (ip \<noteq> a \<longrightarrow> lookup_ip rl' ip = lookup_ip rl ip) \<and>
    (lookup_ip rl a = None \<and> lookup_ip rl' a = None \<and> r = RATE_LIMIT_EXCEEDED \<or>
     r = fst (f (seen_entry t a (lookup_ip rl a))) \<and>
     lookup_ip rl' a = Some (snd (f (seen_entry t a (lookup_ip rl a)))))"
proof -
  have "touched t a rl = seen_entry t a (lookup_ip rl a)"
    by (simp add: touched_def seen_entry_def)
  then show ?thesis
    using m ok by (cases "table_full_for a rl") (auto simp: map_step_def table_full_for_def)
qed

lemma rl_step_entry:
  assumes ok: "table_ok rl" and st: "rl_step op rl = (r, rl')"
  shows "table_ok rl' \<and> entry_changes op ip (lookup_ip rl ip) r (lookup_ip rl' ip)"
proof (cases op)
  case (CheckHandshake t a)
  then show ?thesis
    using map_step_entry [OF _ ok, of "handshake_entry t" t a _ rl' ip] check_handshake_map [OF ok, of t a] st
    by (cases "check_handshake_rate_limit t a rl") (auto simp: entry_changes_def Let_def)
next
  case (CheckPacket t a)
  then show ?thesis
    using map_step_entry [OF _ ok, of "packet_entry t" t a _ rl' ip] check_packet_map [OF ok, of t a] st
    by (cases "check_packet_rate_limit t a rl") (auto simp: entry_changes_def Let_def)
next
  case (BlacklistIp t a)
  then show ?thesis
    using map_step_entry [OF blacklist_ip_map [OF ok, of t a] ok, of ip] st
    by (auto simp: entry_changes_def Let_def)
next
  case (Cleanup t)
  then show ?thesis
    using rate_limiter_cleanup_lookup [OF ok, of t] st by (auto simp: entry_changes_def)
qed

lemma entry_changes_cases:
  assumes "entry_changes op ip old r new"
  obtains (refused) "op_ip op = Some ip" "old = None" "new = None" "r \<noteq> Some RATE_LIMIT_OK"
    | (own) "op_ip op = Some ip" "r = fst (entry_step op (seen_entry (op_time op) ip old))"
        "new = Some (snd (entry_step op (seen_entry (op_time op) ip old)))"
    | (other) "op_ip op \<noteq> Some ip" "new = old"
    | (dropped) e where "op = Cleanup (op_time op)" "old = Some e"
        "\<not> keep_entry (op_time op) e" "new = None"
  using assms by (auto simp: entry_changes_def Let_def split: if_splits)

section \<open>Token buckets\<close>

text \<open>
  The contract of one bucket of an entry: the entry operations never hand out a token the
  bucket does not have, where what a bucket has at a time counts the refill up to then.
\<close>

definition avail :: "int \<Rightarrow> int \<Rightarrow> (ip_rate_limit \<Rightarrow> int) \<Rightarrow> (ip_rate_limit \<Rightarrow> time_t) \<Rightarrow>
    time_t \<Rightarrow> ip_rate_limit \<Rightarrow> int" where
  "avail rate cap tok lr t e = min cap (tok e + rate * (t - lr e))"

text \<open>How many calls of one kind for one address a log shows as admitted.\<close>

definition granted :: "(rl_op \<Rightarrow> bool) \<Rightarrow> u32 \<Rightarrow> (rl_op \<times> rate_result option) list \<Rightarrow> nat" where
  "granted own ip log =
     length (filter (\<lambda>(op, r). own op \<and> op_ip op = Some ip \<and> r = Some RATE_LIMIT_OK) log)"

locale token_bucket =
  fixes rate cap :: int
    and tok :: "ip_rate_limit \<Rightarrow> int" and lr :: "ip_rate_limit \<Rightarrow> time_t"
    and own :: "rl_op \<Rightarrow> bool"
  assumes rate_pos: "0 < rate" and cap_refill: "cap \<le> rate * 300" and cap_pos: "0 \<le> cap"
    and fresh: "tok (fresh_entry t ip) = cap" "lr (fresh_entry t ip) = t"
    and seen: "tok (e\<lparr>last_seen := t\<rparr>) = tok e" "lr (e\<lparr>last_seen := t\<rparr>) = lr e"
    and entry: "0 \<le> tok e \<Longrightarrow> tok e \<le> cap \<Longrightarrow> lr e \<le> op_time op \<Longrightarrow> entry_step op e = (r, e') \<Longrightarrow>
      0 \<le> tok e' \<and> tok e' \<le> cap \<and> lr e' \<le> op_time op \<and> last_seen e' = last_seen e \<and>
      (if own op \<and> r = Some RATE_LIMIT_OK then 1 else 0) + avail rate cap tok lr (op_time op) e'
        \<le> avail rate cap tok lr (op_time op) e"
begin

definition entry_ok :: "time_t \<Rightarrow> ip_rate_limit \<Rightarrow> bool" where
  "entry_ok t e \<longleftrightarrow> 0 \<le> tok e \<and> tok e \<le> cap \<and> lr e \<le> last_seen e \<and> last_seen e \<le> t"

definition budget :: "time_t \<Rightarrow> ip_rate_limit option \<Rightarrow> int" where
  "budget t eo = (case eo of None \<Rightarrow> cap | Some e \<Rightarrow> avail rate cap tok lr t e)"

lemma avail_later: "t \<le> t' \<Longrightarrow> avail rate cap tok lr t' e \<le> avail rate cap tok lr t e + rate * (t' - t)"
proof -
  assume "t \<le> t'"
  then have "0 \<le> rate * (t' - t)" "rate * (t' - lr e) = rate * (t - lr e) + rate * (t' - t)"
    using rate_pos by (auto simp: algebra_simps)
  then show ?thesis by (auto simp: avail_def)
qed

lemma budget_later: "t \<le> t' \<Longrightarrow> budget t' eo \<le> budget t eo + rate * (t' - t)"
  using avail_later rate_pos by (auto simp: budget_def split: option.split)

lemma budget_le: "budget t eo \<le> cap"
  by (simp add: budget_def avail_def split: option.split)

lemma seen_entry_ok:
  assumes "pred_option (entry_ok t) old" and "t \<le> t'"
  shows "entry_ok t' (seen_entry t' ip old)"
    and "avail rate cap tok lr t' (seen_entry t' ip old) = budget t' old"
  using assms cap_pos fresh seen
  by (cases old; auto simp: seen_entry_def entry_ok_def budget_def avail_def fresh_entry_def)+

lemma change_budget:
  assumes c: "entry_changes op ip old r new" and ok: "pred_option (entry_ok t) old"
    and t: "t \<le> op_time op"
  shows "pred_option (entry_ok (op_time op)) new"
    and "(if own op \<and> op_ip op = Some ip \<and> r = Some RATE_LIMIT_OK then 1 else 0) + budget (op_time op) new
      \<le> budget (op_time op) old"
proof -
  let ?t = "op_time op" and ?e = "seen_entry (op_time op) ip old"
  let ?goal = "pred_option (entry_ok ?t) new \<and>
    (if own op \<and> op_ip op = Some ip \<and> r = Some RATE_LIMIT_OK then 1 else 0) + budget ?t new \<le> budget ?t old"
  have later: "pred_option (entry_ok ?t) old" using ok t by (cases old) (auto simp: entry_ok_def)
  have ?goal
    using c
  proof (cases rule: entry_changes_cases)
    case own
    then show ?thesis
      using entry [of ?e op r "snd (entry_step op ?e)"] seen_entry_ok [OF ok t, of ip]
      by (auto simp: entry_ok_def budget_def last_seen_seen)
  next
    case (dropped e)
    have "op_ip op = None" using dropped(1) by (cases op) auto
    moreover have "tok e + rate * (?t - lr e) \<ge> rate * 300"
      using dropped later rate_pos
      by (auto simp: entry_ok_def keep_entry_def intro: add_increasing mult_left_mono)
    ultimately show ?thesis using dropped cap_refill by (auto simp: budget_def avail_def)
  qed (use later in \<open>auto simp: budget_def\<close>)
  then show "pred_option (entry_ok ?t) new"
    and "(if own op \<and> op_ip op = Some ip \<and> r = Some RATE_LIMIT_OK then 1 else 0) + budget ?t new \<le> budget ?t old"
    by auto
qed

lemma run_budget:
  assumes "table_ok rl" and "pred_option (entry_ok t) (lookup_ip rl ip)"
    and "sorted (t # map op_time ops)" and "rl_run ops rl = (log, rl')"
  shows "table_ok rl' \<and> pred_option (entry_ok (last (t # map op_time ops))) (lookup_ip rl' ip) \<and>
    int (granted own ip log) + budget (last (t # map op_time ops)) (lookup_ip rl' ip)
      \<le> budget t (lookup_ip rl ip) + rate * (last (t # map op_time ops) - t)"
  using assms
proof (induction ops arbitrary: t rl log)
  case Nil
  then show ?case by (simp add: granted_def)
next
  case (Cons op ops)
  let ?t = "op_time op"
  obtain r rl1 log1 where st: "rl_step op rl = (r, rl1)" and run: "rl_run ops rl1 = (log1, rl')"
    and log: "log = (op, r) # log1"
    using Cons.prems(4) by (auto split: prod.splits)
  have t: "t \<le> ?t" and srt: "sorted (?t # map op_time ops)" using Cons.prems(3) by auto
  note step = rl_step_entry [OF Cons.prems(1) st, of ip]
  note bud = change_budget [OF conjunct2 [OF step] Cons.prems(2) t]
  have g: "int (granted own ip log) =
      (if own op \<and> op_ip op = Some ip \<and> r = Some RATE_LIMIT_OK then 1 else 0) + int (granted own ip log1)"
    by (simp add: log granted_def)
  let ?l = "last (?t # map op_time ops)"
  have eq: "rate * (?l - t) = rate * (?l - ?t) + rate * (?t - t)" by (simp add: algebra_simps)
  have l: "last (t # map op_time (op # ops)) = ?l" by simp
  show ?case
    using Cons.IH [OF conjunct1 [OF step] bud(1) srt run] bud(2) g
      budget_later [OF t, of "lookup_ip rl ip"]
    unfolding l eq by linarith
qed

theorem window_bound:
  assumes rl: "table_ok rl" and empty: "num_entries rl = 0"
    and srt: "sorted (map op_time (pre @ ops))" and ops: "ops \<noteq> []"
    and pre: "rl_run pre rl = (log0, rl1)" and run: "rl_run ops rl1 = (log, rl2)"
  shows "int (granted own ip log) \<le> cap + rate * (op_time (last ops) - op_time (hd ops))"
proof -
  let ?t = "case pre of [] \<Rightarrow> op_time (hd ops) | p # _ \<Rightarrow> op_time p"
  let ?h = "op_time (hd ops)"
  have none: "lookup_ip rl ip = None" using empty by (simp add: lookup_ip_def live_def)
  have "sorted (?t # map op_time pre)" using srt by (cases pre) (auto simp: sorted_append)
  from run_budget [OF rl _ this pre, of ip] none
  have 1: "table_ok rl1" "pred_option (entry_ok (last (?t # map op_time pre))) (lookup_ip rl1 ip)"
    by auto
  have "last (?t # map op_time pre) \<le> ?h"
    using srt ops by (cases pre rule: rev_cases; cases ops) (auto simp: sorted_append last_map split: list.split)
  with 1(2) have 2: "pred_option (entry_ok ?h) (lookup_ip rl1 ip)"
    by (cases "lookup_ip rl1 ip") (auto simp: entry_ok_def)
  have srt': "sorted (?h # map op_time ops)" using srt ops by (cases ops) (auto simp: sorted_append)
  have l: "last (?h # map op_time ops) = op_time (last ops)" using ops by (simp add: last_map)
  have nonneg: "0 \<le> budget (op_time (last ops)) (lookup_ip rl2 ip)"
    using run_budget [OF 1(1) 2 srt' run] cap_pos rate_pos
    unfolding l by (cases "lookup_ip rl2 ip") (auto simp: budget_def avail_def entry_ok_def)
  show ?thesis
    using run_budget [OF 1(1) 2 srt' run] budget_le [of ?h "lookup_ip rl1 ip"] nonneg
    unfolding l by linarith
qed

end

definition handshake_own :: "rl_op \<Rightarrow> bool" where
  "handshake_own op \<longleftrightarrow> (case op of CheckHandshake _ _ \<Rightarrow> True | _ \<Rightarrow> False)"

definition packet_own :: "rl_op \<Rightarrow> bool" where
  "packet_own op \<longleftrightarrow> (case op of CheckPacket _ _ \<Rightarrow> True | _ \<Rightarrow> False)"

lemma handshake_entry_bucket:
  assumes "0 \<le> handshake_tokens e" "handshake_tokens e \<le> 10" "last_handshake_refill e \<le> op_time op" "entry_step op e = (r, e')"
  shows "0 \<le> handshake_tokens e' \<and> handshake_tokens e' \<le> 10 \<and> last_handshake_refill e' \<le> op_time op \<and> last_seen e' = last_seen e \<and>
      (if handshake_own op \<and> r = Some RATE_LIMIT_OK then 1 else 0) +
        avail 5 10 handshake_tokens last_handshake_refill (op_time op) e'
        \<le> avail 5 10 handshake_tokens last_handshake_refill (op_time op) e"
  using assms
  by (cases op) (auto simp: handshake_entry_def packet_entry_def blacklist_entry_def handshake_own_def
      refill_tokens_def avail_def config_defs Let_def split: if_splits)

lemma packet_entry_bucket:
  assumes "0 \<le> packet_tokens e" "packet_tokens e \<le> 2000" "last_packet_refill e \<le> op_time op" "entry_step op e = (r, e')"
  shows "0 \<le> packet_tokens e' \<and> packet_tokens e' \<le> 2000 \<and> last_packet_refill e' \<le> op_time op \<and> last_seen e' = last_seen e \<and>
      (if packet_own op \<and> r = Some RATE_LIMIT_OK then 1 else 0) +
        avail 1000 2000 packet_tokens last_packet_refill (op_time op) e'
        \<le> avail 1000 2000 packet_tokens last_packet_refill (op_time op) e"
  using assms
  by (cases op) (auto simp: handshake_entry_def packet_entry_def blacklist_entry_def packet_own_def
      refill_tokens_def avail_def config_defs Let_def split: if_splits)

interpretation handshake_bucket:
  token_bucket 5 10 handshake_tokens last_handshake_refill handshake_own
  by (unfold_locales; (erule (3) handshake_entry_bucket | simp add: fresh_entry_def config_defs))

interpretation packet_bucket:
  token_bucket 1000 2000 packet_tokens last_packet_refill packet_own
  by (unfold_locales; (erule (3) packet_entry_bucket | simp add: fresh_entry_def config_defs))

lemma rate_limiter_init_ok:
  "rate_limiter_init now (Some blk) = Some (rl, q) \<Longrightarrow> length blk = MAX_RATE_LIMIT_ENTRIES \<Longrightarrow>
   table_ok rl \<and> num_entries rl = 0"
  by (auto simp: rate_limiter_init_def table_ok_def live_def)

text \<open>
  C12. Handshake rate limit. Start the table with \<open>rate_limiter_init\<close> and call its operations
  in any order, for any addresses, at times that do not go back. In every stretch of the run
  one address gets at most 10 handshakes plus 5 for each second the stretch lasts: neither
  the other calls nor the cleanup, which deletes buckets, ever gives a client more.
\<close>

theorem handshake_rate_bound:
  assumes "rate_limiter_init now (Some blk) = Some (rl, q)" and "length blk = MAX_RATE_LIMIT_ENTRIES"
    and "sorted (map op_time (pre @ ops))" and "ops \<noteq> []"
    and "rl_run pre rl = (log0, rl1)" and "rl_run ops rl1 = (log, rl2)"
  shows "int (granted handshake_own ip log)
    \<le> HANDSHAKE_BURST_CAPACITY + HANDSHAKE_MAX_PER_SECOND * (op_time (last ops) - op_time (hd ops))"
  using handshake_bucket.window_bound [OF _ _ assms(3-6)] rate_limiter_init_ok [OF assms(1,2)]
  by (simp add: config_defs)

theorem handshake_rate_bound_witness:
  "let blk = replicate MAX_RATE_LIMIT_ENTRIES (fresh_entry 0 0);
       ops = replicate 12 (CheckHandshake 100 7) in
   case rate_limiter_init 100 (Some blk) of
     Some (rl, q) \<Rightarrow> int (granted handshake_own 7 (fst (rl_run ops rl))) \<le> 10
   | None \<Rightarrow> False"
proof -
  define blk where "blk = replicate MAX_RATE_LIMIT_ENTRIES (fresh_entry 0 0)"
  define rl where "rl = \<lparr>entries = blk, num_entries = 0, capacity = MAX_RATE_LIMIT_ENTRIES, last_cleanup = 100\<rparr>"
  define ops where "ops = replicate 12 (CheckHandshake 100 7)"
  obtain q where init: "rate_limiter_init 100 (Some blk) = Some (rl, q)"
    by (simp add: rate_limiter_init_def rl_def)
  have len: "length blk = MAX_RATE_LIMIT_ENTRIES" by (simp add: blk_def)
  have srt: "sorted (map op_time ([] @ ops))" "ops \<noteq> []" by (simp_all add: ops_def eval_nat_numeral)
  have "int (granted handshake_own 7 (fst (rl_run ops rl))) \<le> 10"
    using handshake_rate_bound [OF init len srt rl_run.simps(1) surjective_pairing, of 7]
    by (simp add: config_defs ops_def eval_nat_numeral)
  then show ?thesis using init by (simp add: blk_def [symmetric] ops_def [symmetric] Let_def)
qed

text \<open>
  Packet rate limit: the same bound for data packets, at most 2000 plus 1000 for each
  second of the stretch, for each address.
\<close>

lemma packet_rate_bound:
  assumes "rate_limiter_init now (Some blk) = Some (rl, q)" and "length blk = MAX_RATE_LIMIT_ENTRIES"
    and "sorted (map op_time (pre @ ops))" and "ops \<noteq> []"
    and "rl_run pre rl = (log0, rl1)" and "rl_run ops rl1 = (log, rl2)"
  shows "int (granted packet_own ip log)
    \<le> PACKET_BURST_CAPACITY + PACKET_MAX_PER_SECOND * (op_time (last ops) - op_time (hd ops))"
  using packet_bucket.window_bound [OF _ _ assms(3-6)] rate_limiter_init_ok [OF assms(1,2)]
  by (simp add: config_defs)

section \<open>The blacklist\<close>

lemma blacklisted_step:
  assumes c: "entry_changes op ip (Some e) r new" and e: "T \<le> blacklist_until e"
    and t: "T \<le> op_time op + BLACKLIST_DURATION_SEC" "op_time op < T"
  shows "(\<exists>e'. new = Some e' \<and> T \<le> blacklist_until e') \<and>
    (op_ip op = Some ip \<longrightarrow> r = None \<or> r = Some RATE_LIMIT_BLACKLISTED)"
  using c
proof (cases rule: entry_changes_cases)
  case own
  with e t show ?thesis
    by (cases op) (simp_all add: seen_entry_def handshake_entry_def packet_entry_def blacklist_entry_def)
qed (use e t in \<open>auto simp: keep_entry_def\<close>)

lemma blacklisted_run:
  assumes "table_ok rl" and "lookup_ip rl ip = Some e" and "T \<le> blacklist_until e"
    and "\<forall>op\<in>set ops. T - BLACKLIST_DURATION_SEC \<le> op_time op \<and> op_time op < T"
    and "rl_run ops rl = (log, rl')"
  shows "\<forall>(op, r)\<in>set log. op_ip op = Some ip \<longrightarrow> r = None \<or> r = Some RATE_LIMIT_BLACKLISTED"
  using assms
proof (induction ops arbitrary: rl e log)
  case (Cons op ops)
  obtain r rl1 log1 where st: "rl_step op rl = (r, rl1)" and run: "rl_run ops rl1 = (log1, rl')"
    and log: "log = (op, r) # log1"
    using Cons.prems(5) by (auto split: prod.splits)
  have t: "T \<le> op_time op + BLACKLIST_DURATION_SEC" "op_time op < T" using Cons.prems(4) by auto
  note step = rl_step_entry [OF Cons.prems(1) st, of ip, unfolded Cons.prems(2)]
  note bl = blacklisted_step [OF conjunct2 [OF step] Cons.prems(3) t]
  from bl obtain e' where e': "lookup_ip rl1 ip = Some e'" "T \<le> blacklist_until e'" by auto
  show ?case
    using Cons.IH [OF conjunct1 [OF step] e' _ run] Cons.prems(4) bl by (auto simp: log)
qed simp



end
