(* ===== verification/Handshake.thy ===== *)
theory Handshake
  imports Scheduler Rate_Limiter
begin

text \<open>
  The server side of the handshake, \<open>chamlon_server/src/handshake.c\<close>: the key file
  (\<open>load_or_create_server_key\<close>), the first handshake (\<open>handle_msg1\<close>) and the key
  rotation of a running session (\<open>handle_rehandshake_msg1\<close>). The primitives of libsodium are
  fields of a parameter record; randomness, clocks and the outcomes of \<open>malloc\<close> and \<open>sendto\<close>
  are arguments of a call. The lemmas show that the handlers keep the invariant of the
  server, what a completed handshake installs, and that a failed one leaves no session behind.
\<close>

section \<open>Parameters\<close>

record sodium =
  aead_enc :: aead_fn
  aead_dec :: aead_fn
  generichash :: hash_fn
  scalarmult :: "bytes \<Rightarrow> bytes \<Rightarrow> bytes option"
  sign_detached :: "bytes \<Rightarrow> bytes \<Rightarrow> bytes option"
  sign_verify :: "bytes \<Rightarrow> bytes \<Rightarrow> bytes \<Rightarrow> bool"
  pk_to_curve :: "bytes \<Rightarrow> bytes option"
  sk_to_curve :: "bytes \<Rightarrow> bytes option"

text \<open>What one call of a handler reads from its surroundings.\<close>

record call_env =
  env_now :: time_t
  env_mono :: timespec
  env_kx :: "bytes \<times> bytes"
  env_nonce :: bytes
  env_outq :: bool
  env_task :: bool
  env_grow :: alloc
  env_sent :: bool
  env_sock :: int

record server =
  sessions :: "session list"
  limiter :: rate_limiter
  stats :: metrics
  g_shards :: "global_scheduler list"
  next_packet_id :: u16
  g_sign_sk :: "bytes option"

definition ED25519_SK_LEN :: nat where [config_defs]: "ED25519_SK_LEN = 64"
definition ED25519_PK_LEN :: nat where [config_defs]: "ED25519_PK_LEN = 32"
definition KEY_FILE_LEN :: nat where
  [config_defs]: "KEY_FILE_LEN = ED25519_SK_LEN + ED25519_PK_LEN + PUBKEY_LEN"
definition MSG1_LEN :: nat where [config_defs]: "MSG1_LEN = PUBKEY_LEN + 8"
definition PARAMS :: nat where [config_defs]: "PARAMS = 4 + 4 + 1 + 1"
definition SIG_LEN :: nat where [config_defs]: "SIG_LEN = 64"

section \<open>The key file\<close>

record server_keys =
  key_sk :: bytes
  key_pk :: bytes
  key_sign_pk :: bytes
  key_sign_sk :: bytes

text \<open>
  \<open>file\<close> is the content of the key file if it can be opened, \<open>kp\<close> the pair of public and secret key from
  \<open>crypto_sign_keypair\<close>, \<open>wr\<close> the number of bytes the three \<open>fwrite\<close> calls get
  onto the disk, \<open>None\<close> if the file cannot be opened for writing. The result is the loaded
  keys, if any, and the content of the file afterwards.
\<close>

definition create_server_key ::
  "sodium \<Rightarrow> bytes option \<Rightarrow> (bytes \<times> bytes) option \<Rightarrow> nat option \<Rightarrow> server_keys option \<times> bytes option" where
  "create_server_key so file kp wr =
     (case kp of
        None \<Rightarrow> (None, file)
      | Some (ed_pk, ed_sk) \<Rightarrow>
          (case sk_to_curve so ed_sk of
             None \<Rightarrow> (None, file)
           | Some kx_sk \<Rightarrow>
               (case pk_to_curve so ed_pk of
                  None \<Rightarrow> (None, file)
                | Some pk \<Rightarrow>
                    if pk = ed_pk then (None, file)
                    else
                      (case wr of
                         None \<Rightarrow> (None, file)
                       | Some n \<Rightarrow>
                           let content = take n (ed_sk @ ed_pk @ pk)
                           in if length content \<noteq> KEY_FILE_LEN then (None, Some content)
                              else (Some \<lparr>key_sk = kx_sk, key_pk = pk, key_sign_pk = ed_pk,
                                          key_sign_sk = ed_sk\<rparr>, Some content)))))"

definition load_or_create_server_key ::
  "sodium \<Rightarrow> bytes option \<Rightarrow> (bytes \<times> bytes) option \<Rightarrow> nat option \<Rightarrow> server_keys option \<times> bytes option" where
  "load_or_create_server_key so file kp wr =
     (case file of
        None \<Rightarrow> create_server_key so file kp wr
      | Some bs \<Rightarrow>
          let ed_sk = slice bs 0 ED25519_SK_LEN;
              ed_pk = slice bs ED25519_SK_LEN ED25519_PK_LEN;
              kx_pk = slice bs (ED25519_SK_LEN + ED25519_PK_LEN) PUBKEY_LEN
          in if length ed_sk + length ed_pk + length kx_pk = KEY_FILE_LEN
             then (case sk_to_curve so ed_sk of
                     None \<Rightarrow> (None, file)
                   | Some sk \<Rightarrow>
                       (Some \<lparr>key_sk = sk, key_pk = kx_pk, key_sign_pk = ed_pk, key_sign_sk = ed_sk\<rparr>, file))
             else create_server_key so file kp wr)"

section \<open>Messages and keys\<close>

text \<open>The blob that is signed, the second message, the two keys and the session identifier.\<close>

definition signed_blob :: "bytes \<Rightarrow> bytes \<Rightarrow> bytes \<Rightarrow> bytes \<Rightarrow> bytes" where
  "signed_blob s_pub s_nonce c_pub c_nonce = s_pub @ s_nonce @ c_pub @ c_nonce"

definition make_msg2 :: "bytes \<Rightarrow> bytes \<Rightarrow> bytes \<Rightarrow> bytes \<Rightarrow> bytes" where
  "make_msg2 s_pub s_nonce ip sig = proto_header_bytes handshake_header @ s_pub @ s_nonce @ ip @ sig"

definition handshake_keys :: "sodium \<Rightarrow> bytes \<Rightarrow> bytes \<Rightarrow> bytes \<Rightarrow> bytes \<Rightarrow> bytes \<times> bytes" where
  "handshake_keys so dh1 dh2 c_nonce s_nonce =
     derive_two_keys (generichash so) (dh1 @ dh2) (c_nonce @ s_nonce)"

definition handshake_sid :: "sodium \<Rightarrow> bytes \<Rightarrow> bytes \<Rightarrow> bytes \<Rightarrow> bytes \<Rightarrow> bytes \<Rightarrow> bytes \<Rightarrow> bytes" where
  "handshake_sid so dh1 dh2 c_nonce s_nonce c_pub s_pub =
     generichash so SESSION_ID_LEN (dh1 @ dh2 @ c_nonce @ s_nonce @ c_pub @ s_pub)"

text \<open>The parameters of the first message, after the checks of their ranges.\<close>

definition read_params :: "bytes \<Rightarrow> session \<Rightarrow> session" where
  "read_params msg1 s =
     (let base = sizeof_proto_header + PUBKEY_LEN + 8;
          mbps0 = sint (of_le32 (slice msg1 base 4));
          frag0 = sint (of_le32 (slice msg1 (base + 4) 4));
          cbr0 = msg1 ! (base + 8);
          pad0 = msg1 ! (base + 9);
          mbps = (if mbps0 < 1 \<or> mbps0 > 15 then 5 else mbps0);
          frag = (if frag0 < 64 \<or> frag0 > 1200 then 1024 else frag0);
          cbr = (if cbr0 \<noteq> char_Y \<and> cbr0 \<noteq> char_N then char_N else cbr0);
          pad = (if pad0 \<noteq> char_Y \<and> pad0 \<noteq> char_N then char_N else pad0)
      in s\<lparr>argv_MBPS := mbps, argv_FRAG := frag, argv_CBR := cbr, argv_PAD := pad\<rparr>)"

section \<open>The first handshake\<close>

text \<open>The scan that frees another session of the same address and port.\<close>

definition free_old_session ::
  "nat \<Rightarrow> sockaddr_in \<Rightarrow> session list \<Rightarrow> metrics \<Rightarrow> session list \<times> metrics" where
  "free_old_session me src tbl m =
     (case find_index (\<lambda>(j, old). j \<noteq> me \<and> active old \<and> sin_addr (client_addr old) = sin_addr src \<and>
             sin_port (client_addr old) = sin_port src) (enumerate 0 tbl) of
        None \<Rightarrow> (tbl, m)
      | Some j \<Rightarrow>
          (tbl[j := (tbl ! j)\<lparr>k_recv := replicate AEAD_KEY_LEN 0, k_send := replicate AEAD_KEY_LEN 0,
                 session_id := replicate SESSION_ID_LEN 0, outq := None, active := False\<rparr>],
           metrics_record_connection_closed m))"

definition handle_msg1 ::
  "sodium \<Rightarrow> call_env \<Rightarrow> bytes \<Rightarrow> sockaddr_in \<Rightarrow> bytes \<Rightarrow> server \<Rightarrow>
   (int \<times> datagram list \<times> server) option" where
  "handle_msg1 so env msg1 src server_sk st0 =
     (case g_sign_sk st0 of
        None \<Rightarrow> Some (-1, [], st0)
      | Some sign_sk \<Rightarrow>
     (let st1 = st0\<lparr>stats := metrics_record_handshake_initiated (stats st0)\<rparr>;
          (rate_check, rl) = check_handshake_rate_limit (env_now env) (sin_addr src) (limiter st1);
          st2 = st1\<lparr>limiter := rl\<rparr>
      in if rate_check = RATE_LIMIT_BLACKLISTED
         then Some (-1, [], st2\<lparr>stats := metrics_record_blacklist_event (metrics_record_handshake_failed (stats st2))\<rparr>)
         else if rate_check = RATE_LIMIT_EXCEEDED
         then Some (-1, [], st2\<lparr>stats := metrics_record_handshake_failed (stats st2)\<rparr>)
         else if length msg1 \<noteq> sizeof_proto_header + MSG1_LEN + PARAMS then Some (-1, [], st2)
         else
     (let c_pub = slice msg1 sizeof_proto_header PUBKEY_LEN;
          c_nonce = slice msg1 (sizeof_proto_header + PUBKEY_LEN) 8;
          (s_pub, s_priv) = env_kx env;
          s_nonce = env_nonce env
      in case allocate_session (sessions st2) of
           (None, tbl) \<Rightarrow>
             Some (-1, [], st2\<lparr>sessions := tbl, stats := metrics_record_handshake_failed (stats st2)\<rparr>)
         | (Some i, tbl) \<Rightarrow>
     (let tbl1 = assign_vpn_ip_to_session i tbl;
          tbl2 = tbl1[i := read_params msg1 (tbl1 ! i)];
          st3 = st2\<lparr>sessions := tbl2\<rparr>;
          fail = (\<lambda>st. let (t, m) = free_session i (sessions st) (stats st)
                       in Some (-1, [], st\<lparr>sessions := t, stats := m\<rparr>))
      in case sign_detached so (signed_blob s_pub s_nonce c_pub c_nonce) sign_sk of
           None \<Rightarrow> fail st3
         | Some sig \<Rightarrow>
     (let msg2 = make_msg2 s_pub s_nonce (vpn_ip (tbl2 ! i)) sig
      in case scalarmult so s_priv c_pub of
           None \<Rightarrow> fail st3
         | Some dh1 \<Rightarrow>
      (case scalarmult so server_sk c_pub of
           None \<Rightarrow> fail st3
         | Some dh2 \<Rightarrow>
     (let (k1, k2) = handshake_keys so dh1 dh2 c_nonce s_nonce;
          s1 = (tbl2 ! i)\<lparr>k_recv := k1, k_send := k2, s_udp_sock := env_sock env,
                 session_id := handshake_sid so dh1 dh2 c_nonce s_nonce c_pub s_pub\<rparr>;
          s2 = (prepare_dummy_static_parts s1)\<lparr>send_seq := 0, last_recv_seq := 0, active := True\<rparr>;
          (tbl3, m3) = free_old_session i src (tbl2[i := s2]) (stats st3);
          s3 = (tbl3 ! i)\<lparr>client_addr := src, client_addrlen := sizeof_sockaddr_in,
                 last_activity := env_now env,
                 outq := (if env_outq env then Some lanes_empty else None)\<rparr>;
          st4 = st3\<lparr>sessions := tbl3[i := s3], stats := m3\<rparr>
      in if \<not> env_outq env then fail st4
         else
      (case scheduler_add_session (env_task env) (env_grow env) (env_mono env) (session_id s3) (g_shards st4) of
           None \<Rightarrow> None
         | Some shs \<Rightarrow>
             let st5 = st4\<lparr>g_shards := shs\<rparr>
             in if \<not> env_sent env then fail st5
                else Some (0, [(src, msg2)],
                       st5\<lparr>sessions := (sessions st5)[i := (sessions st5 ! i)\<lparr>last_activity_keepalive := env_now env\<rparr>],
                           stats := metrics_record_connection_established
                                      (metrics_record_handshake_completed (stats st5))\<rparr>)))))))))"

section \<open>Key rotation\<close>

definition handle_rehandshake_msg1 ::
  "sodium \<Rightarrow> call_env \<Rightarrow> bytes \<Rightarrow> sockaddr_in \<Rightarrow> bytes \<Rightarrow> server \<Rightarrow>
   (int \<times> datagram list \<times> server) option" where
  "handle_rehandshake_msg1 so env msg1 src server_sk st =
     (if length msg1 \<noteq> sizeof_proto_header + MSG1_LEN + PARAMS then Some (-1, [], st)
      else
        (case session_by_addr src (sessions st) of
           None \<Rightarrow> handle_msg1 so env msg1 src server_sk st
         | Some i \<Rightarrow>
     (let fail = handle_msg1 so env msg1 src server_sk st;
          s = sessions st ! i;
          (s_pub, s_priv) = env_kx env;
          s_nonce = env_nonce env;
          c_pub = slice msg1 sizeof_proto_header PUBKEY_LEN;
          c_nonce = slice msg1 (sizeof_proto_header + PUBKEY_LEN) 8
      in case scalarmult so s_priv c_pub of
           None \<Rightarrow> fail
         | Some dh1 \<Rightarrow>
      (case scalarmult so server_sk c_pub of
           None \<Rightarrow> fail
         | Some dh2 \<Rightarrow>
     (let (k1, k2) = handshake_keys so dh1 dh2 c_nonce s_nonce;
          new_sid = handshake_sid so dh1 dh2 c_nonce s_nonce c_pub s_pub
      in case sign_detached so (signed_blob s_pub s_nonce c_pub c_nonce) (case g_sign_sk st of None \<Rightarrow> replicate ED25519_SK_LEN 0 | Some sk \<Rightarrow> sk) of
           None \<Rightarrow> fail
         | Some sig \<Rightarrow>
     (let msg2 = make_msg2 s_pub s_nonce (vpn_ip s) sig;
          s1 = s\<lparr>k_recv := k1, k_send := k2, session_id := new_sid,
                 outq := (if env_outq env then Some lanes_empty else None)\<rparr>;
          s2 = (prepare_dummy_static_parts s1)\<lparr>send_seq := 0, rw := replay_window_zero,
                 last_recv_seq := 0, last_activity := env_now env\<rparr>;
          st1 = st\<lparr>sessions := (sessions st)[i := s2]\<rparr>
      in case scheduler_add_session (env_task env) (env_grow env) (env_mono env) (session_id s2) (g_shards st1) of
           None \<Rightarrow> None
         | Some shs \<Rightarrow> Some (0, (if env_sent env then [(src, msg2)] else []), st1\<lparr>g_shards := shs\<rparr>)))))))"

section \<open>Invariant of the server\<close>

definition shards_ok :: "global_scheduler list \<Rightarrow> bool" where
  "shards_ok shs \<longleftrightarrow> length shs = NUM_SHARDS \<and> (\<forall>sh\<in>set shs. \<exists>pq. sh_pq sh = Some pq \<and> pq_inv pq)"

definition server_ok :: "server \<Rightarrow> bool" where
  "server_ok st \<longleftrightarrow> sessions_ok (sessions st) \<and> queues_ok (sessions st) \<and> shards_ok (g_shards st)"

text \<open>The lengths libsodium documents for its outputs.\<close>

definition sodium_lens :: "sodium \<Rightarrow> bool" where
  "sodium_lens so \<longleftrightarrow> aead_len (aead_enc so) \<and>
     (\<forall>k n ad c m. aead_dec so k n ad c = Some m \<longrightarrow> length c = length m + MAC_LEN) \<and>
     (\<forall>n m. length (generichash so n m) = n)"

lemma handshake_lens:
  assumes "sodium_lens so" "handshake_keys so dh1 dh2 cn sn = (k1, k2)"
  shows "length k1 = 32" "length k2 = 32" "length (handshake_sid so dh1 dh2 cn sn cp sp) = 16"
  using assms by (auto simp: sodium_lens_def handshake_keys_def derive_two_keys_def handshake_sid_def
      Let_def config_defs)

lemma read_params_ok: "params_ok (read_params msg1 s)"
  by (auto simp: read_params_def params_ok_def Let_def)

lemma read_params_same [simp]:
  "active (read_params m s) = active s" "vpn_ip (read_params m s) = vpn_ip s"
  "session_id (read_params m s) = session_id s" "k_recv (read_params m s) = k_recv s"
  "k_send (read_params m s) = k_send s" "rw (read_params m s) = rw s"
  "g_reassembly_table (read_params m s) = g_reassembly_table s" "outq (read_params m s) = outq s"
  "dummy_payload (read_params m s) = dummy_payload s" "final_pkt_dummy (read_params m s) = final_pkt_dummy s"
  by (simp_all add: read_params_def Let_def)

lemma shards_ok_update: "shards_ok shs \<Longrightarrow> pq_inv pq \<Longrightarrow> shards_ok (shs[i := sh\<lparr>sh_pq := Some pq\<rparr>])"
  unfolding shards_ok_def length_list_update by (intro conjI set_update_ball) auto

lemma scheduler_add_ok:
  assumes "shards_ok shs" "length sid = 16"
  obtains shs' where "scheduler_add_session mem grow now sid shs = Some shs'" "shards_ok shs'"
proof (cases mem)
  case True
  let ?i = "unat (sid ! 0) mod NUM_SHARDS"
  have i: "?i < length shs" using assms(1) by (simp add: shards_ok_def NUM_SHARDS_def)
  then obtain pq where pq: "sh_pq (shs ! ?i) = Some pq" "pq_inv pq"
    using assms(1) nth_mem [OF i] unfolding shards_ok_def by blast
  show ?thesis
  proof (rule that)
    show "scheduler_add_session mem grow now sid shs =
        Some (shs[?i := (shs ! ?i)\<lparr>sh_pq := Some (pq_push grow \<lparr>next_run = now,
          task_session_id = take SESSION_ID_LEN sid\<rparr> pq)\<rparr>])"
      using True pq by (simp add: scheduler_add_session_def Let_def)
    show "shards_ok (shs[?i := (shs ! ?i)\<lparr>sh_pq := Some (pq_push grow \<lparr>next_run = now,
          task_session_id = take SESSION_ID_LEN sid\<rparr> pq)\<rparr>])"
      using shards_ok_update [OF assms(1)] pq_push_inv [OF pq(2)] by simp
  qed
qed (use assms that in \<open>simp add: scheduler_add_session_def\<close>)

definition dropped_session :: "session \<Rightarrow> session" where
  "dropped_session s = s\<lparr>k_recv := replicate AEAD_KEY_LEN 0, k_send := replicate AEAD_KEY_LEN 0,
     session_id := replicate SESSION_ID_LEN 0, outq := None, active := False\<rparr>"

lemma dropped_slot: "slot_ok i s \<Longrightarrow> slot_ok i (dropped_session s)"
  by (simp add: slot_ok_def session_shape_def dropped_session_def)

lemma free_old_session_cases:
  obtains (none) "free_old_session i src tbl m = (tbl, m)"
  | (some) j where "j < length tbl" "j \<noteq> i" "active (tbl ! j)" "sin_addr (client_addr (tbl ! j)) = sin_addr src"
      "sin_port (client_addr (tbl ! j)) = sin_port src"
      "free_old_session i src tbl m = (tbl[j := dropped_session (tbl ! j)], metrics_record_connection_closed m)"
proof (cases "find_index (\<lambda>(j, old). j \<noteq> i \<and> active old \<and> sin_addr (client_addr old) = sin_addr src \<and>
             sin_port (client_addr old) = sin_port src) (enumerate 0 tbl)")
  case None
  then show ?thesis using none by (simp add: free_old_session_def)
next
  case (Some j)
  have "free_old_session i src tbl m =
      (tbl[j := dropped_session (tbl ! j)], metrics_record_connection_closed m)"
    using Some by (simp add: free_old_session_def dropped_session_def)
  moreover have "j < length tbl \<and> j \<noteq> i \<and> active (tbl ! j) \<and>
      sin_addr (client_addr (tbl ! j)) = sin_addr src \<and> sin_port (client_addr (tbl ! j)) = sin_port src"
    using find_index_SomeD(1,2) [OF Some] by (simp add: nth_enumerate_eq)
  ultimately show ?thesis using some by blast
qed

lemma free_old_session_props:
  assumes "free_old_session i src tbl m = (tbl', m')" "sessions_ok tbl" "queues_ok tbl" "i < length tbl"
  shows "sessions_ok tbl'" "queues_ok tbl'" "tbl' ! i = tbl ! i" "length tbl' = length tbl"
    "\<And>j. j < length tbl \<Longrightarrow> active (tbl' ! j) \<Longrightarrow> tbl' ! j = tbl ! j"
proof -
  have "sessions_ok tbl' \<and> queues_ok tbl' \<and> tbl' ! i = tbl ! i \<and> length tbl' = length tbl \<and>
    (\<forall>j < length tbl. active (tbl' ! j) \<longrightarrow> tbl' ! j = tbl ! j)"
  proof (cases rule: free_old_session_cases [of i src tbl m])
    case none
    then show ?thesis using assms by simp
  next
    case (some j)
    have "tbl' = tbl[j := dropped_session (tbl ! j)]" using some(6) assms(1) by simp
    moreover have "\<not> active (dropped_session (tbl ! j))" by (simp add: dropped_session_def)
    ultimately show ?thesis
      using assms(2-4) some(1,2) dropped_slot [OF sessions_okD [OF assms(2) some(1)]]
      by (auto intro!: sessions_ok_update queues_ok_update simp: nth_list_update)
  qed
  then show "sessions_ok tbl'" "queues_ok tbl'" "tbl' ! i = tbl ! i" "length tbl' = length tbl"
    "\<And>j. j < length tbl \<Longrightarrow> active (tbl' ! j) \<Longrightarrow> tbl' ! j = tbl ! j" by auto
qed

section \<open>What a first message does\<close>

text \<open>
  The server after the rate check; when a message is admitted, with the slot it gets; and
  that slot with the address and the parameters, with its keys, and ready for traffic.
\<close>

definition rate_checked :: "call_env \<Rightarrow> sockaddr_in \<Rightarrow> server \<Rightarrow> server" where
  "rate_checked env src st =
     st\<lparr>stats := metrics_record_handshake_initiated (stats st),
        limiter := snd (check_handshake_rate_limit (env_now env) (sin_addr src) (limiter st))\<rparr>"

definition admitted :: "call_env \<Rightarrow> bytes \<Rightarrow> sockaddr_in \<Rightarrow> server \<Rightarrow> nat \<Rightarrow> bool" where
  "admitted env msg1 src st i \<longleftrightarrow>
     g_sign_sk st \<noteq> None \<and>
     fst (check_handshake_rate_limit (env_now env) (sin_addr src) (limiter st)) = RATE_LIMIT_OK \<and>
     length msg1 = 56 \<and> find_index (\<lambda>s. \<not> active s) (sessions st) = Some i"

definition msg1_pub :: "bytes \<Rightarrow> bytes" where "msg1_pub msg1 = slice msg1 6 32"
definition msg1_nonce :: "bytes \<Rightarrow> bytes" where "msg1_nonce msg1 = slice msg1 38 8"

definition prepared_slot :: "nat \<Rightarrow> bytes \<Rightarrow> session \<Rightarrow> session" where
  "prepared_slot i msg1 s = read_params msg1 (s\<lparr>rw := replay_window_zero, vpn_ip := vpn_addr i\<rparr>)"

definition keyed_slot :: "sodium \<Rightarrow> call_env \<Rightarrow> bytes \<Rightarrow> bytes \<Rightarrow> bytes \<Rightarrow> session \<Rightarrow> session" where
  "keyed_slot so env msg1 dh1 dh2 s =
     (let (k1, k2) = handshake_keys so dh1 dh2 (msg1_nonce msg1) (env_nonce env)
      in (prepare_dummy_static_parts
           (s\<lparr>k_recv := k1, k_send := k2, s_udp_sock := env_sock env,
              session_id := handshake_sid so dh1 dh2 (msg1_nonce msg1) (env_nonce env) (msg1_pub msg1)
                              (fst (env_kx env))\<rparr>))\<lparr>send_seq := 0, last_recv_seq := 0, active := True\<rparr>)"

definition ready_slot :: "call_env \<Rightarrow> sockaddr_in \<Rightarrow> session \<Rightarrow> session" where
  "ready_slot env src s =
     s\<lparr>client_addr := src, client_addrlen := sizeof_sockaddr_in, last_activity := env_now env,
       outq := (if env_outq env then Some lanes_empty else None)\<rparr>"

definition msg1_crypto :: "sodium \<Rightarrow> call_env \<Rightarrow> bytes \<Rightarrow> bytes \<Rightarrow> server \<Rightarrow> (bytes \<times> bytes \<times> bytes) option" where
  "msg1_crypto so env msg1 server_sk st =
     (case g_sign_sk st of
        None \<Rightarrow> None
      | Some sk \<Rightarrow>
          (case sign_detached so (signed_blob (fst (env_kx env)) (env_nonce env) (msg1_pub msg1) (msg1_nonce msg1)) sk of
             None \<Rightarrow> None
           | Some sig \<Rightarrow>
               (case scalarmult so (snd (env_kx env)) (msg1_pub msg1) of
                  None \<Rightarrow> None
                | Some dh1 \<Rightarrow>
                    (case scalarmult so server_sk (msg1_pub msg1) of
                       None \<Rightarrow> None
                     | Some dh2 \<Rightarrow> Some (sig, dh1, dh2)))))"

lemma msg1_refused:
  assumes "\<And>i. \<not> admitted env msg1 src st i"
  obtains st' where "handle_msg1 so env msg1 src server_sk st = Some (-1, [], st')"
    "sessions st' = sessions st" "g_shards st' = g_shards st"
proof (cases "g_sign_sk st")
  case None
  then show ?thesis using that by (simp add: handle_msg1_def)
next
  case (Some sk)
  obtain r rl where rl: "check_handshake_rate_limit (env_now env) (sin_addr src) (limiter st) = (r, rl)"
    by (cases "check_handshake_rate_limit (env_now env) (sin_addr src) (limiter st)")
  show ?thesis
  proof (cases "r = RATE_LIMIT_OK \<and> length msg1 = 56")
    case True
    then have "find_index (\<lambda>s. \<not> active s) (sessions st) = None"
      using assms Some rl by (auto simp: admitted_def)
    then show ?thesis
      using that True Some rl
      by (simp add: handle_msg1_def config_defs allocate_session_def split_beta)
  next
    case False
    then show ?thesis
      using that Some rl by (cases r) (simp_all add: handle_msg1_def config_defs)
  qed
qed

definition failed :: "nat \<Rightarrow> server \<Rightarrow> int \<times> datagram list \<times> server" where
  "failed i st =
     (let (t, m) = free_session i (sessions st) (stats st) in (-1, [], st\<lparr>sessions := t, stats := m\<rparr>))"

lemma handle_msg1_admitted:
  assumes adm: "admitted env msg1 src st i"
  defines "st2 \<equiv> rate_checked env src st"
  defines "tbl \<equiv> (sessions st)[i := prepared_slot i msg1 (sessions st ! i)]"
  shows "handle_msg1 so env msg1 src server_sk st =
    (case msg1_crypto so env msg1 server_sk st of
       None \<Rightarrow> Some (failed i (st2\<lparr>sessions := tbl\<rparr>))
     | Some (sig, dh1, dh2) \<Rightarrow>
         let (tbl3, m3) = free_old_session i src (tbl[i := keyed_slot so env msg1 dh1 dh2 (tbl ! i)]) (stats st2);
             st4 = st2\<lparr>sessions := tbl3[i := ready_slot env src (tbl3 ! i)], stats := m3\<rparr>
         in if \<not> env_outq env then Some (failed i st4)
            else
              (case scheduler_add_session (env_task env) (env_grow env) (env_mono env)
                      (session_id (tbl3 ! i)) (g_shards st) of
                 None \<Rightarrow> None
               | Some shs \<Rightarrow>
                   let st5 = st4\<lparr>g_shards := shs\<rparr>
                   in if \<not> env_sent env then Some (failed i st5)
                      else Some (0, [(src, make_msg2 (fst (env_kx env)) (env_nonce env) (vpn_addr i) sig)],
                        st5\<lparr>sessions := (sessions st5)[i := (sessions st5 ! i)\<lparr>last_activity_keepalive := env_now env\<rparr>],
                            stats := metrics_record_connection_established
                                       (metrics_record_handshake_completed m3)\<rparr>)))"
proof -
  obtain sk where sk: "g_sign_sk st = Some sk" using adm by (auto simp: admitted_def)
  obtain rl where rl: "check_handshake_rate_limit (env_now env) (sin_addr src) (limiter st) = (RATE_LIMIT_OK, rl)"
    using adm by (cases "check_handshake_rate_limit (env_now env) (sin_addr src) (limiter st)")
      (auto simp: admitted_def)
  have i: "i < length (sessions st)" "find_index (\<lambda>s. \<not> active s) (sessions st) = Some i" "length msg1 = 56"
    using adm by (auto simp: admitted_def dest: find_index_SomeD)
  obtain pub priv where kx: "env_kx env = (pub, priv)" by (cases "env_kx env")
  have ip: "vpn_ip (tbl ! i) = vpn_addr i" using i by (simp add: tbl_def prepared_slot_def)
  have tbl: "(let tbl1 = assign_vpn_ip_to_session i ((sessions st)[i := (sessions st ! i)\<lparr>rw := replay_window_zero\<rparr>])
      in tbl1[i := read_params msg1 (tbl1 ! i)]) = tbl"
    using i by (simp add: assign_vpn_ip_to_session_def tbl_def prepared_slot_def vpn_addr_def)
  note pub = msg1_pub_def msg1_nonce_def
  have lens: "MSG1_LEN = 40" "PARAMS = 10" "sizeof_proto_header = 6" "PUBKEY_LEN = 32"
    by (simp_all add: config_defs)
  show ?thesis
    unfolding handle_msg1_def sk rl kx st2_def failed_def [abs_def] msg1_crypto_def pub
      allocate_session_def lens keyed_slot_def ready_slot_def
    using i ip tbl
    by (simp add: Let_def sk rl kx rate_checked_def split: option.split prod.split)
qed

lemma prepared_slot_ok:
  assumes "slot_ok i s" "\<not> active s"
  shows "slot_ok i (prepared_slot i msg1 s)" "\<not> active (prepared_slot i msg1 s)"
    "params_ok (prepared_slot i msg1 s)" "vpn_ip (prepared_slot i msg1 s) = vpn_addr i"
    "rw (prepared_slot i msg1 s) = replay_window_zero"
  using assms read_params_ok
  by (auto simp: prepared_slot_def slot_ok_def session_shape_def vpn_addr_def)

lemma keyed_slot_ok:
  assumes so: "sodium_lens so" and s: "session_shape s" "params_ok s" "vpn_ip s = vpn_addr i"
  shows "slot_ok i (keyed_slot so env msg1 dh1 dh2 s)"
proof -
  obtain k1 k2 where k: "handshake_keys so dh1 dh2 (msg1_nonce msg1) (env_nonce env) = (k1, k2)"
    by (cases "handshake_keys so dh1 dh2 (msg1_nonce msg1) (env_nonce env)")
  define t where "t = s\<lparr>k_recv := k1, k_send := k2, s_udp_sock := env_sock env,
      session_id := handshake_sid so dh1 dh2 (msg1_nonce msg1) (env_nonce env) (msg1_pub msg1) (fst (env_kx env))\<rparr>"
  have "session_shape t" "params_ok t" "vpn_ip t = vpn_addr i"
    using s handshake_lens [OF so k] by (auto simp: t_def session_shape_def params_ok_def config_defs)
  from prepare_dummy_ok [OF this(1,2)] this(3)
  show ?thesis
    by (auto simp: keyed_slot_def k t_def [symmetric] slot_ok_def session_shape_def params_ok_def dummy_ok_def)
qed

lemma keyed_slot_fields:
  "active (keyed_slot so env msg1 dh1 dh2 s)" "send_seq (keyed_slot so env msg1 dh1 dh2 s) = 0"
  "(k_recv (keyed_slot so env msg1 dh1 dh2 s), k_send (keyed_slot so env msg1 dh1 dh2 s)) =
     handshake_keys so dh1 dh2 (msg1_nonce msg1) (env_nonce env)"
  "session_id (keyed_slot so env msg1 dh1 dh2 s) =
     handshake_sid so dh1 dh2 (msg1_nonce msg1) (env_nonce env) (msg1_pub msg1) (fst (env_kx env))"
  "rw (keyed_slot so env msg1 dh1 dh2 s) = rw s"
  by (simp_all add: keyed_slot_def split_beta)

lemma ready_slot_ok:
  "slot_ok i (ready_slot env src s) = slot_ok i s" "cbr_queue (ready_slot env src s)"
  by (simp_all add: ready_slot_def slot_ok_def session_shape_def params_ok_def dummy_ok_def cbr_queue_def
      queued_def lanes_empty_def)

text \<open>What a completed handshake leaves in the slot of the new session.\<close>

definition session_installed ::
  "sodium \<Rightarrow> call_env \<Rightarrow> bytes \<Rightarrow> sockaddr_in \<Rightarrow> bytes \<Rightarrow> bytes \<Rightarrow> nat \<Rightarrow> session \<Rightarrow> bool" where
  "session_installed so env msg1 src dh1 dh2 i s \<longleftrightarrow>
     active s \<and> (k_recv s, k_send s) = handshake_keys so dh1 dh2 (msg1_nonce msg1) (env_nonce env) \<and>
     session_id s = handshake_sid so dh1 dh2 (msg1_nonce msg1) (env_nonce env) (msg1_pub msg1) (fst (env_kx env)) \<and>
     vpn_ip s = vpn_addr i \<and> params_ok s \<and> client_addr s = src \<and> send_seq s = 0 \<and>
     rw s = replay_window_zero \<and> outq s = Some lanes_empty"

definition others_kept :: "nat set \<Rightarrow> session list \<Rightarrow> session list \<Rightarrow> bool" where
  "others_kept I tbl tbl' \<longleftrightarrow> (\<forall>j<length tbl'. j \<notin> I \<longrightarrow> active (tbl' ! j) \<longrightarrow> tbl' ! j = tbl ! j)"

lemma queues_nth: "queues_ok tbl \<Longrightarrow> i < length tbl \<Longrightarrow> active (tbl ! i) \<Longrightarrow> cbr_queue (tbl ! i)"
  by (simp add: queues_ok_def)

lemma server_okI:
  "sessions_ok (sessions st) \<Longrightarrow> queues_ok (sessions st) \<Longrightarrow> shards_ok (g_shards st) \<Longrightarrow> server_ok st"
  by (simp add: server_ok_def)

lemma failed_props:
  assumes "sessions_ok (sessions st)" "queues_ok (sessions st)" "shards_ok (g_shards st)" "i < length (sessions st)"
  shows "\<exists>st'. failed i st = (-1, [], st') \<and> server_ok st' \<and>
    (\<forall>j<length (sessions st). active (sessions st' ! j) \<longrightarrow> j \<noteq> i \<and> sessions st' ! j = sessions st ! j)"
proof (cases "active (sessions st ! i)")
  case True
  let ?w = "wipe_session ((sessions st ! i)\<lparr>outq := None\<rparr>)"
  have w: "\<not> active ?w" by (simp add: wipe_session_def)
  have "slot_ok i ?w"
    by (rule wipe_slot_ok) (use sessions_okD [OF assms(1,4)] in simp)
  then show ?thesis
    using True assms w
    by (auto simp: failed_def free_session_def nth_list_update intro!: server_okI sessions_ok_update queues_ok_update)
next
  case False
  then show ?thesis using assms by (auto simp: failed_def free_session_def intro!: server_okI)
qed

text \<open>The state in which the keys are installed: the new slot and the slots of the others.\<close>

lemma install_props:
  assumes st: "server_ok st" and so: "sodium_lens so" and adm: "admitted env msg1 src st i"
    and "tbl = (sessions st)[i := prepared_slot i msg1 (sessions st ! i)]"
    and free: "free_old_session i src (tbl[i := keyed_slot so env msg1 dh1 dh2 (tbl ! i)]) m = (tbl3, m3)"
    and "tbl4 = tbl3[i := ready_slot env src (tbl3 ! i)]"
  shows "sessions_ok tbl4" "queues_ok tbl4" "i < length tbl4" "length tbl4 = length (sessions st)"
    "tbl4 ! i = ready_slot env src (keyed_slot so env msg1 dh1 dh2 (prepared_slot i msg1 (sessions st ! i)))"
    "session_id (tbl3 ! i) = session_id (tbl4 ! i)" "others_kept {i} (sessions st) tbl4"
    "slot_ok i (tbl4 ! i)"
proof -
  let ?s = "sessions st ! i"
  have i: "i < length (sessions st)" "\<not> active ?s"
    using adm by (auto simp: admitted_def dest: find_index_SomeD)
  have ok: "sessions_ok (sessions st)" "queues_ok (sessions st)" using st by (simp_all add: server_ok_def)
  note p = prepared_slot_ok [OF sessions_okD [OF ok(1) i(1)] i(2), of msg1]
  have ti: "tbl ! i = prepared_slot i msg1 ?s" "length tbl = length (sessions st)" using i assms(4) by simp_all
  let ?k = "keyed_slot so env msg1 dh1 dh2 (prepared_slot i msg1 ?s)"
  have k: "slot_ok i ?k" by (rule keyed_slot_ok [OF so slot_shape [OF p(1)] p(3,4)])
  let ?t = "(sessions st)[i := ?k]"
  have t: "tbl[i := keyed_slot so env msg1 dh1 dh2 (tbl ! i)] = ?t" using i assms(4) by simp
  have tok: "sessions_ok ?t" using ok(1) k by (auto intro: sessions_ok_update)
  have cases3: "tbl3 = ?t \<or> (\<exists>j. j < length ?t \<and> j \<noteq> i \<and> tbl3 = ?t[j := dropped_session (?t ! j)])"
    using free unfolding t by (cases rule: free_old_session_cases [of i src ?t m]) auto
  have 3: "sessions_ok tbl3" "length tbl3 = length (sessions st)" "tbl3 ! i = ?k"
    using cases3 tok i by (auto intro!: sessions_ok_update dropped_slot dest: sessions_okD)
  have i3: "tbl3[i := x] = ((sessions st)[i := x])
      \<or> (\<exists>j. j < length (sessions st) \<and> j \<noteq> i \<and> tbl3[i := x] = (sessions st)[i := x, j := dropped_session (sessions st ! j)])" for x
    using cases3 by (auto simp: list_update_swap)
  let ?r = "ready_slot env src ?k"
  have r: "slot_ok i ?r" "cbr_queue ?r" using k by (simp_all add: ready_slot_ok)
  have four: "tbl4 = tbl3[i := ?r]" using assms(6) 3(3) by simp
  have drop: "\<not> active (dropped_session x)" for x by (simp add: dropped_session_def)
  show "sessions_ok tbl4" unfolding four using 3(1) r(1) by (auto intro: sessions_ok_update)
  have q: "queues_ok ((sessions st)[i := ?r])" by (rule queues_ok_update [OF ok(2) r(2)])
  show "queues_ok tbl4" using i3 [of ?r] unfolding four [symmetric]
  proof (elim disjE exE conjE)
    assume "tbl4 = (sessions st)[i := ?r]"
    then show ?thesis using q by simp
  next
    fix j assume "tbl4 = (sessions st)[i := ?r, j := dropped_session (sessions st ! j)]"
    then show ?thesis using queues_ok_update [OF q, of "dropped_session (sessions st ! j)" j] drop by simp
  qed
  show "i < length tbl4" "length tbl4 = length (sessions st)" "tbl4 ! i = ?r" "slot_ok i (tbl4 ! i)"
    unfolding four using 3(2) i r(1) by simp_all
  show "session_id (tbl3 ! i) = session_id (tbl4 ! i)" unfolding four using 3 i by (simp add: ready_slot_def)
  show "others_kept {i} (sessions st) tbl4"
    using i3 [of ?r] drop unfolding others_kept_def four [symmetric]
    by (auto simp: nth_list_update split: if_splits)
qed

lemma failed_outcome:
  assumes "sessions_ok (sessions st1)" "queues_ok (sessions st1)" "shards_ok (g_shards st1)"
    "i < length (sessions st1)" "others_kept {i} tbl (sessions st1)"
  shows "\<exists>st'. failed i st1 = (-1, [], st') \<and> server_ok st' \<and> others_kept {} tbl (sessions st')"
proof -
  obtain st' where st': "failed i st1 = (-1, [], st')" "server_ok st'"
    "\<forall>j<length (sessions st1). active (sessions st' ! j) \<longrightarrow> j \<noteq> i \<and> sessions st' ! j = sessions st1 ! j"
    using failed_props [OF assms(1-4)] by blast
  have "length (sessions st') = length (sessions st1)"
    using st'(2) assms(1) by (simp add: server_ok_def sessions_ok_def)
  then have "others_kept {} tbl (sessions st')"
    using st'(3) assms(5) unfolding others_kept_def by auto
  then show ?thesis using st' by blast
qed

lemma installed_ready:
  assumes "params_ok s" "vpn_ip s = vpn_addr i" "rw s = replay_window_zero" "env_outq env"
    "slot_ok i (ready_slot env src (keyed_slot so env msg1 dh1 dh2 s))"
  shows "session_installed so env msg1 src dh1 dh2 i
    ((ready_slot env src (keyed_slot so env msg1 dh1 dh2 s))\<lparr>last_activity_keepalive := t\<rparr>)"
proof -
  let ?r = "ready_slot env src (keyed_slot so env msg1 dh1 dh2 s)"
  have "active ?r" by (simp add: ready_slot_def keyed_slot_fields)
  from slot_active [OF assms(5) this] this show ?thesis
    using assms(3,4) keyed_slot_fields [of so env msg1 dh1 dh2 s]
    by (simp add: session_installed_def ready_slot_def params_ok_def)
qed

definition completes :: "sodium \<Rightarrow> call_env \<Rightarrow> bytes \<Rightarrow> sockaddr_in \<Rightarrow> bytes \<Rightarrow> server \<Rightarrow> bool" where
  "completes so env msg1 src server_sk st \<longleftrightarrow>
     (\<exists>i<length (sessions st). admitted env msg1 src st i) \<and> msg1_crypto so env msg1 server_sk st \<noteq> None \<and>
     env_outq env \<and> env_sent env"

lemma admitted_outcome:
  assumes st: "server_ok st" and so: "sodium_lens so" and adm: "admitted env msg1 src st i"
  shows "\<exists>rc ds st'. handle_msg1 so env msg1 src server_sk st = Some (rc, ds, st') \<and> server_ok st' \<and>
    (if completes so env msg1 src server_sk st
     then rc = 0 \<and> (\<exists>i sig dh1 dh2. admitted env msg1 src st i \<and>
       msg1_crypto so env msg1 server_sk st = Some (sig, dh1, dh2) \<and>
       ds = [(src, make_msg2 (fst (env_kx env)) (env_nonce env) (vpn_addr i) sig)] \<and>
       session_installed so env msg1 src dh1 dh2 i (sessions st' ! i) \<and>
       others_kept {i} (sessions st) (sessions st'))
     else rc = -1 \<and> ds = [] \<and> others_kept {} (sessions st) (sessions st'))"
proof -
  define st2 where "st2 = rate_checked env src st"
  define tbl where "tbl = (sessions st)[i := prepared_slot i msg1 (sessions st ! i)]"
  have i: "i < length (sessions st)" "\<not> active (sessions st ! i)"
    using adm by (auto simp: admitted_def dest: find_index_SomeD)
  have ok: "sessions_ok (sessions st)" "queues_ok (sessions st)" "shards_ok (g_shards st)"
    using st by (simp_all add: server_ok_def)
  have st2: "g_shards st2 = g_shards st" by (simp add: st2_def rate_checked_def)
  note p = prepared_slot_ok [OF sessions_okD [OF ok(1) i(1)] i(2), of msg1]
  note eq = handle_msg1_admitted [OF adm, folded st2_def tbl_def]
  show ?thesis
  proof (cases "msg1_crypto so env msg1 server_sk st")
    case None
    have "sessions_ok tbl" "queues_ok tbl" unfolding tbl_def
      using ok p by (auto intro!: sessions_ok_update queues_ok_update)
    moreover have "others_kept {i} (sessions st) tbl" by (simp add: others_kept_def tbl_def)
    ultimately have "\<exists>st'. failed i (st2\<lparr>sessions := tbl\<rparr>) = (-1, [], st') \<and> server_ok st' \<and>
        others_kept {} (sessions st) (sessions st')"
      using ok(3) st2 i by (intro failed_outcome) (simp_all add: tbl_def)
    then show ?thesis using None by (auto simp: eq completes_def)
  next
    case (Some c)
    obtain sig dh1 dh2 where c: "c = (sig, dh1, dh2)" by (cases c)
    obtain tbl3 m3 where free: "free_old_session i src (tbl[i := keyed_slot so env msg1 dh1 dh2 (tbl ! i)])
        (stats st2) = (tbl3, m3)" by (cases "free_old_session i src (tbl[i := keyed_slot so env msg1 dh1 dh2 (tbl ! i)]) (stats st2)")
    define tbl4 where "tbl4 = tbl3[i := ready_slot env src (tbl3 ! i)]"
    note t = install_props [OF st so adm tbl_def free tbl4_def]
    have sid: "length (session_id (tbl3 ! i)) = 16"
      using slot_shape [OF t(8)] t(6) by (simp add: session_shape_def SESSION_ID_LEN_def)
    obtain shs where shs: "scheduler_add_session (env_task env) (env_grow env) (env_mono env)
        (session_id (tbl3 ! i)) (g_shards st) = Some shs" "shards_ok shs"
      by (rule scheduler_add_ok [OF ok(3) sid])
    have fail: "\<exists>st'. failed i (st2\<lparr>sessions := tbl4, stats := m3, g_shards := sh\<rparr>) = (-1, [], st') \<and> server_ok st' \<and>
        others_kept {} (sessions st) (sessions st')" if "shards_ok sh" for sh
      using t that by (intro failed_outcome) simp_all
    have fail': "\<exists>st'. failed i (st2\<lparr>sessions := tbl4, stats := m3\<rparr>) = (-1, [], st') \<and> server_ok st' \<and>
        others_kept {} (sessions st) (sessions st')"
      using t ok(3) st2 by (intro failed_outcome) simp_all
    show ?thesis
    proof (cases "env_outq env \<and> env_sent env")
      case False
      then have "handle_msg1 so env msg1 src server_sk st =
          Some (failed i (if env_outq env then st2\<lparr>sessions := tbl4, stats := m3, g_shards := shs\<rparr>
                          else st2\<lparr>sessions := tbl4, stats := m3\<rparr>))"
        using Some c free shs(1) by (simp add: eq tbl4_def)
      moreover have "\<not> completes so env msg1 src server_sk st" using False by (simp add: completes_def)
      ultimately show ?thesis using fail [OF shs(2)] fail' by (cases "env_outq env") auto
    next
      case True
      let ?tbl5 = "tbl4[i := (tbl4 ! i)\<lparr>last_activity_keepalive := env_now env\<rparr>]"
      have inst: "session_installed so env msg1 src dh1 dh2 i (?tbl5 ! i)"
        using installed_ready [OF p(3-5)] True t(3,5,8) by simp
      have "sessions_ok ?tbl5" "queues_ok ?tbl5"
        using t(1,2,3,8) queues_nth [OF t(2,3)] by (auto intro!: sessions_ok_update queues_ok_update)
      moreover have "others_kept {i} (sessions st) ?tbl5" using t(7) by (simp add: others_kept_def)
      moreover have "handle_msg1 so env msg1 src server_sk st =
          Some (0, [(src, make_msg2 (fst (env_kx env)) (env_nonce env) (vpn_addr i) sig)],
            st2\<lparr>sessions := ?tbl5, stats := metrics_record_connection_established
              (metrics_record_handshake_completed m3), g_shards := shs\<rparr>)"
        using Some c free shs(1) True by (simp add: eq tbl4_def)
      moreover have "completes so env msg1 src server_sk st" using True Some adm i(1) by (auto simp: completes_def)
      ultimately show ?thesis
        using Some c shs(2) inst adm by (auto simp: server_ok_def)
    qed
  qed
qed


text \<open>A toy instance of the parameters, with exclusive or in place of the curve.\<close>

definition sample_sodium :: sodium where
  "sample_sodium =
     \<lparr>aead_enc = sample_aead, aead_dec = sample_aead_dec, generichash = (\<lambda>n m. replicate n (hd (m @ [0]))),
      scalarmult = (\<lambda>a b. Some (map2 (XOR) a b)), sign_detached = (\<lambda>m sk. Some (replicate 64 (sk ! 0))),
      sign_verify = (\<lambda>sig m pk. sig = replicate 64 (pk ! 0)),
      pk_to_curve = (\<lambda>pk. Some (map (\<lambda>b. b + 1) (take 32 (pk @ replicate 32 0)))),
      sk_to_curve = (\<lambda>sk. Some (map (\<lambda>b. b + 1) (take 32 sk)))\<rparr>"

definition sample_server :: server where
  "sample_server =
     \<lparr>sessions = sample_table,
      limiter = \<lparr>entries = replicate MAX_RATE_LIMIT_ENTRIES (fresh_entry 0 0), num_entries = 0,
                 capacity = MAX_RATE_LIMIT_ENTRIES, last_cleanup = 0\<rparr>,
      stats = metrics_init 0,
      g_shards = replicate 4 \<lparr>sh_pq = Some sample_heap, running = True\<rparr>,
      next_packet_id = 1, g_sign_sk = Some (replicate 64 5)\<rparr>"

definition sample_env :: call_env where
  "sample_env =
     \<lparr>env_now = 1010, env_mono = Timespec 9 0, env_kx = (replicate 32 3, replicate 32 3),
      env_nonce = replicate 8 4, env_outq = True, env_task = True, env_grow = Some (\<lambda>_. undefined),
      env_sent = True, env_sock = 7\<rparr>"

definition sample_msg1 :: bytes where
  "sample_msg1 = proto_header_bytes handshake_header @ replicate 32 2 @ replicate 8 6 @
     le32 5 @ le32 1024 @ [char_Y, char_N]"

definition sample_src :: sockaddr_in where
  "sample_src = \<lparr>sin_family = 2, sin_port = 4100, sin_addr = 55\<rparr>"

lemma sample_heap_inv: "pq_inv sample_heap"
  by (simp add: pq_inv_def sample_heap_def heap_ok_def)

lemma sample_server_ok: "server_ok sample_server"
proof -
  have "queues_ok sample_table"
    unfolding sample_table_def
    by (intro queues_ok_update) (simp_all add: queues_ok_def cbr_queue_def queued_def lanes_empty_def
        sessions_init_def zero_session_def)
  then show ?thesis using sample_table_ok sample_heap_inv
    by (simp add: server_ok_def sample_server_def shards_ok_def NUM_SHARDS_def)
qed

lemma sample_sodium_lens: "sodium_lens sample_sodium"
  using aead_correct_len [OF sample_aead_correct]
  by (auto simp: sodium_lens_def sample_sodium_def sample_aead_dec_def MAC_LEN_def split: if_splits)

lemma sample_admitted: "admitted sample_env sample_msg1 src sample_server 0"
proof -
  have "find_index (\<lambda>s. \<not> active s) sample_table = Some 0"
    by (simp add: sample_table_def sessions_init_def MAX_CLIENTS_def zero_session_def numeral_eq_Suc)
  then show ?thesis
    by (simp add: admitted_def sample_server_def sample_env_def sample_msg1_def config_defs
        check_handshake_rate_limit_def find_or_create_ip_entry_def fresh_entry_def refill_tokens_def Let_def)
qed


section \<open>Key rotation on a running session\<close>

definition rekeyed_slot :: "sodium \<Rightarrow> call_env \<Rightarrow> bytes \<Rightarrow> bytes \<Rightarrow> bytes \<Rightarrow> session \<Rightarrow> session" where
  "rekeyed_slot so env msg1 dh1 dh2 s =
     (let (k1, k2) = handshake_keys so dh1 dh2 (msg1_nonce msg1) (env_nonce env)
      in (prepare_dummy_static_parts
           (s\<lparr>k_recv := k1, k_send := k2,
              session_id := handshake_sid so dh1 dh2 (msg1_nonce msg1) (env_nonce env) (msg1_pub msg1)
                              (fst (env_kx env)),
              outq := (if env_outq env then Some lanes_empty else None)\<rparr>))
         \<lparr>send_seq := 0, rw := replay_window_zero, last_recv_seq := 0, last_activity := env_now env\<rparr>)"

lemma rekeyed_slot_ok:
  assumes so: "sodium_lens so" and s: "slot_ok i s" "active s"
  shows "slot_ok i (rekeyed_slot so env msg1 dh1 dh2 s)" "cbr_queue (rekeyed_slot so env msg1 dh1 dh2 s)"
proof -
  obtain k1 k2 where k: "handshake_keys so dh1 dh2 (msg1_nonce msg1) (env_nonce env) = (k1, k2)"
    by (cases "handshake_keys so dh1 dh2 (msg1_nonce msg1) (env_nonce env)")
  define t where "t = s\<lparr>k_recv := k1, k_send := k2,
      session_id := handshake_sid so dh1 dh2 (msg1_nonce msg1) (env_nonce env) (msg1_pub msg1) (fst (env_kx env)),
      outq := (if env_outq env then Some lanes_empty else None)\<rparr>"
  have t: "session_shape t" "params_ok t" "vpn_ip t = vpn_addr i" "active t"
    using slot_active [OF s] s(2) handshake_lens [OF so k]
    by (auto simp: t_def session_shape_def params_ok_def config_defs)
  from prepare_dummy_ok [OF t(1,2)] t(3,4)
  show "slot_ok i (rekeyed_slot so env msg1 dh1 dh2 s)"
    by (auto simp: rekeyed_slot_def k t_def [symmetric] slot_ok_def session_shape_def params_ok_def dummy_ok_def)
  show "cbr_queue (rekeyed_slot so env msg1 dh1 dh2 s)"
    by (simp add: rekeyed_slot_def k cbr_queue_def queued_def lanes_empty_def)
qed

lemma rekeyed_slot_fields:
  "active (rekeyed_slot so env msg1 dh1 dh2 s) = active s" "send_seq (rekeyed_slot so env msg1 dh1 dh2 s) = 0"
  "(k_recv (rekeyed_slot so env msg1 dh1 dh2 s), k_send (rekeyed_slot so env msg1 dh1 dh2 s)) =
     handshake_keys so dh1 dh2 (msg1_nonce msg1) (env_nonce env)"
  "session_id (rekeyed_slot so env msg1 dh1 dh2 s) =
     handshake_sid so dh1 dh2 (msg1_nonce msg1) (env_nonce env) (msg1_pub msg1) (fst (env_kx env))"
  "rw (rekeyed_slot so env msg1 dh1 dh2 s) = replay_window_zero"
  "vpn_ip (rekeyed_slot so env msg1 dh1 dh2 s) = vpn_ip s"
  "client_addr (rekeyed_slot so env msg1 dh1 dh2 s) = client_addr s"
  "argv_FRAG (rekeyed_slot so env msg1 dh1 dh2 s) = argv_FRAG s"
  "outq (rekeyed_slot so env msg1 dh1 dh2 s) = (if env_outq env then Some lanes_empty else None)"
  by (simp_all add: rekeyed_slot_def split_beta)

definition sign_key :: "server \<Rightarrow> bytes" where
  "sign_key st = (case g_sign_sk st of None \<Rightarrow> replicate ED25519_SK_LEN 0 | Some sk \<Rightarrow> sk)"

definition msg1_blob :: "call_env \<Rightarrow> bytes \<Rightarrow> bytes" where
  "msg1_blob env msg1 = signed_blob (fst (env_kx env)) (env_nonce env) (msg1_pub msg1) (msg1_nonce msg1)"

lemma rehandshake_eq:
  assumes i: "session_by_addr src (sessions st) = Some i" and len: "length msg1 = 56"
  shows "handle_rehandshake_msg1 so env msg1 src server_sk st =
    (case (scalarmult so (snd (env_kx env)) (msg1_pub msg1), scalarmult so server_sk (msg1_pub msg1),
           sign_detached so (msg1_blob env msg1) (sign_key st)) of
       (Some dh1, Some dh2, Some sig) \<Rightarrow>
         let r = rekeyed_slot so env msg1 dh1 dh2 (sessions st ! i)
         in (case scheduler_add_session (env_task env) (env_grow env) (env_mono env) (session_id r) (g_shards st) of
               None \<Rightarrow> None
             | Some shs \<Rightarrow>
                 Some (0, (if env_sent env then [(src, make_msg2 (fst (env_kx env)) (env_nonce env)
                             (vpn_ip (sessions st ! i)) sig)] else []),
                       st\<lparr>sessions := (sessions st)[i := r], g_shards := shs\<rparr>))
     | _ \<Rightarrow> handle_msg1 so env msg1 src server_sk st)"
proof -
  obtain pub priv where kx: "env_kx env = (pub, priv)" by (cases "env_kx env")
  have lens: "MSG1_LEN = 40" "PARAMS = 10" "sizeof_proto_header = 6" "PUBKEY_LEN = 32"
    by (simp_all add: config_defs)
  have key: "(case g_sign_sk st of None \<Rightarrow> replicate ED25519_SK_LEN 0 | Some sk \<Rightarrow> sk) = sign_key st"
    by (simp add: sign_key_def)
  show ?thesis
    unfolding handle_rehandshake_msg1_def lens rekeyed_slot_def msg1_pub_def msg1_nonce_def msg1_blob_def key
    using i len by (simp add: kx Let_def split: prod.split option.split)
qed

lemma rekeyed_server_ok:
  fixes env :: call_env and msg1 dh1 dh2 :: bytes
  assumes st: "server_ok st" and so: "sodium_lens so" and i: "session_by_addr src (sessions st) = Some i"
  defines "r \<equiv> rekeyed_slot so env msg1 dh1 dh2 (sessions st ! i)"
  obtains shs where "scheduler_add_session mem grow now (session_id r) (g_shards st) = Some shs"
    "server_ok (st\<lparr>sessions := (sessions st)[i := r], g_shards := shs\<rparr>)"
proof -
  note a = session_by_addr_Some [OF i]
  have ok: "sessions_ok (sessions st)" "queues_ok (sessions st)" "shards_ok (g_shards st)"
    using st by (simp_all add: server_ok_def)
  have r: "slot_ok i r" "cbr_queue r"
    using rekeyed_slot_ok [OF so sessions_okD [OF ok(1), of i], of env msg1 dh1 dh2] a by (simp_all add: r_def)
  have sid: "length (session_id r) = 16" using slot_shape [OF r(1)] by (simp add: session_shape_def SESSION_ID_LEN_def)
  obtain shs where shs: "scheduler_add_session mem grow now (session_id r) (g_shards st) = Some shs" "shards_ok shs"
    by (rule scheduler_add_ok [OF ok(3) sid])
  have "sessions_ok ((sessions st)[i := r])" "queues_ok ((sessions st)[i := r])"
    using ok r by (auto intro!: sessions_ok_update queues_ok_update)
  then show ?thesis using that shs by (simp add: server_ok_def)
qed

lemma handle_msg1_ok:
  assumes "server_ok st" "sodium_lens so"
  obtains rc ds st' where "handle_msg1 so env msg1 src server_sk st = Some (rc, ds, st')" "server_ok st'"
proof (cases "\<exists>i. admitted env msg1 src st i")
  case False
  obtain st' where "handle_msg1 so env msg1 src server_sk st = Some (-1, [], st')"
    "sessions st' = sessions st" "g_shards st' = g_shards st"
    by (rule msg1_refused [of env msg1 src st so server_sk]) (use False in auto)
  then show ?thesis using that assms(1) by (simp add: server_ok_def)
next
  case True
  then show ?thesis using that admitted_outcome [OF assms] by blast
qed

lemma rehandshake_ok:
  assumes "server_ok st" "sodium_lens so"
  obtains rc ds st' where "handle_rehandshake_msg1 so env msg1 src server_sk st = Some (rc, ds, st')" "server_ok st'"
proof -
  have *: "\<exists>rc ds st'. handle_msg1 so env msg1 src server_sk st = Some (rc, ds, st') \<and> server_ok st'"
    by (rule handle_msg1_ok [OF assms]) blast
  have lens: "sizeof_proto_header + MSG1_LEN + PARAMS = 56" by (simp add: config_defs)
  have "\<exists>rc ds st'. handle_rehandshake_msg1 so env msg1 src server_sk st = Some (rc, ds, st') \<and> server_ok st'"
  proof (cases "length msg1 = 56")
    case False
    then show ?thesis using assms(1) unfolding handle_rehandshake_msg1_def lens by simp
  next
    case len: True
    show ?thesis
    proof (cases "session_by_addr src (sessions st)")
      case None
      then show ?thesis using * len unfolding handle_rehandshake_msg1_def lens by simp
    next
      case (Some i)
      have r: "\<exists>shs. scheduler_add_session (env_task env) (env_grow env) (env_mono env)
          (session_id (rekeyed_slot so env msg1 dh1 dh2 (sessions st ! i))) (g_shards st) = Some shs \<and>
          server_ok (st\<lparr>sessions := (sessions st)[i := rekeyed_slot so env msg1 dh1 dh2 (sessions st ! i)], g_shards := shs\<rparr>)"
        for dh1 dh2
        by (rule rekeyed_server_ok [OF assms Some]) blast
      show ?thesis
      proof (cases "\<exists>dh1 dh2 sig. scalarmult so (snd (env_kx env)) (msg1_pub msg1) = Some dh1 \<and>
          scalarmult so server_sk (msg1_pub msg1) = Some dh2 \<and>
          sign_detached so (msg1_blob env msg1) (sign_key st) = Some sig")
        case True
        then obtain dh1 dh2 sig where c: "scalarmult so (snd (env_kx env)) (msg1_pub msg1) = Some dh1"
          "scalarmult so server_sk (msg1_pub msg1) = Some dh2"
          "sign_detached so (msg1_blob env msg1) (sign_key st) = Some sig" by blast
        show ?thesis using r [of dh1 dh2] by (auto simp: rehandshake_eq [OF Some len] c)
      next
        case False
        then have "handle_rehandshake_msg1 so env msg1 src server_sk st = handle_msg1 so env msg1 src server_sk st"
          by (auto simp: rehandshake_eq [OF Some len] split: option.split)
        then show ?thesis using * by simp
      qed
    qed
  qed
  then show ?thesis using that by blast
qed


lemma sample_addr: "session_by_addr (client_addr sample_session) sample_table = Some 3"
  unfolding session_by_addr_def
  by (rule find_index_unique)
    (auto simp: sample_table_def sessions_init_def MAX_CLIENTS_def zero_session_def nth_list_update split: if_splits)


section \<open>The key file survives a restart\<close>

definition keypair_lens :: "sodium \<Rightarrow> (bytes \<times> bytes) option \<Rightarrow> bool" where
  "keypair_lens so kp \<longleftrightarrow>
     (\<forall>pk sk. kp = Some (pk, sk) \<longrightarrow> length pk = ED25519_PK_LEN \<and> length sk = ED25519_SK_LEN) \<and>
     (\<forall>pk x. pk_to_curve so pk = Some x \<longrightarrow> length x = PUBKEY_LEN)"

lemma created_content:
  assumes "create_server_key so file kp wr = (Some ks, file')" "keypair_lens so kp"
  shows "file' = Some (key_sign_sk ks @ key_sign_pk ks @ key_pk ks)"
    "length (key_sign_sk ks) = 64" "length (key_sign_pk ks) = 32" "length (key_pk ks) = 32"
    "sk_to_curve so (key_sign_sk ks) = Some (key_sk ks)"
  using assms
  by (auto simp: create_server_key_def keypair_lens_def config_defs Let_def split: option.splits if_splits)

lemma load_long_file:
  assumes "128 \<le> length bs"
  shows "load_or_create_server_key so (Some bs) kp wr =
    (case sk_to_curve so (slice bs 0 64) of
       None \<Rightarrow> (None, Some bs)
     | Some sk \<Rightarrow> (Some \<lparr>key_sk = sk, key_pk = slice bs 96 32, key_sign_pk = slice bs 64 32,
                         key_sign_sk = slice bs 0 64\<rparr>, Some bs))"
  using assms by (simp add: load_or_create_server_key_def config_defs Let_def buffer_simps)

lemma load_short_file:
  assumes "\<And>bs. file = Some bs \<Longrightarrow> length bs < 128"
  shows "load_or_create_server_key so file kp wr = create_server_key so file kp wr"
  using assms by (cases "file") (auto simp: load_or_create_server_key_def config_defs Let_def slice_def)



end
