(* ===== verification/Client_Handshake.thy ===== *)
theory Client_Handshake
  imports Handshake
begin

text \<open>
  The client side of the handshake, \<open>chamlon_client/src/vpn_handshake.c\<close>: the first message, the
  loop that waits for the answer and sets data packets aside, the verification of the answer and
  the derivation of the keys (\<open>client_handshake\<close>), and the state machine of the key rotation
  (\<open>should_attempt_rehandshake\<close>, \<open>rehandshake_client_with_state\<close>). The lemmas show that the
  client accepts only a signed answer, that client and server end up with the same keys, and
  how the state machine backs off and gives up.
\<close>

section \<open>State\<close>

definition MSG2_LENGTH :: nat where
  [config_defs]: "MSG2_LENGTH = sizeof_proto_header + (PUBKEY_LEN + 8 + 4 + SIG_LEN)"
definition MAX_DISCARD_ATTEMPTS :: nat where [config_defs]: "MAX_DISCARD_ATTEMPTS = 100"
definition REHANDSHAKE_BUFFER_SIZE :: nat where [config_defs]: "REHANDSHAKE_BUFFER_SIZE = 128"

text \<open>The parameters from the command line.\<close>

record client_argv =
  ca_MBPS :: int
  ca_FRAG :: int
  ca_CBR :: byte
  ca_PAD :: byte
  ca_REHANDSHAKE :: int
  ca_TUN :: string

datatype rehandshake_state =
    REHANDSHAKE_READY | REHANDSHAKE_IN_PROGRESS | REHANDSHAKE_BACKOFF | REHANDSHAKE_FAILED

record server_t =
  sv_session_id :: bytes
  sv_server_pk :: bytes
  sv_k_recv :: bytes
  sv_k_send :: bytes
  sv_send_seq :: u64
  sv_server_addr :: sockaddr_in
  sv_assigned_ip :: bytes
  session_start_time :: time_t
  bytes_sent :: u64
  rehandshake_state :: rehandshake_state
  rehandshake_attempts :: int
  rehandshake_last_attempt :: time_t
  rehandshake_backoff_sec :: int

record sender_args =
  sa_session_id :: bytes
  sa_k_send :: bytes
  sa_interval :: timespec
  pending_k_send :: bytes
  pending_session_id :: bytes
  pending_rekey :: bool

text \<open>The packets set aside while a handshake runs; \<open>None\<close> is the null pointer.\<close>

type_synonym rehandshake_buffer = "bytes list option"

definition rehandshake_buffer_init :: "rehandshake_buffer \<Rightarrow> rehandshake_buffer" where
  "rehandshake_buffer_init b = map_option (\<lambda>_. []) b"

definition rehandshake_buffer_free :: "rehandshake_buffer \<Rightarrow> rehandshake_buffer" where
  "rehandshake_buffer_free b = map_option (\<lambda>_. []) b"

definition process_rehandshake_buffer :: "rehandshake_buffer \<Rightarrow> int" where
  "process_rehandshake_buffer b = (case b of None \<Rightarrow> 0 | Some ps \<Rightarrow> int (length ps))"

section \<open>Messages\<close>

definition make_msg1 :: "bytes \<Rightarrow> bytes \<Rightarrow> client_argv \<Rightarrow> bytes" where
  "make_msg1 c_pub c_nonce av =
     proto_header_bytes handshake_header @ c_pub @ c_nonce @
     le32 (of_int (ca_MBPS av)) @ le32 (of_int (ca_FRAG av)) @ [ca_CBR av, ca_PAD av]"

text \<open>
  One round of the waiting loop: the time it reads, what \<open>select\<close> and \<open>recvfrom\<close> report, and
  whether \<open>malloc\<close> succeeds. A datagram is cut to the buffer.
\<close>

datatype rx_event = Rx_select_error | Rx_timeout | Rx_again | Rx_error | Rx_data bytes

record rx_round =
  rx_time :: time_t
  rx_event :: rx_event
  rx_mem :: bool

definition buffer_data :: "bool \<Rightarrow> bytes \<Rightarrow> rehandshake_buffer \<Rightarrow> rehandshake_buffer" where
  "buffer_data mem p b =
     map_option (\<lambda>ps. if length ps < REHANDSHAKE_BUFFER_SIZE \<and> mem then ps @ [p] else ps) b"

function receive_msg2 ::
  "(nat \<Rightarrow> rx_round) \<Rightarrow> time_t \<Rightarrow> nat \<Rightarrow> bytes \<Rightarrow> rehandshake_buffer \<Rightarrow> bytes option \<times> rehandshake_buffer" where
  "receive_msg2 rounds msg2_deadline attempts msg2 b =
     (if attempts + 1 > MAX_DISCARD_ATTEMPTS then (None, b)
      else if rx_time (rounds (attempts + 1)) \<ge> msg2_deadline then (None, b)
      else
        (case rx_event (rounds (attempts + 1)) of
           Rx_select_error \<Rightarrow> (None, b)
         | Rx_timeout \<Rightarrow> (None, b)
         | Rx_again \<Rightarrow> receive_msg2 rounds msg2_deadline (attempts + 1) msg2 b
         | Rx_error \<Rightarrow> (None, b)
         | Rx_data d \<Rightarrow>
             let got = take MSG2_LENGTH d; m = memcpy_at msg2 0 got; ph = proto_header_of m
             in if length got = 0 then (None, b)
                else if ptype ph \<noteq> PKT_TYPE_HANDSHAKE
                then receive_msg2 rounds msg2_deadline (attempts + 1) m
                       (if ptype ph = PKT_TYPE_DATA then buffer_data (rx_mem (rounds (attempts + 1))) got b else b)
                else if length got \<noteq> MSG2_LENGTH then (None, b)
                else (Some m, b)))"
  by pat_completeness auto
termination
  by (relation "measure (\<lambda>(rounds, d, attempts, m, b). MAX_DISCARD_ATTEMPTS - attempts)") auto

declare receive_msg2.simps [simp del]

section \<open>The handshake\<close>

record client_env =
  ce_kx :: "bytes \<times> bytes"
  ce_nonce :: bytes
  ce_now :: time_t
  ce_sent :: bool
  ce_rounds :: "nat \<Rightarrow> rx_round"
  ce_stack :: bytes

text \<open>What the caller passes for the outputs of the handshake.\<close>

record handshake_out =
  ho_session_id :: bytes
  ho_k_send :: bytes
  ho_k_recv :: bytes
  ho_assigned_ip :: bytes

definition verify_msg2 ::
  "sodium \<Rightarrow> client_env \<Rightarrow> bytes \<Rightarrow> bytes \<Rightarrow> bytes \<Rightarrow> handshake_out \<Rightarrow> int \<times> handshake_out" where
  "verify_msg2 so env server_pk server_kx_pk msg2 out0 =
     (let (c_pub, c_priv) = ce_kx env;
          c_nonce = ce_nonce env;
          s_pub = slice msg2 sizeof_proto_header PUBKEY_LEN;
          s_nonce = slice msg2 (sizeof_proto_header + PUBKEY_LEN) 8;
          out1 = out0\<lparr>ho_assigned_ip := slice msg2 (sizeof_proto_header + PUBKEY_LEN + 8) 4\<rparr>;
          sig = slice msg2 (sizeof_proto_header + PUBKEY_LEN + 8 + 4) SIG_LEN
      in if \<not> sign_verify so sig (signed_blob s_pub s_nonce c_pub c_nonce) server_pk then (-1, out1)
         else
           (case scalarmult so c_priv s_pub of
              None \<Rightarrow> (-1, out1)
            | Some dh1 \<Rightarrow>
                (case scalarmult so c_priv server_kx_pk of
                   None \<Rightarrow> (-1, out1)
                 | Some dh2 \<Rightarrow>
                     let (k1, k2) = handshake_keys so dh1 dh2 c_nonce s_nonce
                     in (0, out1\<lparr>ho_k_send := k1, ho_k_recv := k2,
                              ho_session_id := handshake_sid so dh1 dh2 c_nonce s_nonce c_pub s_pub\<rparr>))))"

definition client_handshake ::
  "sodium \<Rightarrow> client_env \<Rightarrow> client_argv \<Rightarrow> bytes \<Rightarrow> handshake_out \<Rightarrow> rehandshake_buffer \<Rightarrow>
   int \<times> bytes list \<times> handshake_out \<times> rehandshake_buffer" where
  "client_handshake so env av server_pk out0 b =
     (case pk_to_curve so server_pk of
        None \<Rightarrow> (-1, [], out0, b)
      | Some server_kx_pk \<Rightarrow>
          let (c_pub, c_priv) = ce_kx env; msg1 = make_msg1 c_pub (ce_nonce env) av
          in if \<not> ce_sent env then (-1, [], out0, b)
             else
               (case receive_msg2 (ce_rounds env) (ce_now env + 15) 0 (ce_stack env) b of
                  (None, b1) \<Rightarrow> (-1, [msg1], out0, b1)
                | (Some msg2, b1) \<Rightarrow>
                    let (rc, out1) = verify_msg2 so env server_pk server_kx_pk msg2 out0
                    in (rc, [msg1], out1, b1)))"

section \<open>Key rotation\<close>

definition should_attempt_rehandshake :: "time_t \<Rightarrow> server_t \<Rightarrow> int \<times> server_t" where
  "should_attempt_rehandshake now srv =
     (if rehandshake_attempts srv \<ge> 5 then (-1, srv\<lparr>rehandshake_state := REHANDSHAKE_FAILED\<rparr>)
      else
        (case rehandshake_state srv of
           REHANDSHAKE_READY \<Rightarrow> (1, srv)
         | REHANDSHAKE_IN_PROGRESS \<Rightarrow> (0, srv)
         | REHANDSHAKE_BACKOFF \<Rightarrow>
             if now - rehandshake_last_attempt srv \<ge> rehandshake_backoff_sec srv
             then (1, srv\<lparr>rehandshake_state := REHANDSHAKE_READY\<rparr>) else (0, srv)
         | REHANDSHAKE_FAILED \<Rightarrow> (-1, srv)))"

text \<open>
  \<open>flush_socket_buffer\<close> discards what the socket holds, so the rounds of the call see later
  datagrams only. The locals of the caller are the outputs of the handshake. The result is the
  return code, the datagrams sent, the connection, the arguments of the sender thread, the
  replay window, the time of the last keepalive and the buffer.
\<close>

record rehandshake_result =
  rr_rc :: int
  rr_sent :: "bytes list"
  rr_srv :: server_t
  rr_sender :: sender_args
  rr_rw :: replay_window
  rr_keepalive :: time_t
  rr_buffer :: rehandshake_buffer

definition rehandshake_client_with_state ::
  "sodium \<Rightarrow> client_env \<Rightarrow> client_argv \<Rightarrow> handshake_out \<Rightarrow> time_t \<Rightarrow> bytes \<Rightarrow>
   server_t \<Rightarrow> sender_args \<Rightarrow> replay_window \<Rightarrow> time_t \<Rightarrow> rehandshake_buffer \<Rightarrow> rehandshake_result" where
  "rehandshake_client_with_state so env av locals now2 server_pk srv0 sa rw0 ka b0 =
     (let srv1 = srv0\<lparr>rehandshake_state := REHANDSHAKE_IN_PROGRESS, rehandshake_last_attempt := ce_now env\<rparr>;
          b1 = (case b0 of None \<Rightarrow> Some [] | Some ps \<Rightarrow> Some ps);
          (rc, sent, new, b2) = client_handshake so env av server_pk locals b1
      in if rc \<noteq> 0
         then (let srv2 = srv1\<lparr>rehandshake_attempts := rehandshake_attempts srv1 + 1\<rparr>;
                   backoff = 2 ^ nat (rehandshake_attempts srv2 - 1);
                   srv3 = srv2\<lparr>rehandshake_backoff_sec := (if backoff > 60 then 60 else backoff),
                              rehandshake_state := REHANDSHAKE_BACKOFF\<rparr>
               in \<lparr>rr_rc = -1, rr_sent = sent, rr_srv = srv3, rr_sender = sa, rr_rw = rw0, rr_keepalive = ka,
                   rr_buffer = (if b0 = None then None else rehandshake_buffer_free b2)\<rparr>)
         else (let srv2 = srv1\<lparr>sv_k_recv := ho_k_recv new, sv_k_send := ho_k_send new,
                              sv_session_id := ho_session_id new, sv_send_seq := 0,
                              session_start_time := now2, bytes_sent := 0\<rparr>;
                   sa1 = sa\<lparr>pending_k_send := ho_k_send new, pending_session_id := ho_session_id new,
                            pending_rekey := True\<rparr>;
                   srv3 = srv2\<lparr>rehandshake_attempts := 0, rehandshake_backoff_sec := 1,
                              rehandshake_state := REHANDSHAKE_READY\<rparr>
               in \<lparr>rr_rc = 0, rr_sent = sent, rr_srv = srv3, rr_sender = sa1, rr_rw = replay_window_zero,
                   rr_keepalive = now2, rr_buffer = (if b0 = None then None else rehandshake_buffer_free b2)\<rparr>))"

section \<open>Waiting for the answer\<close>

lemma receive_msg2_Some:
  assumes "receive_msg2 rounds dl n m0 b = (Some m, b')" "length m0 = MSG2_LENGTH"
  shows "\<exists>k d. n < k \<and> k \<le> MAX_DISCARD_ATTEMPTS \<and> rx_time (rounds k) < dl \<and> rx_event (rounds k) = Rx_data d \<and>
    MSG2_LENGTH \<le> length d \<and> m = take MSG2_LENGTH d \<and> ptype (proto_header_of d) = PKT_TYPE_HANDSHAKE"
  using assms
proof (induction rounds dl n m0 b rule: receive_msg2.induct)
  case (1 rounds dl n m0 b)
  let ?r = "rounds (n + 1)"
  have n: "n + 1 \<le> MAX_DISCARD_ATTEMPTS" "\<not> dl \<le> rx_time ?r"
    using "1.prems"(1) by (auto simp: receive_msg2.simps [of rounds] split: if_splits)
  have up: ?case if "receive_msg2 rounds dl (n + 1) m1 b1 = (Some m, b')" "length m1 = MSG2_LENGTH"
      "\<exists>k d. n + 1 < k \<and> k \<le> MAX_DISCARD_ATTEMPTS \<and> rx_time (rounds k) < dl \<and> rx_event (rounds k) = Rx_data d \<and>
    MSG2_LENGTH \<le> length d \<and> m = take MSG2_LENGTH d \<and> ptype (proto_header_of d) = PKT_TYPE_HANDSHAKE" for m1 b1
    using that(3) by (metis Suc_eq_plus1 Suc_lessD)
  show ?case
  proof (cases "rx_event ?r")
    case Rx_again
    then have "receive_msg2 rounds dl (n + 1) m0 b = (Some m, b')"
      using "1.prems"(1) n by (simp add: receive_msg2.simps [of rounds dl n])
    then show ?thesis using up "1.IH"(1) n Rx_again "1.prems"(2) by simp
  next
    case (Rx_data d)
    let ?got = "take MSG2_LENGTH d"
    let ?m = "memcpy_at m0 0 ?got"
    have len: "length ?m = MSG2_LENGTH" using "1.prems"(2) by (simp add: memcpy_at_def)
    show ?thesis
    proof (cases "ptype (proto_header_of ?m) = PKT_TYPE_HANDSHAKE")
      case True
      then have d: "length ?got = MSG2_LENGTH" "m = ?m"
        using "1.prems"(1) n Rx_data by (auto simp: receive_msg2.simps [of rounds dl n] Let_def split: if_splits)
      then have m: "m = ?got" using "1.prems"(2) by (simp add: memcpy_at_def)
      have "ptype (proto_header_of d) = ptype (proto_header_of ?got)"
        using d(1) by (simp add: proto_header_of_def config_defs)
      then show ?thesis using True n Rx_data d m by (intro exI [of _ "n + 1"] exI [of _ d]) (auto simp: min_def split: if_splits)
    next
      case False
      then obtain b1 where "receive_msg2 rounds dl (n + 1) ?m b1 = (Some m, b')" "b1 =
          (if ptype (proto_header_of ?m) = PKT_TYPE_DATA then buffer_data (rx_mem ?r) ?got b else b)"
        using "1.prems"(1) n Rx_data by (auto simp: receive_msg2.simps [of rounds dl n] Let_def split: if_splits)
      then show ?thesis
        using up [OF _ len] "1.IH"(2) [OF _ _ Rx_data refl refl refl] False n len "1.prems"(1) Rx_data
        by (auto simp: receive_msg2.simps [of rounds dl n] Let_def split: if_splits)
    qed
  qed (use "1.prems"(1) n in \<open>auto simp: receive_msg2.simps [of rounds dl n]\<close>)
qed

section \<open>The client accepts only a signed answer\<close>

text \<open>An answer the client may act on, and what it derives from it.\<close>

definition answer_verified :: "sodium \<Rightarrow> client_env \<Rightarrow> bytes \<Rightarrow> bytes \<Rightarrow> bool" where
  "answer_verified so env server_pk d \<longleftrightarrow>
     MSG2_LENGTH \<le> length d \<and> ptype (proto_header_of d) = PKT_TYPE_HANDSHAKE \<and>
     sign_verify so (slice d 50 64)
       (signed_blob (slice d 6 32) (slice d 38 8) (fst (ce_kx env)) (ce_nonce env)) server_pk"

definition client_keys :: "sodium \<Rightarrow> client_env \<Rightarrow> bytes \<Rightarrow> bytes \<Rightarrow> handshake_out \<Rightarrow> bool" where
  "client_keys so env server_kx_pk d out \<longleftrightarrow>
     (\<exists>dh1 dh2. scalarmult so (snd (ce_kx env)) (slice d 6 32) = Some dh1 \<and>
        scalarmult so (snd (ce_kx env)) server_kx_pk = Some dh2 \<and>
        (ho_k_send out, ho_k_recv out) = handshake_keys so dh1 dh2 (ce_nonce env) (slice d 38 8) \<and>
        ho_session_id out = handshake_sid so dh1 dh2 (ce_nonce env) (slice d 38 8) (fst (ce_kx env)) (slice d 6 32) \<and>
        ho_assigned_ip out = slice d 46 4)"

lemma verify_msg2_eq:
  "verify_msg2 so env server_pk kx m out0 =
     (let out1 = out0\<lparr>ho_assigned_ip := slice m 46 4\<rparr>;
          c_nonce = ce_nonce env; s_pub = slice m 6 32; s_nonce = slice m 38 8
      in if \<not> sign_verify so (slice m 50 64) (signed_blob s_pub s_nonce (fst (ce_kx env)) c_nonce) server_pk
         then (-1, out1)
         else
           (case (scalarmult so (snd (ce_kx env)) s_pub, scalarmult so (snd (ce_kx env)) kx) of
              (Some dh1, Some dh2) \<Rightarrow>
                (0, out1\<lparr>ho_k_send := fst (handshake_keys so dh1 dh2 c_nonce s_nonce),
                        ho_k_recv := snd (handshake_keys so dh1 dh2 c_nonce s_nonce),
                        ho_session_id := handshake_sid so dh1 dh2 c_nonce s_nonce (fst (ce_kx env)) s_pub\<rparr>)
            | _ \<Rightarrow> (-1, out1)))"
  by (simp add: verify_msg2_def Let_def config_defs split: prod.split option.split)

lemma slice_take: "i + n \<le> k \<Longrightarrow> slice (take k xs) i n = slice xs i n"
  by (simp add: slice_def take_drop min_def)

lemma client_handshake_accepted:
  assumes "client_handshake so env av server_pk out0 b = (0, sent, out, b')" "length (ce_stack env) = MSG2_LENGTH"
  shows "\<exists>k d kx. 1 \<le> k \<and> k \<le> MAX_DISCARD_ATTEMPTS \<and> rx_event (ce_rounds env k) = Rx_data d \<and>
    rx_time (ce_rounds env k) < ce_now env + 15 \<and> pk_to_curve so server_pk = Some kx \<and>
    answer_verified so env server_pk d \<and> client_keys so env kx d out \<and>
    sent = [make_msg1 (fst (ce_kx env)) (ce_nonce env) av]"
proof -
  obtain kx where kx: "pk_to_curve so server_pk = Some kx"
    using assms(1) by (auto simp: client_handshake_def split: option.splits)
  obtain m where m: "receive_msg2 (ce_rounds env) (ce_now env + 15) 0 (ce_stack env) b = (Some m, b')"
    and v: "verify_msg2 so env server_pk kx m out0 = (0, out)"
    and sent: "sent = [make_msg1 (fst (ce_kx env)) (ce_nonce env) av]"
    using assms(1) kx by (auto simp: client_handshake_def Let_def split: option.splits prod.splits if_splits)
  obtain k d where k: "0 < k" "k \<le> MAX_DISCARD_ATTEMPTS" "rx_time (ce_rounds env k) < ce_now env + 15"
    "rx_event (ce_rounds env k) = Rx_data d" "MSG2_LENGTH \<le> length d" "m = take MSG2_LENGTH d"
    "ptype (proto_header_of d) = PKT_TYPE_HANDSHAKE"
    using receive_msg2_Some [OF m assms(2)] by blast
  have sl: "slice m i n = slice d i n" if "i + n \<le> 114" for i n
    using that k(6) by (simp add: slice_take config_defs)
  have "answer_verified so env server_pk d" "client_keys so env kx d out"
    using v k(5,7) unfolding verify_msg2_eq
    by (auto simp: answer_verified_def client_keys_def Let_def sl split: if_splits option.splits)
  then show ?thesis using k kx sent by (intro exI [of _ k] exI [of _ d] exI [of _ kx]) simp
qed

text \<open>
  C8. The client authenticates the server: whenever \<open>client_handshake\<close> succeeds, one of the at
  most 100 datagrams it looked at within 15 seconds is a full-length handshake message whose
  signature verifies under the configured server key over the server's and the client's own
  fresh keys and nonces, and the session keys, the session identifier and the address are the
  ones derived from exactly that message.
\<close>

theorem client_authenticates_server:
  assumes "client_handshake so env av server_pk out0 b = (0, sent, out, b')" "length (ce_stack env) = MSG2_LENGTH"
  shows "\<exists>k d kx. 1 \<le> k \<and> k \<le> MAX_DISCARD_ATTEMPTS \<and> rx_event (ce_rounds env k) = Rx_data d \<and>
    rx_time (ce_rounds env k) < ce_now env + 15 \<and> pk_to_curve so server_pk = Some kx \<and>
    answer_verified so env server_pk d \<and> client_keys so env kx d out \<and>
    sent = [make_msg1 (fst (ce_kx env)) (ce_nonce env) av]"
  by (rule client_handshake_accepted [OF assms])

section \<open>Client and server derive the same keys\<close>

text \<open>
  What the handshake relies on of X25519 and Ed25519: the Diffie-Hellman function commutes on
  key pairs, and a signature of 64 bytes made with the secret key of a pair verifies under its
  public key. \<open>K\<close> and \<open>E\<close> are the key pairs (public, secret).
\<close>

definition dh_law :: "sodium \<Rightarrow> (bytes \<times> bytes) set \<Rightarrow> bool" where
  "dh_law so K \<longleftrightarrow> (\<forall>(p, s)\<in>K. \<forall>(q, t)\<in>K. scalarmult so s q = scalarmult so t p \<and> length p = 32)"

lemma dh_lawD: "dh_law so K \<Longrightarrow> (p, s) \<in> K \<Longrightarrow> (q, t) \<in> K \<Longrightarrow> scalarmult so s q = scalarmult so t p"
  unfolding dh_law_def by blast

definition sign_law :: "sodium \<Rightarrow> (bytes \<times> bytes) set \<Rightarrow> bool" where
  "sign_law so E \<longleftrightarrow>
     (\<forall>(pk, sk)\<in>E. \<forall>m sig. sign_detached so m sk = Some sig \<longrightarrow> sign_verify so sig m pk \<and> length sig = 64)"

lemma make_msg1_fields:
  assumes "length c_pub = 32" "length c_nonce = 8"
  shows "msg1_pub (make_msg1 c_pub c_nonce av) = c_pub" "msg1_nonce (make_msg1 c_pub c_nonce av) = c_nonce"
    "length (make_msg1 c_pub c_nonce av) = 56"
  using assms by (simp_all add: make_msg1_def msg1_pub_def msg1_nonce_def slice_def)

lemma make_msg2_fields:
  assumes "length s_pub = 32" "length s_nonce = 8" "length ip = 4" "length sig = 64"
  shows "slice (make_msg2 s_pub s_nonce ip sig) 6 32 = s_pub" "slice (make_msg2 s_pub s_nonce ip sig) 38 8 = s_nonce"
    "slice (make_msg2 s_pub s_nonce ip sig) 46 4 = ip" "slice (make_msg2 s_pub s_nonce ip sig) 50 64 = sig"
  using assms by (simp_all add: make_msg2_def slice_def)

lemma handle_msg1_success:
  assumes "server_ok st" "sodium_lens so" "handle_msg1 so env msg1 src server_sk st = Some (0, ds, st')"
  obtains i sig dh1 dh2 where "admitted env msg1 src st i" "msg1_crypto so env msg1 server_sk st = Some (sig, dh1, dh2)"
    "ds = [(src, make_msg2 (fst (env_kx env)) (env_nonce env) (vpn_addr i) sig)]"
    "session_installed so env msg1 src dh1 dh2 i (sessions st' ! i)"
proof (cases "\<exists>i. admitted env msg1 src st i")
  case False
  obtain st1 where "handle_msg1 so env msg1 src server_sk st = Some (-1, [], st1)"
    by (rule msg1_refused [of env msg1 src st so server_sk]) (use False in auto)
  then show ?thesis using assms(3) by simp
next
  case True
  then obtain i where "admitted env msg1 src st i" by blast
  from admitted_outcome [OF assms(1,2) this, of server_sk] assms(3)
  show ?thesis using that by (auto split: if_splits)
qed

lemma keys_agree:
  assumes srv: "server_ok st" "sodium_lens so"
      "handle_msg1 so env (make_msg1 (fst (ce_kx cenv)) (ce_nonce cenv) av) src server_sk st = Some (0, [(src, msg2)], st')"
    and law: "dh_law so K" "sign_law so E"
    and keys: "ce_kx cenv \<in> K" "env_kx env \<in> K" "(kx_pk, server_sk) \<in> K" "pk_to_curve so server_pk = Some kx_pk"
      "g_sign_sk st = Some sign_sk" "(server_pk, sign_sk) \<in> E"
    and lens: "length (ce_nonce cenv) = 8" "length (env_nonce env) = 8"
    and got: "ce_sent cenv" "receive_msg2 (ce_rounds cenv) (ce_now cenv + 15) 0 (ce_stack cenv) b = (Some msg2, b1)"
  shows "\<exists>i<MAX_CLIENTS. \<exists>sent out. client_handshake so cenv av server_pk out0 b = (0, sent, out, b1) \<and>
    active (sessions st' ! i) \<and> client_addr (sessions st' ! i) = src \<and>
    ho_session_id out = session_id (sessions st' ! i) \<and> ho_assigned_ip out = vpn_ip (sessions st' ! i) \<and>
    ho_k_send out = k_recv (sessions st' ! i) \<and> ho_k_recv out = k_send (sessions st' ! i) \<and>
    sent = [make_msg1 (fst (ce_kx cenv)) (ce_nonce cenv) av] \<and> send_seq (sessions st' ! i) = 0 \<and>
    rw (sessions st' ! i) = replay_window_zero"
proof -
  obtain c_pub c_priv where c: "ce_kx cenv = (c_pub, c_priv)" by fastforce
  obtain s_pub s_priv where s: "env_kx env = (s_pub, s_priv)" by fastforce
  let ?m1 = "make_msg1 (fst (ce_kx cenv)) (ce_nonce cenv) av"
  have pubs: "length c_pub = 32" "length s_pub = 32" using law(1) keys(1,2) c s by (auto simp: dh_law_def)
  note m1 = make_msg1_fields [OF pubs(1) lens(1), of av]
  obtain i sig dh1 dh2 where i: "admitted env ?m1 src st i" "msg1_crypto so env ?m1 server_sk st = Some (sig, dh1, dh2)"
    "[(src, msg2)] = [(src, make_msg2 (fst (env_kx env)) (env_nonce env) (vpn_addr i) sig)]"
    "session_installed so env ?m1 src dh1 dh2 i (sessions st' ! i)"
    by (rule handle_msg1_success [OF srv])
  have i250: "i < MAX_CLIENTS"
    using i(1) srv(1) by (auto simp: admitted_def find_index_Some_iff server_ok_def sessions_ok_def)
  have crypto: "sign_detached so (signed_blob s_pub (env_nonce env) c_pub (ce_nonce cenv)) sign_sk = Some sig"
    "scalarmult so s_priv c_pub = Some dh1" "scalarmult so server_sk c_pub = Some dh2"
    using i(2) keys(5) m1 c s by (auto simp: msg1_crypto_def split: option.splits)
  have sig: "sign_verify so sig (signed_blob s_pub (env_nonce env) c_pub (ce_nonce cenv)) server_pk" "length sig = 64"
    using law(2) keys(6) crypto(1) by (auto simp: sign_law_def)
  have dh: "scalarmult so c_priv s_pub = Some dh1" "scalarmult so c_priv kx_pk = Some dh2"
    using dh_lawD [OF law(1), of c_pub c_priv] keys(1-3) crypto(2,3) c s by auto
  have m2: "msg2 = make_msg2 s_pub (env_nonce env) (vpn_addr i) sig" using i(3) s by simp
  note f = make_msg2_fields [OF pubs(2) lens(2) _ sig(2), of "vpn_addr i", folded m2]
  have ip: "length (vpn_addr i) = 4" by (simp add: vpn_addr_def)
  have hk: "fst (handshake_keys so dh1 dh2 (ce_nonce cenv) (env_nonce env)) = k_recv (sessions st' ! i)"
    "snd (handshake_keys so dh1 dh2 (ce_nonce cenv) (env_nonce env)) = k_send (sessions st' ! i)"
    using i(4) m1 c by (simp_all add: session_installed_def prod_eq_iff)
  show ?thesis
    using i(4) got keys(4) i250 sig(1) dh c s m1 f [OF ip] hk
    by (intro exI [of _ i]) (auto simp: client_handshake_def verify_msg2_eq Let_def session_installed_def
        split: prod.splits)
qed

text \<open>
  C6. Key agreement. If the server answers the first message of a client with success and the
  client receives that answer, the client's handshake succeeds, and the client and the session
  the server installed agree on the session identifier and the tunnel address, and each side's
  sending key is the other side's receiving key.
\<close>

theorem key_agreement:
  assumes srv: "server_ok st" "sodium_lens so"
      "handle_msg1 so env (make_msg1 (fst (ce_kx cenv)) (ce_nonce cenv) av) src server_sk st = Some (0, [(src, msg2)], st')"
    and law: "dh_law so K" "sign_law so E"
    and keys: "ce_kx cenv \<in> K" "env_kx env \<in> K" "(kx_pk, server_sk) \<in> K" "pk_to_curve so server_pk = Some kx_pk"
      "g_sign_sk st = Some sign_sk" "(server_pk, sign_sk) \<in> E"
    and lens: "length (ce_nonce cenv) = 8" "length (env_nonce env) = 8"
    and got: "ce_sent cenv" "receive_msg2 (ce_rounds cenv) (ce_now cenv + 15) 0 (ce_stack cenv) b = (Some msg2, b1)"
  shows "\<exists>i<MAX_CLIENTS. \<exists>sent out. client_handshake so cenv av server_pk out0 b = (0, sent, out, b1) \<and>
    active (sessions st' ! i) \<and> client_addr (sessions st' ! i) = src \<and>
    ho_session_id out = session_id (sessions st' ! i) \<and> ho_assigned_ip out = vpn_ip (sessions st' ! i) \<and>
    ho_k_send out = k_recv (sessions st' ! i) \<and> ho_k_recv out = k_send (sessions st' ! i)"
  using keys_agree [OF assms, of out0] by blast

definition sample_argv :: client_argv where
  "sample_argv = \<lparr>ca_MBPS = 5, ca_FRAG = 1024, ca_CBR = char_Y, ca_PAD = char_N, ca_REHANDSHAKE = 20, ca_TUN = ''tun_client''\<rparr>"

definition sample_cenv :: "bytes \<Rightarrow> client_env" where
  "sample_cenv d =
     \<lparr>ce_kx = (replicate 32 2, replicate 32 2), ce_nonce = replicate 8 6, ce_now = 1000, ce_sent = True,
      ce_rounds = (\<lambda>_. \<lparr>rx_time = 1001, rx_event = Rx_data d, rx_mem = True\<rparr>), ce_stack = replicate MSG2_LENGTH 0\<rparr>"

definition sample_out :: handshake_out where
  "sample_out = \<lparr>ho_session_id = [], ho_k_send = [], ho_k_recv = [], ho_assigned_ip = []\<rparr>"

lemma sample_make_msg1: "make_msg1 (replicate 32 2) (replicate 8 6) sample_argv = sample_msg1"
  by (simp add: make_msg1_def sample_msg1_def sample_argv_def)

lemma sample_answer:
  obtains sig st' where "handle_msg1 sample_sodium sample_env sample_msg1 sample_src (replicate 32 6) sample_server =
      Some (0, [(sample_src, make_msg2 (replicate 32 3) (replicate 8 4) (vpn_addr 0) sig)], st')" "length sig = 64"
proof -
  have c: "completes sample_sodium sample_env sample_msg1 sample_src (replicate 32 6) sample_server"
    unfolding completes_def
    by (intro conjI exI [of _ 0] sample_admitted)
      (simp_all add: msg1_crypto_def sample_server_def sample_sodium_def sample_env_def sample_table_def
        sessions_init_def MAX_CLIENTS_def)
  have i0: "i = 0" if "admitted sample_env sample_msg1 sample_src sample_server i" for i
    using that sample_admitted [of sample_src] by (simp add: admitted_def)
  have sig: "sig = replicate 64 5"
    if "msg1_crypto sample_sodium sample_env sample_msg1 (replicate 32 6) sample_server = Some (sig, x, y)" for sig x y
    using that by (simp add: msg1_crypto_def sample_server_def sample_sodium_def)
  show ?thesis
    using admitted_outcome [OF sample_server_ok sample_sodium_lens sample_admitted, of sample_src "replicate 32 6"] c i0 sig that
    by (fastforce simp: sample_env_def)
qed

lemma sample_receive:
  assumes "d = make_msg2 (replicate 32 3) (replicate 8 4) (vpn_addr 0) sig" "length sig = 64"
  shows "receive_msg2 (ce_rounds (sample_cenv d)) (ce_now (sample_cenv d) + 15) 0 (ce_stack (sample_cenv d)) b = (Some d, b)"
proof -
  have "length d = 114" "proto_header_of d = handshake_header"
    using assms by (simp_all add: make_msg2_def vpn_addr_def)
  then show ?thesis
    by (subst receive_msg2.simps) (use assms in \<open>auto simp: sample_cenv_def config_defs handshake_header_def Let_def\<close>)
qed

lemma sample_laws:
  "dh_law sample_sodium {(replicate 32 2, replicate 32 2), (replicate 32 3, replicate 32 3), (replicate 32 6, replicate 32 6)}"
  "sign_law sample_sodium {(replicate 32 5, replicate 64 5)}"
  by (auto simp: dh_law_def sign_law_def sample_sodium_def zip_replicate)

text \<open>A handshake of a client with the sample server.\<close>

theorem key_agreement_witness:
  "\<exists>msg2 st' sent out. handle_msg1 sample_sodium sample_env sample_msg1 sample_src (replicate 32 6) sample_server =
       Some (0, [(sample_src, msg2)], st') \<and>
     client_handshake sample_sodium (sample_cenv msg2) sample_argv (replicate 32 5) sample_out None =
       (0, sent, out, None) \<and> (\<exists>i<MAX_CLIENTS. ho_k_send out = k_recv (sessions st' ! i))"
proof -
  obtain sig st' where a: "handle_msg1 sample_sodium sample_env sample_msg1 sample_src (replicate 32 6) sample_server =
      Some (0, [(sample_src, make_msg2 (replicate 32 3) (replicate 8 4) (vpn_addr 0) sig)], st')" "length sig = 64"
    by (rule sample_answer)
  define d where "d = make_msg2 (replicate 32 3) (replicate 8 4) (vpn_addr 0) sig"
  note r = sample_receive [OF d_def a(2), of None]
  show ?thesis
    using key_agreement [OF sample_server_ok sample_sodium_lens _ sample_laws(1,2), where cenv = "sample_cenv d" and
        env = sample_env and av = sample_argv and src = sample_src and server_sk = "replicate 32 6" and ?msg2.0 = d and
        st' = st' and kx_pk = "replicate 32 6" and server_pk = "replicate 32 5" and sign_sk = "replicate 64 5" and
        b = None and ?b1.0 = None and ?out0.0 = sample_out] a(1) r sample_make_msg1
    by (simp add: d_def [symmetric])
      (auto simp: sample_cenv_def sample_env_def sample_sodium_def sample_server_def map_replicate_const)
qed

definition sample_msg2 :: bytes where
  "sample_msg2 = make_msg2 (replicate 32 3) (replicate 8 4) (vpn_addr 0) (replicate 64 5)"

lemma sample_msg2_fields [simp]:
  "slice sample_msg2 6 32 = replicate 32 3" "slice sample_msg2 38 8 = replicate 8 4"
  "slice sample_msg2 46 4 = vpn_addr 0" "slice sample_msg2 50 64 = replicate 64 5"
  using make_msg2_fields [of "replicate 32 3" "replicate 8 4" "vpn_addr 0" "replicate 64 5"]
  by (simp_all add: sample_msg2_def vpn_addr_def)

lemma sample_handshake_ok:
  "\<exists>sent out. client_handshake sample_sodium (sample_cenv sample_msg2) sample_argv (replicate 32 5) sample_out b =
     (0, sent, out, b)"
proof -
  have v: "\<exists>out. verify_msg2 sample_sodium (sample_cenv sample_msg2) (replicate 32 5) kx sample_msg2 sample_out = (0, out)" for kx
    by (simp add: verify_msg2_eq Let_def sample_sodium_def)
  show ?thesis
    using sample_receive [OF sample_msg2_def, of b] v [of "replicate 32 6"]
    by (auto simp: client_handshake_def sample_cenv_def sample_sodium_def map_replicate_const Let_def)
qed

theorem client_authenticates_server_witness:
  "\<exists>sent out d. client_handshake sample_sodium (sample_cenv sample_msg2) sample_argv (replicate 32 5) sample_out None =
     (0, sent, out, None) \<and> answer_verified sample_sodium (sample_cenv sample_msg2) (replicate 32 5) d"
proof -
  obtain sent out where h: "client_handshake sample_sodium (sample_cenv sample_msg2) sample_argv (replicate 32 5)
      sample_out None = (0, sent, out, None)" using sample_handshake_ok by blast
  have "length (ce_stack (sample_cenv sample_msg2)) = MSG2_LENGTH" by (simp add: sample_cenv_def)
  from client_authenticates_server [OF h this] h show ?thesis by blast
qed

section \<open>The address is not signed\<close>

text \<open>
  The signature does not cover the tunnel address: whoever can change the answer on its way
  can give the client any address, the client accepts it and derives the same keys.
\<close>

lemma address_not_signed:
  assumes "verify_msg2 so env server_pk kx (make_msg2 s_pub s_nonce ip sig) out0 = (0, out)"
    and "length s_pub = 32" "length s_nonce = 8" "length ip = 4" "length sig = 64" "length ip' = 4"
  shows "verify_msg2 so env server_pk kx (make_msg2 s_pub s_nonce ip' sig) out0 = (0, out\<lparr>ho_assigned_ip := ip'\<rparr>)"
  using assms(1) make_msg2_fields [OF assms(2-5)] make_msg2_fields [OF assms(2,3,6,5)]
  by (auto simp: verify_msg2_eq Let_def split: if_splits option.splits)

section \<open>Backing off and giving up\<close>

text \<open>
  The states the connection goes through in the event loop: the loop asks
  \<open>should_attempt_rehandshake\<close> at any time and attempts a rotation if it says so, with any
  outcome of the handshake.
\<close>

inductive rehandshake_reach :: "sodium \<Rightarrow> bytes \<Rightarrow> server_t \<Rightarrow> bool" for so :: sodium and server_pk :: bytes where
  reach_start: "rehandshake_state srv = REHANDSHAKE_READY \<Longrightarrow> rehandshake_attempts srv = 0 \<Longrightarrow>
    rehandshake_reach so server_pk srv"
| reach_wait: "rehandshake_reach so server_pk srv \<Longrightarrow> should_attempt_rehandshake now srv = (r, srv') \<Longrightarrow> r \<noteq> 1 \<Longrightarrow>
    rehandshake_reach so server_pk srv'"
| reach_attempt: "rehandshake_reach so server_pk srv \<Longrightarrow> should_attempt_rehandshake now srv = (1, srv') \<Longrightarrow>
    rehandshake_reach so server_pk (rr_srv (rehandshake_client_with_state so env av locals now2 server_pk srv' sa w ka b))"
| reach_send: "rehandshake_reach so server_pk srv \<Longrightarrow> rehandshake_reach so server_pk (srv\<lparr>sv_send_seq := q\<rparr>)"

definition backoff_inv :: "server_t \<Rightarrow> bool" where
  "backoff_inv srv \<longleftrightarrow>
     0 \<le> rehandshake_attempts srv \<and> rehandshake_attempts srv \<le> 5 \<and>
     (case rehandshake_state srv of
        REHANDSHAKE_READY \<Rightarrow> rehandshake_attempts srv < 5
      | REHANDSHAKE_IN_PROGRESS \<Rightarrow> False
      | REHANDSHAKE_BACKOFF \<Rightarrow>
          1 \<le> rehandshake_attempts srv \<and> rehandshake_backoff_sec srv = 2 ^ nat (rehandshake_attempts srv - 1)
      | REHANDSHAKE_FAILED \<Rightarrow> rehandshake_attempts srv = 5)"

lemma rehandshake_fields:
  fixes so env av locals now2 server_pk srv sa w ka b
  defines "r \<equiv> rehandshake_client_with_state so env av locals now2 server_pk srv sa w ka b"
  shows "rr_rc r = 0 \<and> rehandshake_state (rr_srv r) = REHANDSHAKE_READY \<and> rehandshake_attempts (rr_srv r) = 0 \<or>
    rr_rc r = -1 \<and> rehandshake_state (rr_srv r) = REHANDSHAKE_BACKOFF \<and>
    rehandshake_attempts (rr_srv r) = rehandshake_attempts srv + 1 \<and> rehandshake_last_attempt (rr_srv r) = ce_now env \<and>
    rehandshake_backoff_sec (rr_srv r) = min 60 (2 ^ nat (rehandshake_attempts srv))"
  unfolding r_def rehandshake_client_with_state_def Let_def by (auto simp: min_def split: prod.split)

lemma small_powers: "0 \<le> n \<Longrightarrow> n < 5 \<Longrightarrow> (2 :: int) ^ nat n \<le> 16"
proof -
  assume "0 \<le> n" "n < 5"
  then have "n = 0 \<or> n = 1 \<or> n = 2 \<or> n = 3 \<or> n = 4" by arith
  then show ?thesis by auto
qed

lemma backoff_reach: "rehandshake_reach so server_pk srv \<Longrightarrow> backoff_inv srv"
proof (induction rule: rehandshake_reach.induct)
  case (reach_attempt srv now srv' env av locals now2 sa w ka b)
  then have "0 \<le> rehandshake_attempts srv'" "rehandshake_attempts srv' < 5"
    by (auto simp: should_attempt_rehandshake_def backoff_inv_def split: if_splits rehandshake_state.splits)
  then show ?case
    using rehandshake_fields [of so env av locals now2 server_pk srv' sa w ka b] small_powers [of "rehandshake_attempts srv'"]
    by (auto simp: backoff_inv_def)
qed (auto simp: backoff_inv_def should_attempt_rehandshake_def split: if_splits rehandshake_state.splits)

text \<open>
  C34. The state machine of the key rotation. In every reachable state at most five attempts in
  a row have failed; a backoff lasts \<open>2^(n-1)\<close> seconds after the n-th failure, at most 16, so the
  documented cap of 60 seconds is never used; when it is over the next question is answered
  yes, before it no; and after the fifth failure every question at any later time is answered
  with the order to disconnect, without waiting the fifth backoff.
\<close>

theorem rehandshake_backoff:
  assumes "rehandshake_reach so server_pk srv"
  shows "rehandshake_attempts srv \<in> {0..5} \<and> rehandshake_state srv \<noteq> REHANDSHAKE_IN_PROGRESS \<and>
    (rehandshake_state srv = REHANDSHAKE_BACKOFF \<longrightarrow>
       rehandshake_backoff_sec srv = 2 ^ nat (rehandshake_attempts srv - 1) \<and> rehandshake_backoff_sec srv \<le> 16) \<and>
    (rehandshake_attempts srv = 5 \<longrightarrow> fst (should_attempt_rehandshake now srv) = -1) \<and>
    (rehandshake_attempts srv < 5 \<longrightarrow> fst (should_attempt_rehandshake now srv) =
       (if rehandshake_state srv = REHANDSHAKE_BACKOFF \<and>
           now - rehandshake_last_attempt srv < 2 ^ nat (rehandshake_attempts srv - 1) then 0 else 1))"
  using backoff_reach [OF assms] small_powers [of "rehandshake_attempts srv - 1"]
  by (auto simp: backoff_inv_def should_attempt_rehandshake_def split: rehandshake_state.splits)

definition sample_srv :: server_t where
  "sample_srv = \<lparr>sv_session_id = replicate 16 7, sv_server_pk = replicate 32 5, sv_k_recv = replicate 32 2,
     sv_k_send = replicate 32 1, sv_send_seq = 1, sv_server_addr = sample_src, sv_assigned_ip = vpn_addr 3,
     session_start_time = 0, bytes_sent = 0, rehandshake_state = REHANDSHAKE_READY, rehandshake_attempts = 0,
     rehandshake_last_attempt = 0, rehandshake_backoff_sec = 0\<rparr>"

theorem rehandshake_backoff_witness:
  "rehandshake_attempts sample_srv \<in> {0..5} \<and> fst (should_attempt_rehandshake 77 sample_srv) = 1"
proof -
  have "rehandshake_reach sample_sodium (replicate 32 5) sample_srv"
    by (rule reach_start) (simp_all add: sample_srv_def)
  from rehandshake_backoff [OF this, of 77] show ?thesis by (simp add: sample_srv_def)
qed

end
