(* ===== verification/Thread_Pool.thy ===== *)
theory Thread_Pool
  imports Linked_Queue Wire_Format "HOL-Library.Signed_Division"
begin

text \<open>
  The sharded job queues of \<open>chamlon_server/src/thread_pool.c\<close> and the dispatch of received
  datagrams to them in \<open>chamlon_server/src/vpn_server.c\<close>. Each worker thread owns one linked
  queue; the event thread appends under the queue's mutex and the worker unlinks under it, so
  both are atomic steps. Thread creation, CPU pinning and condition variables are not
  modelled: a worker that would wait is a step that finds nothing to do.
\<close>

section \<open>State\<close>

text \<open>
  A job with the buffer it owns; an inbound job also has the sender's address and port. The
  descriptors and the pointer to the server key are the same for every job.
\<close>

datatype job =
    JOB_TYPE_INBOUND_CRYPTO bytes u32 u16
  | JOB_TYPE_OUTBOUND_CRYPTO bytes
  | JOB_TYPE_SHUTDOWN

record shard_queue =
  sq_lane :: lane
  max_size :: nat

record thread_pool =
  shards :: "shard_queue list"
  num_threads :: nat
  shutdown :: bool

definition SHARD_MAX_SIZE :: nat where [config_defs]: "SHARD_MAX_SIZE = 4096"

text \<open>\<open>mem\<close> tells whether the allocations and the thread creations succeed.\<close>

definition thread_pool_create :: "bool \<Rightarrow> int \<Rightarrow> thread_pool option" where
  "thread_pool_create mem n =
     (let k = nat (if n \<le> 0 then 4 else n) in
      if mem
      then Some \<lparr>shards = replicate k \<lparr>sq_lane = empty_lane, max_size = SHARD_MAX_SIZE\<rparr>,
                 num_threads = k, shutdown = False\<rparr>
      else None)"

section \<open>Operations\<close>

definition enqueue_to_shard ::
  "addr option \<Rightarrow> job \<Rightarrow> nat \<Rightarrow> job store \<Rightarrow> thread_pool \<Rightarrow> (int \<times> job store \<times> thread_pool) option" where
  "enqueue_to_shard mal jb shard h pool =
     (if shard < length (shards pool) then
        let q = shards pool ! shard in
        if size_of (sq_lane q) \<ge> max_size q then Some (-1, h, pool)
        else
          (case mal of
             None \<Rightarrow> Some (-1, h, pool)
           | Some n \<Rightarrow>
               (case append_node n (h(n \<mapsto> \<lparr>nxt = None, item = jb\<rparr>)) (sq_lane q) of
                  None \<Rightarrow> None
                | Some (h1, l1) \<Rightarrow>
                    Some (0, h1, pool\<lparr>shards := (shards pool)[shard := q\<lparr>sq_lane := l1\<rparr>]\<rparr>)))
      else None)"

definition thread_pool_submit_sharded ::
  "addr option \<Rightarrow> job \<Rightarrow> byte \<Rightarrow> job store \<Rightarrow> thread_pool \<Rightarrow> (int \<times> job store \<times> thread_pool) option" where
  "thread_pool_submit_sharded mal jb shard_key h pool =
     enqueue_to_shard mal jb (unat shard_key mod num_threads pool) h pool"

text \<open>
  The round-robin counter is a C \<open>int\<close> that wraps, and \<open>%\<close> truncates towards zero, so the
  shard can come out negative: then \<open>&pool->shards[shard]\<close> lies before the array.
\<close>

definition thread_pool_submit ::
  "addr option \<Rightarrow> job \<Rightarrow> 32 word \<Rightarrow> job store \<Rightarrow> thread_pool \<Rightarrow>
   ((int \<times> job store \<times> thread_pool) \<times> 32 word) option" where
  "thread_pool_submit mal jb rr h pool =
     (let shard = sint rr smod int (num_threads pool) in
      if shard < 0 then None
      else map_option (\<lambda>out. (out, rr + 1)) (enqueue_to_shard mal jb (nat shard) h pool))"

text \<open>What one round of the worker loop does before it runs the job.\<close>

datatype worker_action = Wait | Exit | Run job

definition worker_take ::
  "nat \<Rightarrow> job store \<Rightarrow> thread_pool \<Rightarrow> (worker_action \<times> job store \<times> thread_pool) option" where
  "worker_take shard h pool =
     (if shard < length (shards pool) then
        let q = shards pool ! shard in
        if size_of (sq_lane q) = 0 then Some (if shutdown pool then Exit else Wait, h, pool)
        else
          (case unlink_head h (sq_lane q) of
             None \<Rightarrow> None
           | Some (n, l) \<Rightarrow>
               (case h n of
                  None \<Rightarrow> None
                | Some c \<Rightarrow>
                    Some (Run (item c), h(n := None),
                          pool\<lparr>shards := (shards pool)[shard := q\<lparr>sq_lane := l\<rparr>]\<rparr>)))
      else None)"

definition thread_pool_pending_jobs :: "thread_pool \<Rightarrow> nat" where
  "thread_pool_pending_jobs pool = sum_list (map (\<lambda>q. size_of (sq_lane q)) (shards pool))"

definition thread_pool_num_threads :: "thread_pool \<Rightarrow> nat" where
  "thread_pool_num_threads pool = num_threads pool"

text \<open>
  The event thread on a received datagram: the header check, the shard key and the job it
  submits; \<open>None\<close> when the datagram is dropped.
\<close>

definition dispatch_inbound :: "bytes \<Rightarrow> u32 \<Rightarrow> u16 \<Rightarrow> (byte \<times> job) option" where
  "dispatch_inbound dgram src_addr src_port =
     (if length dgram < sizeof_proto_header then None
      else
        let ph = proto_header_of dgram in
        if magic ph \<noteq> PKT_MAGIC \<or> version ph \<noteq> PKT_VERSION then None
        else
          let shard_key = (if ptype ph = PKT_TYPE_DATA \<and>
                              length dgram \<ge> sizeof_proto_header + SESSION_ID_LEN
                           then dgram ! sizeof_proto_header else 0)
          in Some (shard_key, JOB_TYPE_INBOUND_CRYPTO dgram src_addr src_port))"

section \<open>The queues as lists\<close>

definition pool_inv :: "job store \<Rightarrow> thread_pool \<Rightarrow> addr list list \<Rightarrow> job list list \<Rightarrow> bool" where
  "pool_inv h pool ass qs \<longleftrightarrow>
     length ass = num_threads pool \<and> length qs = num_threads pool \<and>
     length (shards pool) = num_threads pool \<and> 0 < num_threads pool \<and>
     (\<forall>i<num_threads pool. lane_rel h (sq_lane (shards pool ! i)) (ass ! i) \<and>
        items h (ass ! i) = qs ! i \<and> max_size (shards pool ! i) = SHARD_MAX_SIZE) \<and>
     (\<forall>i<num_threads pool. \<forall>j<num_threads pool. i \<noteq> j \<longrightarrow> set (ass ! i) \<inter> set (ass ! j) = {}) \<and>
     dom h = (\<Union>i<num_threads pool. set (ass ! i))"

definition pool_rel :: "job store \<times> thread_pool \<Rightarrow> job list list \<Rightarrow> bool" where
  "pool_rel c qs \<longleftrightarrow> (\<exists>ass. pool_inv (fst c) (snd c) ass qs)"

datatype pool_op = Submit "addr option" job byte | Take nat

datatype pool_result = Submitted int | Taken "job option"

text \<open>The machine: submissions by shard key, and one round of each worker.\<close>

fun pool_step :: "pool_op \<Rightarrow> job store \<times> thread_pool \<Rightarrow> (pool_result \<times> job store \<times> thread_pool) option" where
  "pool_step (Submit mal jb key) (h, pool) =
     map_option (\<lambda>(r, c). (Submitted r, c)) (thread_pool_submit_sharded mal jb key h pool)"
| "pool_step (Take i) (h, pool) =
     map_option (\<lambda>(a, c). (Taken (case a of Run jb \<Rightarrow> Some jb | _ \<Rightarrow> None), c)) (worker_take i h pool)"

fun pool_legal :: "pool_op \<Rightarrow> job store \<times> thread_pool \<Rightarrow> bool" where
  "pool_legal (Submit (Some n) jb key) (h, pool) \<longleftrightarrow> h n = None"
| "pool_legal (Submit None jb key) c \<longleftrightarrow> True"
| "pool_legal (Take i) (h, pool) \<longleftrightarrow> i < num_threads pool"

fun lists_step :: "pool_op \<Rightarrow> job list list \<Rightarrow> pool_result \<times> job list list" where
  "lists_step (Submit mal jb key) qs =
     (let i = unat key mod length qs in
      if length (qs ! i) \<ge> SHARD_MAX_SIZE \<or> mal = None then (Submitted (-1), qs)
      else (Submitted 0, qs[i := qs ! i @ [jb]]))"
| "lists_step (Take i) qs =
     (case qs ! i of [] \<Rightarrow> (Taken None, qs) | jb # js \<Rightarrow> (Taken (Some jb), qs[i := js]))"

section \<open>Refinement\<close>

lemma pool_inv_lane:
  assumes "pool_inv h pool ass qs" and "i < num_threads pool"
  shows "lane_rel h (sq_lane (shards pool ! i)) (ass ! i)" "items h (ass ! i) = qs ! i"
    "max_size (shards pool ! i) = SHARD_MAX_SIZE" "size_of (sq_lane (shards pool ! i)) = length (qs ! i)"
    "i < length (shards pool)"
proof -
  show rel: "lane_rel h (sq_lane (shards pool ! i)) (ass ! i)" and it: "items h (ass ! i) = qs ! i"
    and "max_size (shards pool ! i) = SHARD_MAX_SIZE" "i < length (shards pool)"
    using assms by (auto simp: pool_inv_def)
  show "size_of (sq_lane (shards pool ! i)) = length (qs ! i)"
    using rel by (simp add: lane_rel_def flip: it)
qed

text \<open>Replacing one lane and leaving the nodes of the others alone.\<close>

lemma pool_inv_update:
  assumes inv: "pool_inv h pool ass qs" and i: "i < num_threads pool"
    and lane: "lane_rel h' l' as'" "items h' as' = js'"
    and frame: "\<And>a. a \<in> dom h - set (ass ! i) \<Longrightarrow> h' a = h a"
    and dom: "dom h' = (dom h - set (ass ! i)) \<union> set as'" "set as' \<inter> (dom h - set (ass ! i)) = {}"
  shows "pool_inv h' (pool\<lparr>shards := (shards pool)[i := (shards pool ! i)\<lparr>sq_lane := l'\<rparr>]\<rparr>)
    (ass[i := as']) (qs[i := js'])"
proof -
  let ?n = "num_threads pool"
  have len: "length ass = ?n" "length qs = ?n" "length (shards pool) = ?n" "0 < ?n"
    and dis: "\<And>j k. j < ?n \<Longrightarrow> k < ?n \<Longrightarrow> j \<noteq> k \<Longrightarrow> set (ass ! j) \<inter> set (ass ! k) = {}"
    and dom0: "dom h = (\<Union>j<?n. set (ass ! j))" using inv by (auto simp: pool_inv_def)
  have out: "set (ass ! j) \<subseteq> dom h - set (ass ! i)" if "j < ?n" "j \<noteq> i" for j
    using dis [OF that(1) i that(2)] that(1) by (auto simp: dom0)
  have other: "lane_rel h' (sq_lane (shards pool ! j)) (ass ! j) \<and> items h' (ass ! j) = items h (ass ! j)"
    if "j < ?n" "j \<noteq> i" for j
    by (rule lane_rel_frame [OF _ pool_inv_lane(1) [OF inv that(1)]]) (use out [OF that] frame in blast)
  have lanes: "lane_rel h' (sq_lane ((shards pool)[i := (shards pool ! i)\<lparr>sq_lane := l'\<rparr>] ! j)) (ass[i := as'] ! j) \<and>
      items h' (ass[i := as'] ! j) = qs[i := js'] ! j \<and>
      max_size ((shards pool)[i := (shards pool ! i)\<lparr>sq_lane := l'\<rparr>] ! j) = SHARD_MAX_SIZE" if "j < ?n" for j
    using other [OF that] lane pool_inv_lane(2,3) [OF inv that] len i that by (cases "j = i") auto
  have dis': "set (ass[i := as'] ! j) \<inter> set (ass[i := as'] ! k) = {}" if "j < ?n" "k < ?n" "j \<noteq> k" for j k
    using dis [OF that] out [OF that(1)] out [OF that(2)] dom(2) len i that
    by (cases "j = i"; cases "k = i") auto
  have "(\<Union>j<?n. set (ass[i := as'] ! j)) = (\<Union>j\<in>{..<?n} - {i}. set (ass ! j)) \<union> set as'"
    using i len by (auto simp: nth_list_update split: if_splits)
  moreover have "(\<Union>j\<in>{..<?n} - {i}. set (ass ! j)) = dom h - set (ass ! i)"
    using out dom0 by auto
  ultimately show ?thesis using lanes dis' len dom(1) by (simp add: pool_inv_def)
qed

lemma submit_rel:
  assumes inv: "pool_inv h pool ass qs" and i: "i < num_threads pool" and fresh: "h n = None"
    and room: "length (qs ! i) < SHARD_MAX_SIZE"
  shows "\<exists>c'. enqueue_to_shard (Some n) jb i h pool = Some (0, c') \<and> pool_rel c' (qs[i := qs ! i @ [jb]])"
proof -
  let ?h = "h(n \<mapsto> \<lparr>nxt = None, item = jb\<rparr>)"
  note l = pool_inv_lane [OF inv i]
  have sub: "set (ass ! i) \<subseteq> dom h" using inv i by (auto simp: pool_inv_def)
  then have n: "n \<notin> set (ass ! i)" using fresh by auto
  have fr: "lane_rel ?h (sq_lane (shards pool ! i)) (ass ! i) \<and> items ?h (ass ! i) = items h (ass ! i)"
    by (rule lane_rel_frame [OF _ l(1)]) (use n in auto)
  obtain h' l' where ap: "append_node n ?h (sq_lane (shards pool ! i)) = Some (h', l')"
    "lane_rel h' l' (ass ! i @ [n])" "items h' (ass ! i @ [n]) = items ?h (ass ! i) @ [jb]"
    "\<And>a. a \<notin> set (ass ! i) \<Longrightarrow> h' a = ?h a" "\<And>a. h' a = None \<longleftrightarrow> ?h a = None"
    using append_node_rel [OF conjunct1 [OF fr] n fun_upd_same] by blast
  have it: "items h' (ass ! i @ [n]) = qs ! i @ [jb]" using ap(3) fr l(2) by simp
  have "dom h' = dom ?h" using ap(5) by (simp add: dom_def)
  then have "dom h' = (dom h - set (ass ! i)) \<union> set (ass ! i @ [n])" using sub by auto
  moreover have "h' a = h a" if "a \<in> dom h - set (ass ! i)" for a using ap(4) [of a] that fresh by auto
  moreover have "set (ass ! i @ [n]) \<inter> (dom h - set (ass ! i)) = {}" using fresh by auto
  ultimately have "pool_inv h' (pool\<lparr>shards := (shards pool)[i := (shards pool ! i)\<lparr>sq_lane := l'\<rparr>]\<rparr>)
      (ass[i := ass ! i @ [n]]) (qs[i := qs ! i @ [jb]])"
    using pool_inv_update [OF inv i ap(2) it] by blast
  then show ?thesis
    using ap(1) l room by (auto simp: enqueue_to_shard_def Let_def pool_rel_def)
qed

lemma take_rel:
  assumes inv: "pool_inv h pool ass qs" and i: "i < num_threads pool" and q: "qs ! i = jb # js"
  shows "\<exists>c'. worker_take i h pool = Some (Run jb, c') \<and> pool_rel c' (qs[i := js])"
proof -
  note l = pool_inv_lane [OF inv i]
  obtain a as where as: "ass ! i = a # as" using l(2) q by (cases "ass ! i") auto
  obtain l' where u: "unlink_head h (sq_lane (shards pool ! i)) = Some (a, l')" "lane_rel h l' as"
    using unlink_head_rel [OF l(1) [unfolded as]] by blast
  obtain c where c: "h a = Some c" using lane_rel_alloc [OF l(1), of a] as by auto
  have a: "a \<notin> set as" using l(1) as by (simp add: lane_rel_def)
  have new: "lane_rel (h(a := None)) l' as \<and> items (h(a := None)) as = items h as"
    by (rule lane_rel_frame [OF _ u(2)]) (use a in auto)
  have it: "item c = jb" "items h as = js" using l(2) q as c by auto
  have sub: "set (ass ! i) \<subseteq> dom h" using inv i by (auto simp: pool_inv_def)
  have "pool_inv (h(a := None)) (pool\<lparr>shards := (shards pool)[i := (shards pool ! i)\<lparr>sq_lane := l'\<rparr>]\<rparr>)
      (ass[i := as]) (qs[i := js])"
    by (rule pool_inv_update [OF inv i]) (use new it sub as a in auto)
  then show ?thesis
    using u(1) c it l q by (auto simp: worker_take_def Let_def pool_rel_def)
qed

interpretation job_queues: simulation pool_rel pool_legal pool_step lists_step
proof
  fix c qs op r qs'
  assume rel: "pool_rel c qs" and legal: "pool_legal op c" and step: "lists_step op qs = (r, qs')"
  obtain h pool where c: "c = (h, pool)" by fastforce
  obtain ass where inv: "pool_inv h pool ass qs" using rel c by (auto simp: pool_rel_def)
  have len: "length qs = num_threads pool" "0 < num_threads pool" using inv by (auto simp: pool_inv_def)
  show "\<exists>c'. pool_step op c = Some (r, c') \<and> pool_rel c' qs'"
  proof (cases op)
    case (Submit mal jb key)
    define i where "i = unat key mod num_threads pool"
    have i: "i < num_threads pool" using len(2) by (simp add: i_def)
    note l = pool_inv_lane [OF inv i]
    show ?thesis
    proof (cases "length (qs ! i) \<ge> SHARD_MAX_SIZE \<or> mal = None")
      case True
      then have "enqueue_to_shard mal jb i h pool = Some (-1, h, pool)"
        using l(3-5) by (auto simp: enqueue_to_shard_def Let_def)
      moreover have "r = Submitted (-1)" "qs' = qs"
        using True step by (simp_all add: Submit len(1) Let_def flip: i_def)
      ultimately show ?thesis
        using rel by (simp add: Submit c thread_pool_submit_sharded_def flip: i_def)
    next
      case False
      then obtain n where n: "mal = Some n" by auto
      then have fresh: "h n = None" using legal Submit c by simp
      have room: "length (qs ! i) < SHARD_MAX_SIZE" using False by simp
      obtain c' where "enqueue_to_shard (Some n) jb i h pool = Some (0, c')" "pool_rel c' (qs[i := qs ! i @ [jb]])"
        using submit_rel [OF inv i fresh room] by blast
      moreover have "r = Submitted 0" "qs' = qs[i := qs ! i @ [jb]]"
        using room step by (simp_all add: Submit n len(1) Let_def flip: i_def)
      ultimately show ?thesis
        by (simp add: Submit c n thread_pool_submit_sharded_def flip: i_def)
    qed
  next
    case (Take i)
    then have i: "i < num_threads pool" using legal c by simp
    note l = pool_inv_lane [OF inv i]
    show ?thesis
    proof (cases "qs ! i")
      case Nil
      then have "worker_take i h pool = Some (if shutdown pool then Exit else Wait, h, pool)"
        using l(4,5) by (simp add: worker_take_def Let_def)
      moreover have "r = Taken None" "qs' = qs" using step Nil by (simp_all add: Take)
      ultimately show ?thesis using rel by (simp add: Take c)
    next
      case (Cons jb js)
      from take_rel [OF inv i Cons] obtain c' where "worker_take i h pool = Some (Run jb, c')"
        "pool_rel c' (qs[i := js])" by blast
      moreover have "r = Taken (Some jb)" "qs' = qs[i := js]" using step Cons by (simp_all add: Take)
      ultimately show ?thesis by (simp add: Take c)
    qed
  qed
qed

section \<open>Order of the jobs\<close>

text \<open>The jobs a log shows as accepted for a shard, and as taken by its worker.\<close>

definition accepted :: "nat \<Rightarrow> nat \<Rightarrow> (pool_op \<times> pool_result) list \<Rightarrow> job list" where
  "accepted n i log =
     concat (map (\<lambda>(op, r). case op of
       Submit mal jb key \<Rightarrow> if r = Submitted 0 \<and> unat key mod n = i then [jb] else []
     | Take j \<Rightarrow> []) log)"

definition taken :: "nat \<Rightarrow> (pool_op \<times> pool_result) list \<Rightarrow> job list" where
  "taken i log =
     concat (map (\<lambda>(op, r). case (op, r) of (Take j, Taken (Some jb)) \<Rightarrow> if j = i then [jb] else []
     | _ \<Rightarrow> []) log)"

lemma lists_fifo:
  "i < length qs \<Longrightarrow> run_spec lists_step ops qs = (rs, qs') \<Longrightarrow>
   length qs' = length qs \<and>
   qs ! i @ accepted (length qs) i (zip ops rs) = taken i (zip ops rs) @ qs' ! i"
proof (induction ops arbitrary: qs rs)
  case (Cons op ops)
  obtain r qs1 rs1 where st: "lists_step op qs = (r, qs1)" and run: "run_spec lists_step ops qs1 = (rs1, qs')"
    and rs: "rs = r # rs1" using Cons.prems(2) by (auto split: prod.splits)
  have len: "length qs1 = length qs" using st by (cases op) (auto simp: Let_def split: if_splits list.splits)
  have ih: "qs1 ! i @ accepted (length qs) i (zip ops rs1) = taken i (zip ops rs1) @ qs' ! i"
    "length qs' = length qs" using Cons.IH [of qs1 rs1] Cons.prems(1) run len by auto
  show ?case
  proof (cases op)
    case (Submit mal jb key)
    have "qs1 ! i = qs ! i @ accepted (length qs) i [(op, r)]"
      using st Cons.prems(1) Submit by (auto simp: accepted_def Let_def nth_list_update split: if_splits)
    then show ?thesis using ih rs Submit by (simp add: accepted_def taken_def)
  next
    case (Take j)
    have "qs ! i = taken i [(op, r)] @ qs1 ! i"
      using st Cons.prems(1) Take by (auto simp: taken_def nth_list_update split: list.splits)
    then show ?thesis using ih rs Take by (simp add: accepted_def taken_def)
  qed
qed (simp add: accepted_def taken_def)

lemma pool_rel_create:
  assumes "thread_pool_create True n = Some pool"
  shows "pool_rel (Map.empty, pool) (replicate (num_threads pool) []) \<and> 0 < num_threads pool"
proof -
  have "pool_inv Map.empty pool (replicate (num_threads pool) []) (replicate (num_threads pool) [])"
    using assms by (auto simp: thread_pool_create_def pool_inv_def Let_def split: if_splits)
  moreover from this have "0 < num_threads pool" by (simp add: pool_inv_def)
  ultimately show ?thesis unfolding pool_rel_def by fastforce
qed

text \<open>
  C20. Jobs of one shard are run in the order they were submitted. Whatever sequence of
  submissions and worker rounds runs on a fresh pool, no queue follows a null or freed
  pointer, and for each shard the jobs its worker has taken are, in order, a prefix of the
  jobs accepted for that shard: none is lost, duplicated, reordered or run by another
  worker. This is what lets the workers touch a session's replay window without a lock.
\<close>

theorem jobs_in_order:
  assumes "thread_pool_create True n = Some pool"
    and "run_legal pool_legal pool_step ops (Map.empty, pool)"
  shows "\<exists>rs c. run_ops pool_step ops (Map.empty, pool) = Some (rs, c) \<and>
    (\<forall>i<num_threads pool. \<exists>waiting.
       accepted (num_threads pool) i (zip ops rs) = taken i (zip ops rs) @ waiting)"
proof -
  let ?qs = "replicate (num_threads pool) ([] :: job list)"
  obtain rs qs' where spec: "run_spec lists_step ops ?qs = (rs, qs')" by fastforce
  obtain c where run: "run_ops pool_step ops (Map.empty, pool) = Some (rs, c)"
    using job_queues.run_sim [OF conjunct1 [OF pool_rel_create [OF assms(1)]] assms(2)] by (auto simp: spec)
  have "accepted (num_threads pool) i (zip ops rs) = taken i (zip ops rs) @ qs' ! i"
    if "i < num_threads pool" for i
    using lists_fifo [of i ?qs ops rs qs'] that spec by simp
  with run show ?thesis by blast
qed

theorem jobs_in_order_witness:
  "\<exists>pool rs c. let ops = [Submit (Some 1) (JOB_TYPE_OUTBOUND_CRYPTO [1]) 2, Submit None JOB_TYPE_SHUTDOWN 2,
       Submit (Some 2) (JOB_TYPE_OUTBOUND_CRYPTO [2]) 4, Take 0, Take 1] in
    thread_pool_create True 2 = Some pool \<and>
    run_ops pool_step ops (Map.empty, pool) = Some (rs, c) \<and>
    (\<forall>i<num_threads pool. \<exists>waiting.
       accepted (num_threads pool) i (zip ops rs) = taken i (zip ops rs) @ waiting)"
proof -
  let ?ops = "[Submit (Some 1) (JOB_TYPE_OUTBOUND_CRYPTO [1]) 2, Submit None JOB_TYPE_SHUTDOWN 2,
       Submit (Some 2) (JOB_TYPE_OUTBOUND_CRYPTO [2]) 4, Take 0, Take 1]"
  obtain pool where pool: "thread_pool_create True 2 = Some pool" by (simp add: thread_pool_create_def)
  moreover have "run_legal pool_legal pool_step ?ops (Map.empty, the (thread_pool_create True 2))"
    by code_simp
  ultimately have "run_legal pool_legal pool_step ?ops (Map.empty, pool)" by simp
  from jobs_in_order [OF pool this] pool show ?thesis unfolding Let_def by blast
qed

text \<open>
  The round-robin counter of \<open>thread_pool_submit\<close> goes negative after \<open>2 ^ 31\<close> calls, and the
  shard index with it.
\<close>

lemma round_robin_wraps:
  assumes "num_threads pool = 3"
  shows "thread_pool_submit mal jb (2 ^ 31) h pool = None"
proof -
  have "sint (2 ^ 31 :: 32 word) = - 2147483648" by code_simp
  then show ?thesis using assms by (simp add: thread_pool_submit_def signed_modulo_int_def Let_def)
qed

end
