(* ===== verification/Packet_Processor.thy ===== *)
theory Packet_Processor
  imports Handshake Thread_Pool
begin

text \<open>
  The data path of the server, \<open>chamlon_server/src/packet_processor.c\<close>: what a pool worker
  does with a datagram (\<open>handle_inbound_udp\<close>) and with an IP packet from the TUN device
  (\<open>handle_outbound_tun_buf\<close>, \<open>send_outbound_packet\<close>), the dispatch of the TUN side
  (\<open>handle_outbound_tun\<close>), and the periodic work (\<open>perform_maintenance\<close>,
  \<open>send_keepalive_to_client\<close>). A handler returns the datagrams it sends, the packets it writes
  to the TUN device and the new state of the server; \<open>None\<close> is an access outside a buffer.
\<close>

section \<open>Inbound\<close>

text \<open>
  A datagram of a session from the replay check on. \<open>stk\<close> is what the buffer
  \<open>plain[BUFFER_SIZE]\<close> holds before the decryption: the header is read from that buffer even
  if the plaintext is shorter.
\<close>

definition inbound_session ::
  "sodium \<Rightarrow> time_t \<Rightarrow> bytes \<Rightarrow> bytes \<Rightarrow> nat \<Rightarrow> server \<Rightarrow> (bytes list \<times> server) option" where
  "inbound_session so now stk buf i st =
     (let s = (sessions st ! i)\<lparr>last_activity := now\<rparr>;
          st1 = st\<lparr>sessions := (sessions st)[i := s]\<rparr>
      in if length buf < DATA_HEADER_LEN then None
         else
     (let pkt_seq = packet_seq buf
      in if check_replay pkt_seq (rw s)
         then Some ([], st1\<lparr>stats := metrics_record_validation_error (stats st1)\<rparr>)
         else
     (let cipher_len = sub64 (length buf) DATA_HEADER_LEN
      in if cipher_len > BUFFER_SIZE - DATA_HEADER_LEN then Some ([], st1)
         else
      (case aead_decrypt (aead_dec so) (k_recv s) (session_id s) pkt_seq
              (take cipher_len (drop DATA_HEADER_LEN buf)) of
         None \<Rightarrow> Some ([], st1)
       | Some pl \<Rightarrow>
           if length pl > BUFFER_SIZE then None
           else
      (case update_window pkt_seq (rw s) of
         None \<Rightarrow> None
       | Some w \<Rightarrow>
     (let s2 = s\<lparr>rw := w\<rparr>;
          st2 = st1\<lparr>sessions := (sessions st1)[i := s2]\<rparr>;
          plain = memcpy_at stk 0 pl;
          header = tunnel_header_of plain
      in if flags header = PKT_DUMMY then Some ([], st2)
         else if flags header = PKT_CTRL_KEEPALIVE
         then Some ([], st2\<lparr>sessions := (sessions st2)[i := s2\<lparr>last_activity := now\<rparr>]\<rparr>)
         else if flags header = PKT_CTRL_DISCONNECT
         then (let (t, m) = free_session i (sessions st2) (stats st2)
               in Some ([], st2\<lparr>sessions := t, stats := m\<rparr>))
         else
           (let len = sub64 (length pl) sizeof_tunnel_header
            in case store_fragment now header len (drop sizeof_tunnel_header plain) (g_reassembly_table s2) of
                 None \<Rightarrow> None
               | Some (out, tbl) \<Rightarrow>
                   Some (case out of None \<Rightarrow> [] | Some p \<Rightarrow> [p],
                         st2\<lparr>sessions := (sessions st2)[i := s2\<lparr>g_reassembly_table := tbl\<rparr>]\<rparr>))))))))"

definition handle_inbound_udp ::
  "sodium \<Rightarrow> call_env \<Rightarrow> bytes \<Rightarrow> bytes \<Rightarrow> sockaddr_in \<Rightarrow> bytes \<Rightarrow> server \<Rightarrow>
   (datagram list \<times> bytes list \<times> server) option" where
  "handle_inbound_udp so env stk buf src server_sk st =
     (if length buf < sizeof_proto_header then Some ([], [], st)
      else if length buf > BUFFER_SIZE then Some ([], [], st)
      else
     (let ph = proto_header_of buf
      in if magic ph \<noteq> PKT_MAGIC \<or> version ph \<noteq> PKT_VERSION then Some ([], [], st)
         else
     (let (rc, rl) = (if ptype ph = PKT_TYPE_DATA
                      then check_packet_rate_limit (env_now env) (sin_addr src) (limiter st)
                      else (RATE_LIMIT_OK, limiter st));
          st1 = st\<lparr>limiter := rl\<rparr>
      in if rc = RATE_LIMIT_BLACKLISTED \<or> rc = RATE_LIMIT_EXCEEDED
         then Some ([], [], st1\<lparr>stats := metrics_record_rate_limit_drop (metrics_record_packet_dropped (stats st1))\<rparr>)
         else if ptype ph = PKT_TYPE_HANDSHAKE
         then (if length buf = sizeof_proto_header + (PUBKEY_LEN + 8) + (4 + 4 + 1 + 1)
               then map_option (\<lambda>(rc, ds, st'). (ds, [], st'))
                      (if session_by_addr src (sessions st1) \<noteq> None
                       then handle_rehandshake_msg1 so env buf src server_sk st1
                       else handle_msg1 so env buf src server_sk st1)
               else Some ([], [], st1))
         else
           (let st2 = st1\<lparr>stats := metrics_record_packet_received (length buf) (stats st1)\<rparr>
            in if length buf < sizeof_proto_header + SESSION_ID_LEN \<and> (\<exists>s\<in>set (sessions st2). active s)
               then None
               else
                 (case session_by_id (packet_sid buf) (sessions st2) of
                    None \<Rightarrow> Some ([], [], st2)
                  | Some i \<Rightarrow>
                      map_option (\<lambda>(out, st'). ([], out, st'))
                        (inbound_session so (env_now env) stk buf i st2))))))"

section \<open>Outbound\<close>

text \<open>
  \<open>mem\<close> are the outcomes of the two allocations, of the packet and of its queue node.
\<close>

definition send_outbound_packet ::
  "aead_fn \<Rightarrow> bool \<times> bool \<Rightarrow> bytes \<Rightarrow> nat \<Rightarrow> bytes \<Rightarrow> session \<Rightarrow> metrics \<Rightarrow>
   (datagram list \<times> session \<times> metrics) option" where
  "send_outbound_packet enc mem buf2 real_data_len ip_buf s m =
     (let sq = send_seq s;
          s1 = s\<lparr>send_seq := sq + 1\<rparr>;
          (b, encrypt_len) =
            (if argv_CBR s1 = char_Y \<and> real_data_len < size_t_of_int (argv_FRAG s1)
             then (packet_padding buf2 real_data_len (argv_FRAG s1), size_t_of_int (argv_FRAG s1))
             else (buf2, real_data_len))
      in if encrypt_len > length b then None
         else
      (case aead_encrypt enc (k_send s1) (session_id s1) sq (take encrypt_len b) of
         None \<Rightarrow> Some ([], s1, m)
       | Some out \<Rightarrow>
           if length out > BUFFER_SIZE then None
           else if \<not> fst mem then Some ([], s1, m)
           else
             let p = data_packet (session_id s1) sq out
             in if argv_CBR s1 = char_Y
                then (let (dropped, q) = push_outq (snd mem) p sq ip_buf (outq s1)
                      in Some ([], s1\<lparr>outq := q\<rparr>, if dropped then metrics_record_queue_drop m else m))
                else Some ([(client_addr s1, p)], s1, m)))"

text \<open>
  The fragmentation loop. \<open>mem\<close> gives the outcomes of the allocations in the round at each
  offset. The loop runs forever when the chunk length is 0, so not returning is \<open>None\<close> too.
\<close>

partial_function (option) outbound_loop ::
  "aead_fn \<Rightarrow> (nat \<Rightarrow> bool \<times> bool) \<Rightarrow> bytes \<Rightarrow> u16 \<Rightarrow> bytes \<Rightarrow> nat \<Rightarrow> session \<Rightarrow> metrics \<Rightarrow>
   (datagram list \<times> session \<times> metrics) option" where
  "outbound_loop enc mem stk current_id buf off s m =
     (if off < length buf then
        if size_t_of_int (argv_FRAG s) > MAX_FRAG then None
        else
          (let (buf2, real_data_len) =
             make_fragment (argv_FRAG s) (argv_PAD s = char_Y) current_id (replicate SESSION_ID_LEN 0) stk buf off
           in Option.bind (send_outbound_packet enc (mem off) buf2 real_data_len buf s m)
                (\<lambda>r. Option.bind (outbound_loop enc mem stk current_id buf
                                    (off + chunk_len (argv_FRAG s) (length buf) off) (fst (snd r)) (snd (snd r)))
                       (\<lambda>r2. Some (fst r @ fst r2, snd r2))))
      else Some ([], s, m))"

definition handle_outbound_tun_buf ::
  "aead_fn \<Rightarrow> (nat \<Rightarrow> bool \<times> bool) \<Rightarrow> bytes \<Rightarrow> bytes \<Rightarrow> server \<Rightarrow> (datagram list \<times> server) option" where
  "handle_outbound_tun_buf enc mem stk buf st =
     (if length buf < 20 then Some ([], st)
      else
        (case session_by_vpnip (slice buf 16 4) (sessions st) of
           None \<Rightarrow> Some ([], st)
         | Some i \<Rightarrow>
             let (current_id, nid) = fragment_next_packet_id (next_packet_id st)
             in (case outbound_loop enc mem stk current_id buf 0 (sessions st ! i) (stats st) of
                   None \<Rightarrow> None
                 | Some (ds, s, m) \<Rightarrow>
                     Some (ds, st\<lparr>sessions := (sessions st)[i := s], stats := m, next_packet_id := nid\<rparr>))))"

text \<open>
  The event thread on one packet read from the TUN device: the shard key and the job it
  submits, \<open>None\<close> when it drops the packet.
\<close>

definition handle_outbound_tun :: "bytes \<Rightarrow> server \<Rightarrow> (byte \<times> job) option" where
  "handle_outbound_tun tmp st =
     (if length tmp < 20 then None
      else if session_by_vpnip (slice tmp 16 4) (sessions st) = None then None
      else Some (tmp ! 19, JOB_TYPE_OUTBOUND_CRYPTO tmp))"

section \<open>Maintenance\<close>

definition keepalive_plain :: bytes where
  "keepalive_plain =
     tunnel_header_bytes \<lparr>packet_id = 0, fragment_offset = 0, total_ip_len = 0, flags = PKT_CTRL_KEEPALIVE,
       th_session_id = replicate SESSION_ID_LEN 0\<rparr>"

definition send_keepalive_to_client :: "aead_fn \<Rightarrow> bool \<Rightarrow> session \<Rightarrow> (datagram list \<times> session) option" where
  "send_keepalive_to_client enc mem s =
     (let sq = send_seq s; s1 = s\<lparr>send_seq := sq + 1\<rparr>
      in case aead_encrypt enc (k_send s1) (session_id s1) sq keepalive_plain of
           None \<Rightarrow> Some ([], s1)
         | Some out \<Rightarrow>
             if length out > BUFFER_SIZE then None
             else if \<not> mem then Some ([], s1)
             else Some ([(client_addr s1, data_packet (session_id s1) sq out)], s1))"

definition keepalive_step :: "aead_fn \<Rightarrow> bool \<Rightarrow> time_t \<Rightarrow> session \<Rightarrow> (datagram list \<times> session) option" where
  "keepalive_step enc mem now s =
     (if \<not> active s then Some ([], s)
      else if now - last_activity_keepalive s \<ge> KEEPALIVE_INTERVAL_SEC
      then (case send_keepalive_to_client enc mem s of
              None \<Rightarrow> None
            | Some (ds, s1) \<Rightarrow> Some (ds, s1\<lparr>last_activity_keepalive := now, last_activity := now\<rparr>))
      else Some ([], s))"

fun keepalive_all :: "aead_fn \<Rightarrow> bool \<Rightarrow> time_t \<Rightarrow> session list \<Rightarrow> (datagram list \<times> session list) option" where
  "keepalive_all enc mem now [] = Some ([], [])"
| "keepalive_all enc mem now (s # tbl) =
     (case keepalive_step enc mem now s of
        None \<Rightarrow> None
      | Some (ds1, s1) \<Rightarrow>
          (case keepalive_all enc mem now tbl of
             None \<Rightarrow> None
           | Some (ds2, tbl2) \<Rightarrow> Some (ds1 @ ds2, s1 # tbl2)))"

definition perform_maintenance ::
  "aead_fn \<Rightarrow> bytes \<Rightarrow> bool \<Rightarrow> time_t \<Rightarrow> server \<Rightarrow> (datagram list \<times> server) option" where
  "perform_maintenance enc stk mem now st =
     (case cleanup_expired_sessions enc stk now (sessions st) (stats st) of
        None \<Rightarrow> None
      | Some (n, ds1, tbl1, m) \<Rightarrow>
          (case keepalive_all enc mem now (sweep_all_tables now tbl1) of
             None \<Rightarrow> None
           | Some (ds2, tbl2) \<Rightarrow> Some (ds1 @ ds2, st\<lparr>sessions := tbl2, stats := m\<rparr>)))"

section \<open>Jobs\<close>

text \<open>The part of \<open>worker_thread\<close> that runs the job it took (\<open>do_inbound_crypto\<close>, \<open>do_outbound_crypto\<close>).\<close>

definition run_job ::
  "sodium \<Rightarrow> call_env \<Rightarrow> (nat \<Rightarrow> bool \<times> bool) \<Rightarrow> bytes \<Rightarrow> bytes \<Rightarrow> job \<Rightarrow> server \<Rightarrow>
   (datagram list \<times> bytes list \<times> server) option" where
  "run_job so env mem stk server_sk jb st =
     (case jb of
        JOB_TYPE_INBOUND_CRYPTO buf ip port \<Rightarrow>
          handle_inbound_udp so env stk buf \<lparr>sin_family = 2, sin_port = port, sin_addr = ip\<rparr> server_sk st
      | JOB_TYPE_OUTBOUND_CRYPTO buf \<Rightarrow>
          map_option (\<lambda>(ds, st'). (ds, [], st')) (handle_outbound_tun_buf (aead_enc so) mem stk buf st)
      | JOB_TYPE_SHUTDOWN \<Rightarrow> Some ([], [], st))"

section \<open>Inbound packets stay within bounds\<close>

text \<open>
  What a well-behaved peer sends: plaintexts that hold a tunnel header and announce at most
  \<open>MAX_PACKET_SIZE\<close> bytes.
\<close>

definition honest_peer :: "sodium \<Rightarrow> session \<Rightarrow> bytes \<Rightarrow> bool" where
  "honest_peer so s buf \<longleftrightarrow>
     (\<forall>pl. aead_decrypt (aead_dec so) (k_recv s) (session_id s) (packet_seq buf) (drop DATA_HEADER_LEN buf) = Some pl \<longrightarrow>
        sizeof_tunnel_header \<le> length pl \<and> unat (total_ip_len (tunnel_header_of pl)) \<le> MAX_PACKET_SIZE)"

lemma aead_decrypt_len:
  "sodium_lens so \<Longrightarrow> aead_decrypt (aead_dec so) k sid q c = Some pl \<Longrightarrow> length c = length pl + 16"
  by (auto simp: sodium_lens_def aead_decrypt_def Let_def config_defs)

lemma tunnel_header_of_append:
  assumes "24 \<le> length a"
  shows "tunnel_header_of (a @ b) = tunnel_header_of a"
  using assms by (auto simp: tunnel_header_of_def of_le16_def slice_def config_defs nth_append)

lemma inbound_session_accept:
  assumes buf: "30 \<le> length buf" "length buf \<le> 1600" and stk: "length stk = 1600"
    and fresh: "\<not> check_replay (packet_seq buf) (rw (sessions st ! i))"
    and dec: "aead_decrypt (aead_dec so) (k_recv (sessions st ! i)) (session_id (sessions st ! i))
        (packet_seq buf) (drop 30 buf) = Some pl"
    and w: "update_window (packet_seq buf) (rw (sessions st ! i)) = Some w"
    and len: "length pl + 16 = length buf - 30" "24 \<le> length pl" and i: "i < length (sessions st)"
  shows "inbound_session so now stk buf i st =
    (let s2 = (sessions st ! i)\<lparr>last_activity := now, rw := w\<rparr>;
         st2 = st\<lparr>sessions := (sessions st)[i := s2]\<rparr>;
         header = tunnel_header_of pl
     in if flags header = PKT_DUMMY \<or> flags header = PKT_CTRL_KEEPALIVE then Some ([], st2)
        else if flags header = PKT_CTRL_DISCONNECT
        then (let (t, m) = free_session i (sessions st2) (stats st2)
              in Some ([], st2\<lparr>sessions := t, stats := m\<rparr>))
        else
          (case store_fragment now header (length pl - 24) (drop 24 pl) (g_reassembly_table s2) of
             None \<Rightarrow> None
           | Some (out, tbl) \<Rightarrow>
               Some (case out of None \<Rightarrow> [] | Some p \<Rightarrow> [p],
                     st\<lparr>sessions := (sessions st)[i := s2\<lparr>g_reassembly_table := tbl\<rparr>]\<rparr>)))"
proof -
  have sub: "sub64 (length buf) 30 = length buf - 30" "sub64 (length pl) 24 = length pl - 24"
    using buf len by (simp_all add: sub64_small)
  have hdr: "DATA_HEADER_LEN = 30" "sizeof_tunnel_header = 24" "BUFFER_SIZE = 1600" by (simp_all add: config_defs)
  have th: "tunnel_header_of (pl @ drop (length pl) stk) = tunnel_header_of pl"
    using len by (simp add: tunnel_header_of_append)
  have st: "store_fragment now h (length pl - 24) (drop 24 pl @ drop (length pl) stk) t =
      store_fragment now h (length pl - 24) (drop 24 pl) t" for h t
    using store_fragment_take [of "length pl - 24" "drop 24 pl @ drop (length pl) stk"] len by simp
  have small: "\<not> 1570 < length buf - 30" "\<not> 1600 < length pl" "\<not> length buf < 30" "24 - length pl = 0"
    using buf len by auto
  have swap: "x\<lparr>rw := w, last_activity := now\<rparr> = x\<lparr>last_activity := now, rw := w\<rparr>" for x :: session by simp
  let ?s2 = "(sessions st ! i)\<lparr>last_activity := now, rw := w\<rparr>"
  obtain t m where f: "free_session i ((sessions st)[i := ?s2]) (stats st) = (t, m)"
    by (cases "free_session i ((sessions st)[i := ?s2]) (stats st)")
  show ?thesis
    unfolding inbound_session_def Let_def hdr sub(1)
    using fresh dec w i small
    by (simp add: sub th st f swap config_defs split: option.split prod.split)
qed

text \<open>The outcomes of \<open>inbound_session\<close>, without the error branches.\<close>

lemma inbound_session_cases:
  fixes now :: time_t
  assumes ok: "slot_ok i (sessions st ! i)" "active (sessions st ! i)" "i < length (sessions st)"
    and so: "sodium_lens so" and buf: "30 \<le> length buf" "length buf \<le> 1600" and stk: "length stk = 1600"
    and hon: "honest_peer so (sessions st ! i) buf"
  defines "s \<equiv> (sessions st ! i)\<lparr>last_activity := now\<rparr>"
  obtains (dropped) m where "inbound_session so now stk buf i st =
      Some ([], st\<lparr>sessions := (sessions st)[i := s], stats := m\<rparr>)"
  | (control) w where "window_ok w" "inbound_session so now stk buf i st =
      Some ([], st\<lparr>sessions := (sessions st)[i := s\<lparr>rw := w\<rparr>]\<rparr>)"
  | (freed) w t m where "window_ok w"
      "free_session i ((sessions st)[i := s\<lparr>rw := w\<rparr>]) (stats st) = (t, m)"
      "inbound_session so now stk buf i st = Some ([], st\<lparr>sessions := t, stats := m\<rparr>)"
  | (stored) w out tbl where "window_ok w" "wf_table tbl" "bounded_table tbl"
      "\<not> check_replay (packet_seq buf) (rw (sessions st ! i))"
      "update_window (packet_seq buf) (rw (sessions st ! i)) = Some w"
      "\<forall>p. out = Some p \<longrightarrow> length p \<le> MAX_PACKET_SIZE"
      "inbound_session so now stk buf i st =
        Some (case out of None \<Rightarrow> [] | Some p \<Rightarrow> [p],
              st\<lparr>sessions := (sessions st)[i := s\<lparr>rw := w, g_reassembly_table := tbl\<rparr>]\<rparr>)"
proof -
  have sub: "sub64 (length buf) 30 = length buf - 30" using buf by (simp add: sub64_small)
  have hdr: "DATA_HEADER_LEN = 30" by (simp add: config_defs)
  have cl: "take (length buf - 30) (drop 30 buf) = drop 30 buf" by simp
  let ?q = "packet_seq buf" and ?dec = "aead_decrypt (aead_dec so) (k_recv (sessions st ! i))
      (session_id (sessions st ! i)) (packet_seq buf) (drop 30 buf)"
  show ?thesis
  proof (cases "check_replay ?q (rw (sessions st ! i))")
    case True
    then show ?thesis
      using dropped [of "metrics_record_validation_error (stats st)"] buf
      by (simp add: inbound_session_def s_def hdr Let_def)
  next
    case fresh: False
    show ?thesis
    proof (cases ?dec)
      case None
      have "st\<lparr>sessions := (sessions st)[i := s]\<rparr> = st\<lparr>sessions := (sessions st)[i := s], stats := stats st\<rparr>" by simp
      then show ?thesis
        using dropped [of "stats st"] fresh None buf
        by (simp add: inbound_session_def s_def hdr sub cl Let_def config_defs)
    next
      case (Some pl)
      have len: "length pl + 16 = length buf - 30" using aead_decrypt_len [OF so Some] by simp
      obtain S where S: "window_rel (rw (sessions st ! i)) S"
        using ok(1) by (auto simp: slot_ok_def session_shape_def window_ok_def)
      obtain w where w: "update_window ?q (rw (sessions st ! i)) = Some w" "window_ok w"
        using server_window.update_step [OF S fresh] by (auto simp: window_ok_def)
      have pl: "24 \<le> length pl" "unat (total_ip_len (tunnel_header_of pl)) \<le> MAX_PACKET_SIZE"
        using hon Some by (simp_all add: honest_peer_def hdr config_defs)
      note eq = inbound_session_accept [OF buf stk fresh Some w(1) len pl(1) ok(3), of now]
      let ?h = "tunnel_header_of pl"
      consider "flags ?h = PKT_DUMMY \<or> flags ?h = PKT_CTRL_KEEPALIVE"
        | "\<not> (flags ?h = PKT_DUMMY \<or> flags ?h = PKT_CTRL_KEEPALIVE)" "flags ?h = PKT_CTRL_DISCONNECT"
        | "\<not> (flags ?h = PKT_DUMMY \<or> flags ?h = PKT_CTRL_KEEPALIVE)" "flags ?h \<noteq> PKT_CTRL_DISCONNECT"
        by blast
      then show ?thesis
      proof cases
        case 1
        then show ?thesis using control [OF w(2)] by (simp add: eq s_def Let_def)
      next
        case 2
        then show ?thesis
          using freed [OF w(2)] by (cases "free_session i ((sessions st)[i := s\<lparr>rw := w\<rparr>]) (stats st)")
            (simp add: eq s_def Let_def)
      next
        case 3
        have tl: "length (drop 24 pl) \<le> BUFFER_SIZE" using len buf by (simp add: BUFFER_SIZE_def)
        obtain out tbl where "store_fragment now ?h (length (drop 24 pl)) (drop 24 pl)
            (g_reassembly_table (sessions st ! i)) = Some (out, tbl)" "wf_table tbl" "bounded_table tbl"
          "\<forall>p. out = Some p \<longrightarrow> length p \<le> MAX_PACKET_SIZE"
          using store_fragment_step [OF slot_table [OF ok(1)] tl pl(2), of now] by blast
        then show ?thesis using stored [OF w(2) _ _ fresh w(1)] 3 by (simp add: eq s_def Let_def)
      qed
    qed
  qed
qed

lemma server_ok_update:
  assumes "server_ok st" "slot_ok i s" "active s \<Longrightarrow> cbr_queue s"
  shows "server_ok (st\<lparr>sessions := (sessions st)[i := s]\<rparr>)"
    "server_ok (st\<lparr>sessions := (sessions st)[i := s], stats := m\<rparr>)"
  using assms by (auto simp: server_ok_def intro: sessions_ok_update queues_ok_update)

lemma server_ok_simps [simp]:
  "server_ok (st\<lparr>limiter := rl\<rparr>) = server_ok st" "server_ok (st\<lparr>stats := m\<rparr>) = server_ok st"
  "server_ok (st\<lparr>next_packet_id := n\<rparr>) = server_ok st"
  by (simp_all add: server_ok_def)

lemma cbr_queue_more [simp]:
  "cbr_queue (s\<lparr>rw := w\<rparr>) = cbr_queue s" "cbr_queue (s\<lparr>g_reassembly_table := t\<rparr>) = cbr_queue s"
  by (simp_all add: cbr_queue_def queued_def cbr_wire_def)

lemma inbound_session_ok:
  assumes st: "server_ok st" and i: "i < length (sessions st)" "active (sessions st ! i)"
    and so: "sodium_lens so" and buf: "30 \<le> length buf" "length buf \<le> 1600" and stk: "length stk = 1600"
    and hon: "honest_peer so (sessions st ! i) buf"
  obtains out st' where "inbound_session so now stk buf i st = Some (out, st')" "server_ok st'"
    "\<forall>p\<in>set out. length p \<le> MAX_PACKET_SIZE"
proof -
  have ok: "sessions_ok (sessions st)" "queues_ok (sessions st)" using st by (simp_all add: server_ok_def)
  note slot = sessions_okD [OF ok(1) i(1)]
  have q: "cbr_queue (sessions st ! i)" by (rule queues_nth [OF ok(2) i])
  show ?thesis
  proof (rule inbound_session_cases [OF slot i(2,1) so buf stk hon, where now = now])
    fix m assume "inbound_session so now stk buf i st =
      Some ([], st\<lparr>sessions := (sessions st)[i := (sessions st ! i)\<lparr>last_activity := now\<rparr>], stats := m\<rparr>)"
    then show ?thesis by (rule that) (use server_ok_update [OF st] slot q in auto)
  next
    fix w assume "window_ok w" "inbound_session so now stk buf i st =
      Some ([], st\<lparr>sessions := (sessions st)[i := (sessions st ! i)\<lparr>last_activity := now, rw := w\<rparr>]\<rparr>)"
    then show ?thesis using that server_ok_update [OF st] slot q by (simp add: slot_ok_rw)
  next
    fix w t m assume w: "window_ok w" and f: "free_session i ((sessions st)
        [i := (sessions st ! i)\<lparr>last_activity := now, rw := w\<rparr>]) (stats st) = (t, m)"
      and r: "inbound_session so now stk buf i st = Some ([], st\<lparr>sessions := t, stats := m\<rparr>)"
    let ?s = "(sessions st ! i)\<lparr>last_activity := now, rw := w\<rparr>"
    have "slot_ok i ?s" using slot w by (simp add: slot_ok_rw)
    then have "slot_ok i (wipe_session (?s\<lparr>outq := None\<rparr>))" by (intro wipe_slot_ok) simp
    moreover have "t = (sessions st)[i := wipe_session (?s\<lparr>outq := None\<rparr>)]"
      using f i by (simp add: free_session_def)
    moreover have "\<not> active (wipe_session x)" for x by (simp add: wipe_session_def)
    ultimately show ?thesis using that [OF r] server_ok_update(2) [OF st] by auto
  next
    fix w out tbl assume "window_ok w" "wf_table tbl" "bounded_table tbl"
      and p: "\<forall>p. out = Some p \<longrightarrow> length p \<le> MAX_PACKET_SIZE"
      and r: "inbound_session so now stk buf i st =
        Some (case out of None \<Rightarrow> [] | Some p \<Rightarrow> [p], st\<lparr>sessions := (sessions st)
          [i := (sessions st ! i)\<lparr>last_activity := now, rw := w, g_reassembly_table := tbl\<rparr>]\<rparr>)"
    then have "slot_ok i ((sessions st ! i)\<lparr>last_activity := now, rw := w, g_reassembly_table := tbl\<rparr>)"
      using slot by (simp add: slot_ok_rw slot_ok_reassembly)
    then show ?thesis using that [OF r] server_ok_update [OF st] q p by (auto split: option.splits)
  qed
qed

text \<open>A datagram that is long enough for a data packet: dropped, a handshake, or for a session.\<close>

lemma inbound_udp_cases:
  assumes len: "30 \<le> length buf"
  obtains (ignored) rl m where "handle_inbound_udp so env stk buf src server_sk st =
      Some ([], [], st\<lparr>limiter := rl, stats := m\<rparr>)"
  | (handshake) r where "ptype (proto_header_of buf) = PKT_TYPE_HANDSHAKE"
      "r = handle_rehandshake_msg1 so env buf src server_sk st \<or> r = handle_msg1 so env buf src server_sk st"
      "handle_inbound_udp so env stk buf src server_sk st = map_option (\<lambda>(rc, ds, st'). (ds, [], st')) r"
  | (data) i rl m where "ptype (proto_header_of buf) \<noteq> PKT_TYPE_HANDSHAKE" "length buf \<le> 1600"
      "session_by_id (packet_sid buf) (sessions st) = Some i"
      "handle_inbound_udp so env stk buf src server_sk st = map_option (\<lambda>(out, st'). ([], out, st'))
         (inbound_session so (env_now env) stk buf i (st\<lparr>limiter := rl, stats := m\<rparr>))"
proof -
  let ?ph = "proto_header_of buf"
  have lens: "\<not> length buf < sizeof_proto_header" "\<not> length buf < sizeof_proto_header + SESSION_ID_LEN"
    using len by (simp_all add: config_defs)
  have same: "st = st\<lparr>limiter := limiter st, stats := stats st\<rparr>" "st\<lparr>limiter := limiter st\<rparr> = st"
    "st\<lparr>limiter := rl\<rparr> = st\<lparr>limiter := rl, stats := stats st\<rparr>" for rl by simp_all
  obtain rc rl where rc: "(if ptype ?ph = PKT_TYPE_DATA
        then check_packet_rate_limit (env_now env) (sin_addr src) (limiter st)
        else (RATE_LIMIT_OK, limiter st)) = (rc, rl)" by fastforce
  note eq = handle_inbound_udp_def [of so env stk buf src server_sk st, unfolded rc Let_def prod.case]
  consider "length buf > BUFFER_SIZE \<or> magic ?ph \<noteq> PKT_MAGIC \<or> version ?ph \<noteq> PKT_VERSION"
    | "length buf \<le> BUFFER_SIZE" "magic ?ph = PKT_MAGIC" "version ?ph = PKT_VERSION"
      "rc = RATE_LIMIT_BLACKLISTED \<or> rc = RATE_LIMIT_EXCEEDED"
    | "length buf \<le> BUFFER_SIZE" "magic ?ph = PKT_MAGIC" "version ?ph = PKT_VERSION"
      "\<not> (rc = RATE_LIMIT_BLACKLISTED \<or> rc = RATE_LIMIT_EXCEEDED)" by linarith
  then show ?thesis
  proof cases
    case 1
    then show ?thesis using ignored [where rl = "limiter st" and m = "stats st"] lens by (auto simp: eq)
  next
    case 2
    then show ?thesis using ignored lens by (auto simp: eq)
  next
    case ok: 3
    show ?thesis
    proof (cases "ptype ?ph = PKT_TYPE_HANDSHAKE")
      case True
      then have rl: "rl = limiter st" using rc by (simp add: config_defs)
      let ?big = "length buf = sizeof_proto_header + (PUBKEY_LEN + 8) + (4 + 4 + 1 + 1)"
      have h: "handle_inbound_udp so env stk buf src server_sk st =
          (if ?big then map_option (\<lambda>(rc, ds, st'). (ds, [], st'))
             (if session_by_addr src (sessions st) \<noteq> None then handle_rehandshake_msg1 so env buf src server_sk st
              else handle_msg1 so env buf src server_sk st) else Some ([], [], st))"
        using ok True lens by (simp add: eq rl same(2))
      show ?thesis
      proof (cases ?big)
        case False
        with h show ?thesis using ignored [where rl = "limiter st" and m = "stats st"] by simp
      next
        case big: True
        show ?thesis by (rule handshake [OF True _ h [unfolded if_P [OF big]]]) simp
      qed
    next
      case False
      show ?thesis
      proof (cases "session_by_id (packet_sid buf) (sessions st)")
        case None
        then show ?thesis using ok False lens ignored by (simp add: eq)
      next
        case (Some i)
        then show ?thesis using ok False lens data [OF False _ Some] by (simp add: eq BUFFER_SIZE_def)
      qed
    qed
  qed
qed

lemma inbound_udp_ok:
  assumes st: "server_ok st" and so: "sodium_lens so" and stk: "length stk = 1600" and len: "30 \<le> length buf"
    and hon: "\<And>i. session_by_id (packet_sid buf) (sessions st) = Some i \<Longrightarrow> honest_peer so (sessions st ! i) buf"
  shows "\<exists>ds out st'. handle_inbound_udp so env stk buf src server_sk st = Some (ds, out, st') \<and> server_ok st' \<and>
    (\<forall>p\<in>set out. length p \<le> MAX_PACKET_SIZE)"
  using len
proof (cases rule: inbound_udp_cases [where so = so and env = env and stk = stk and src = src and
      server_sk = server_sk and st = st])
  case (ignored rl m)
  then show ?thesis using st by simp
next
  case (handshake r)
  have "\<exists>rc ds st'. r = Some (rc, ds, st') \<and> server_ok st'"
    using handshake(2) handle_msg1_ok [OF st so] rehandshake_ok [OF st so] by metis
  then show ?thesis using handshake(3) by auto
next
  case (data i rl m)
  note i = session_by_id_Some [OF data(3)]
  let ?st = "st\<lparr>limiter := rl, stats := m\<rparr>"
  obtain out st' where "inbound_session so (env_now env) stk buf i ?st = Some (out, st')" "server_ok st'"
      "\<forall>p\<in>set out. length p \<le> MAX_PACKET_SIZE"
    by (rule inbound_session_ok [of ?st i so buf stk "env_now env"])
      (use st so i data(2) stk len hon [OF data(3)] in auto)
  then show ?thesis using data(4) by simp
qed

text \<open>
  C9. An inbound datagram is handled within its buffers. In a well-formed state of the server,
  a datagram with a full data header from anyone but a malicious key holder makes
  \<open>handle_inbound_udp\<close> return (no read or write outside a buffer), keeps the invariant of the
  server (session table, queues, schedulers), and writes to the TUN device only packets of at
  most \<open>MAX_PACKET_SIZE\<close> bytes.
\<close>

theorem inbound_safe:
  assumes "server_ok st" "sodium_lens so" "length stk = BUFFER_SIZE" "DATA_HEADER_LEN \<le> length buf"
    and "\<And>i. session_by_id (packet_sid buf) (sessions st) = Some i \<Longrightarrow> honest_peer so (sessions st ! i) buf"
  shows "\<exists>ds out st'. handle_inbound_udp so env stk buf src server_sk st = Some (ds, out, st') \<and> server_ok st' \<and>
    (\<forall>p\<in>set out. length p \<le> MAX_PACKET_SIZE)"
  using inbound_udp_ok [of st so stk buf] assms by (simp add: config_defs)

text \<open>A one-fragment packet of 20 bytes for the session of \<open>sample_table\<close>.\<close>

definition sample_plain :: bytes where
  "sample_plain = tunnel_header_bytes \<lparr>packet_id = 9, fragment_offset = 0, total_ip_len = 20, flags = 0,
     th_session_id = replicate SESSION_ID_LEN 0\<rparr> @ replicate 20 69"

definition sample_data :: "u64 \<Rightarrow> bytes" where
  "sample_data q = data_packet (replicate 16 7) q (sample_plain @ replicate 16 0)"

lemma sample_plain_fields [simp]:
  "length sample_plain = 44" "flags (tunnel_header_of sample_plain) = 0"
  "total_ip_len (tunnel_header_of sample_plain) = 20"
  by (simp_all add: sample_plain_def config_defs)

lemma sample_data_fields [simp]:
  "length (sample_data q) = 90" "packet_sid (sample_data q) = replicate 16 7" "packet_seq (sample_data q) = q"
  "proto_header_of (sample_data q) = data_header" "drop 30 (sample_data q) = sample_plain @ replicate 16 0"
  using data_packet_fields(4) [of "replicate 16 7" q "sample_plain @ replicate 16 0"]
  by (simp_all add: sample_data_def config_defs)

lemma sample_decrypts:
  "aead_decrypt sample_aead_dec k sid q (sample_plain @ replicate 16 0) = Some sample_plain"
  by (simp add: aead_decrypt_def sample_aead_dec_def Let_def config_defs)

lemma sample_table_length: "length sample_table = 250"
  by (simp add: sample_table_def sessions_init_def MAX_CLIENTS_def)

lemma sample_by_id: "session_by_id (replicate 16 7) sample_table = Some 3"
  by (auto simp: session_by_id_def find_index_Some_iff sample_table_def sessions_init_def zero_session_def
      MAX_CLIENTS_def nth_list_update)

lemma sample_sessions [simp]: "sessions sample_server = sample_table" "aead_dec sample_sodium = sample_aead_dec"
  "aead_enc sample_sodium = sample_aead" "env_now sample_env = 1010"
  by (simp_all add: sample_server_def sample_sodium_def sample_env_def)

lemma sample_honest: "honest_peer sample_sodium sample_session (sample_data q)"
  by (simp add: honest_peer_def sample_decrypts config_defs)

theorem inbound_safe_witness:
  "\<exists>ds out st'. handle_inbound_udp sample_sodium sample_env (replicate 1600 0) (sample_data 1) sample_src
     (replicate 32 6) sample_server = Some (ds, out, st') \<and> server_ok st'"
  using inbound_safe [OF sample_server_ok sample_sodium_lens, where stk = "replicate 1600 0" and
      buf = "sample_data 1" and env = sample_env and src = sample_src and server_sk = "replicate 32 6"]
    sample_honest sample_by_id
  by (auto simp: config_defs)

section \<open>Authenticity and replay\<close>

text \<open>The datagram is fresh for the session it names and decrypts to \<open>pl\<close> under its key.\<close>

definition authentic :: "sodium \<Rightarrow> session list \<Rightarrow> bytes \<Rightarrow> nat \<Rightarrow> bytes \<Rightarrow> bool" where
  "authentic so tbl buf i pl \<longleftrightarrow>
     session_by_id (packet_sid buf) tbl = Some i \<and> \<not> check_replay (packet_seq buf) (rw (tbl ! i)) \<and>
     aead_decrypt (aead_dec so) (k_recv (tbl ! i)) (session_id (tbl ! i)) (packet_seq buf)
       (drop DATA_HEADER_LEN buf) = Some pl"

definition touched :: "time_t \<Rightarrow> bytes \<Rightarrow> session list \<Rightarrow> session list" where
  "touched now buf tbl =
     (case session_by_id (packet_sid buf) tbl of
        None \<Rightarrow> tbl
      | Some i \<Rightarrow> tbl[i := (tbl ! i)\<lparr>last_activity := now\<rparr>])"

lemma inbound_session_refused:
  assumes "30 \<le> length buf" "length buf \<le> 1600" and i: "session_by_id (packet_sid buf) (sessions st) = Some i"
    and no: "\<And>pl. \<not> authentic so (sessions st) buf i pl"
  obtains m where "inbound_session so now stk buf i st =
    Some ([], st\<lparr>sessions := touched now buf (sessions st), stats := m\<rparr>)"
proof (cases "check_replay (packet_seq buf) (rw (sessions st ! i))")
  case True
  then show ?thesis using that assms(1) i
    by (simp add: inbound_session_def touched_def Let_def config_defs)
next
  case False
  have same: "st\<lparr>sessions := t\<rparr> = st\<lparr>sessions := t, stats := stats st\<rparr>" for t by simp
  have "aead_decrypt (aead_dec so) (k_recv (sessions st ! i)) (session_id (sessions st ! i)) (packet_seq buf)
      (drop 30 buf) = None"
    using no False i by (auto simp: authentic_def config_defs)
  moreover have "sub64 (length buf) 30 = length buf - 30" using assms by (simp add: sub64_small)
  ultimately show ?thesis using that [of "stats st"] False assms(1,2) i
    by (simp add: inbound_session_def touched_def Let_def config_defs)
qed

lemma inbound_refused:
  assumes "DATA_HEADER_LEN \<le> length buf" "ptype (proto_header_of buf) \<noteq> PKT_TYPE_HANDSHAKE"
    and no: "\<nexists>i pl. authentic so (sessions st) buf i pl"
  shows "\<exists>tbl' rl m. handle_inbound_udp so env stk buf src server_sk st =
      Some ([], [], st\<lparr>sessions := tbl', limiter := rl, stats := m\<rparr>) \<and>
    (tbl' = sessions st \<or> tbl' = touched (env_now env) buf (sessions st))"
proof -
  have len: "30 \<le> length buf" using assms(1) by (simp add: config_defs)
  then show ?thesis
  proof (cases rule: inbound_udp_cases [where so = so and env = env and stk = stk and src = src and
        server_sk = server_sk and st = st])
    case (ignored rl m)
    then have "handle_inbound_udp so env stk buf src server_sk st =
        Some ([], [], st\<lparr>sessions := sessions st, limiter := rl, stats := m\<rparr>)" by simp
    then show ?thesis by blast
  next
    case (data i rl m)
    let ?st = "st\<lparr>limiter := rl, stats := m\<rparr>"
    obtain m' where "inbound_session so (env_now env) stk buf i ?st =
        Some ([], ?st\<lparr>sessions := touched (env_now env) buf (sessions st), stats := m'\<rparr>)"
      using inbound_session_refused [OF len data(2), of ?st i so] data(3) no by auto
    then have "handle_inbound_udp so env stk buf src server_sk st =
        Some ([], [], st\<lparr>sessions := touched (env_now env) buf (sessions st), limiter := rl, stats := m'\<rparr>)"
      using data(4) by simp
    then show ?thesis by blast
  qed (use assms in simp)
qed



text \<open>What a datagram does to the session it names.\<close>

definition accepts :: "u64 \<Rightarrow> session \<Rightarrow> session \<Rightarrow> bool" where
  "accepts q s s' \<longleftrightarrow> \<not> check_replay q (rw s) \<and> update_window q (rw s) = Some (rw s')"

lemma inbound_session_effect:
  assumes r: "inbound_session so now stk buf i st = Some (out, st')" and i: "i < length (sessions st)"
  shows "sessions st' = (sessions st)[i := sessions st' ! i]"
    "active (sessions st' ! i) \<Longrightarrow> session_id (sessions st' ! i) = session_id (sessions st ! i)"
    "rw (sessions st' ! i) = rw (sessions st ! i) \<or> accepts (packet_seq buf) (sessions st ! i) (sessions st' ! i)"
    "out \<noteq> [] \<Longrightarrow> accepts (packet_seq buf) (sessions st ! i) (sessions st' ! i)"
  using r i unfolding inbound_session_def Let_def
  by (auto simp: free_session_def accepts_def wipe_session_def split: if_splits option.splits prod.splits)

definition ids_distinct :: "session list \<Rightarrow> bool" where
  "ids_distinct tbl \<longleftrightarrow>
     (\<forall>i<length tbl. \<forall>j<length tbl. active (tbl ! i) \<and> active (tbl ! j) \<and>
        session_id (tbl ! i) = session_id (tbl ! j) \<longrightarrow> i = j)"

text \<open>Every session named \<open>sid\<close> has accepted the number \<open>q\<close>.\<close>

definition seen :: "u64 \<Rightarrow> bytes \<Rightarrow> session list \<Rightarrow> bool" where
  "seen q sid tbl \<longleftrightarrow>
     (\<forall>s\<in>set tbl. window_ok (rw s) \<and>
        (active s \<and> session_id s = sid \<longrightarrow> (\<exists>S. window_rel (rw s) S \<and> unat q \<in> S)))"

lemma accepts_window:
  assumes "accepts q s s'" "window_rel (rw s) S"
  shows "window_rel (rw s') (insert (unat q) S)"
  using server_window.update_step [OF assms(2), of q] assms(1) by (auto simp: accepts_def)

text \<open>The effect of one datagram on the table, and which datagrams deliver a packet.\<close>

lemma inbound_udp_effect:
  assumes len: "30 \<le> length buf" and data: "ptype (proto_header_of buf) \<noteq> PKT_TYPE_HANDSHAKE"
    and r: "handle_inbound_udp so env stk buf src server_sk st = Some (ds, out, st')"
  obtains (same) "sessions st' = sessions st" "out = []"
  | (session) i s' where "session_by_id (packet_sid buf) (sessions st) = Some i"
      "sessions st' = (sessions st)[i := s']" "active s' \<Longrightarrow> session_id s' = session_id (sessions st ! i)"
      "rw s' = rw (sessions st ! i) \<or> accepts (packet_seq buf) (sessions st ! i) s'"
      "out \<noteq> [] \<Longrightarrow> accepts (packet_seq buf) (sessions st ! i) s'"
  using len
proof (cases rule: inbound_udp_cases [where so = so and env = env and stk = stk and src = src and
      server_sk = server_sk and st = st])
  case (ignored rl m)
  then show ?thesis using r by (intro same) auto
next
  case (data i rl m)
  let ?st = "st\<lparr>limiter := rl, stats := m\<rparr>"
  have s: "inbound_session so (env_now env) stk buf i ?st = Some (out, st')"
    using data(4) r by (cases "inbound_session so (env_now env) stk buf i ?st") auto
  have "i < length (sessions ?st)" using session_by_id_Some [OF data(3)] by simp
  note e = inbound_session_effect [OF s this]
  show ?thesis by (rule session [OF data(3), of "sessions st' ! i"]) (use e in auto)
qed (use assms in simp)

fun inbound_run ::
  "sodium \<Rightarrow> (call_env \<times> bytes \<times> bytes \<times> sockaddr_in) list \<Rightarrow> bytes \<Rightarrow> server \<Rightarrow> (bytes list \<times> server) option" where
  "inbound_run so [] server_sk st = Some ([], st)"
| "inbound_run so ((env, stk, buf, src) # xs) server_sk st =
     (case handle_inbound_udp so env stk buf src server_sk st of
        None \<Rightarrow> None
      | Some (ds, out, st1) \<Rightarrow> map_option (\<lambda>(outs, st2). (out @ outs, st2)) (inbound_run so xs server_sk st1))"

definition data_datagram :: "bytes \<Rightarrow> bool" where
  "data_datagram buf \<longleftrightarrow> DATA_HEADER_LEN \<le> length buf \<and> ptype (proto_header_of buf) \<noteq> PKT_TYPE_HANDSHAKE"

lemma seen_step:
  assumes "seen q sid (sessions st)" "data_datagram buf"
    "handle_inbound_udp so env stk buf src server_sk st = Some (ds, out, st')"
  shows "seen q sid (sessions st')"
proof -
  have "30 \<le> length buf" "ptype (proto_header_of buf) \<noteq> PKT_TYPE_HANDSHAKE"
    using assms(2) by (auto simp: data_datagram_def config_defs)
  from this assms(3) show ?thesis
  proof (cases rule: inbound_udp_effect)
    case same
    then show ?thesis using assms(1) by simp
  next
    case (session i s')
    have i: "sessions st ! i \<in> set (sessions st)" using session_by_id_Some [OF session(1)] by simp
    have "active (sessions st ! i)" using session_by_id_Some [OF session(1)] by simp
    with i session assms(1) have "window_ok (rw s') \<and>
        (active s' \<and> session_id s' = sid \<longrightarrow> (\<exists>S. window_rel (rw s') S \<and> unat q \<in> S))"
      unfolding seen_def window_ok_def by (metis accepts_window insertCI)
    then show ?thesis using assms(1) unfolding seen_def session(2) by (intro set_update_ball) auto
  qed
qed

lemma seen_run:
  assumes "inbound_run so xs server_sk st = Some (outs, st')" "seen q sid (sessions st)"
    "\<forall>(env, stk, buf, src)\<in>set xs. data_datagram buf"
  shows "seen q sid (sessions st')"
  using assms
proof (induction so xs server_sk st arbitrary: outs rule: inbound_run.induct)
  case (2 so env stk buf src xs server_sk st)
  from "2.prems"(1) obtain ds out st1 outs1 where
    *: "handle_inbound_udp so env stk buf src server_sk st = Some (ds, out, st1)"
       "inbound_run so xs server_sk st1 = Some (outs1, st')"
    by (auto split: option.splits)
  show ?case
    by (rule "2.IH" [OF *(1) refl refl *(2)]) (use "2.prems" seen_step [OF "2.prems"(2) _ *(1)] in auto)
qed simp

lemma seen_refused: "seen (packet_seq buf) (packet_sid buf) tbl \<Longrightarrow> \<nexists>i pl. authentic so tbl buf i pl"
  unfolding seen_def authentic_def
  by (metis session_by_id_Some nth_mem server_window.check_exact replay_spec_def)


lemma sample_delivers:
  "\<exists>st1. handle_inbound_udp sample_sodium sample_env (replicate 1600 0) (sample_data 1) sample_src
     (replicate 32 6) sample_server = Some ([], [replicate 20 69], st1)"
proof -
  obtain rl where rl: "check_packet_rate_limit 1010 55 (limiter sample_server) = (RATE_LIMIT_OK, rl)"
    by (simp add: sample_server_def config_defs check_packet_rate_limit_def find_or_create_ip_entry_def
        fresh_entry_def refill_tokens_def Let_def)
  have fresh: "\<not> check_replay 1 replay_window_zero" by (simp add: check_replay_def replay_window_zero_def)
  obtain w where w: "update_window 1 replay_window_zero = Some w"
    using server_window.update_step [OF server_window.rel_start fresh] by blast
  have "find_index (\<lambda>e. is_active e \<and> re_packet_id e = 9) reassembly_init = None"
    "find_index (\<lambda>e. \<not> is_active e) reassembly_init = Some 0"
    by (auto simp: reassembly_init_def zero_entry_def find_index_None_iff find_index_Some_iff config_defs)
  moreover have "drop 24 sample_plain = replicate 20 69" "packet_id (tunnel_header_of sample_plain) = 9"
    "fragment_offset (tunnel_header_of sample_plain) = 0"
    by (simp_all add: sample_plain_def config_defs)
  ultimately have "\<exists>tbl. store_fragment 1010 (tunnel_header_of sample_plain) 20 (drop 24 sample_plain) reassembly_init =
      Some (Some (replicate 20 69), tbl)"
    by (simp add: store_fragment_def find_or_create_entry_def Let_def add64_def zero_entry_def reassembly_init_def
        config_defs)
  then show ?thesis
    using inbound_session_accept [where so = sample_sodium and buf = "sample_data 1" and i = 3 and pl = sample_plain
        and w = w and stk = "replicate 1600 0" and now = 1010 and st = "sample_server\<lparr>limiter := rl, stats := m\<rparr>" for m]
      fresh w sample_decrypts sample_table_length
    by (auto simp: handle_inbound_udp_def rl sample_by_id Let_def config_defs data_header_def sample_src_def)
qed

lemma sample_active: "i < 250 \<Longrightarrow> active (sample_table ! i) \<longleftrightarrow> i = 3"
  by (simp add: sample_table_def sessions_init_def zero_session_def nth_list_update MAX_CLIENTS_def)

lemma sample_ids_distinct: "ids_distinct sample_table"
  by (simp add: ids_distinct_def sample_table_length sample_active)


end
