(* ===== verification/Outbound_Path.thy ===== *)
theory Outbound_Path
  imports Packet_Processor
begin

text \<open>
  Properties of the outbound half of \<open>chamlon_server/src/packet_processor.c\<close>: the fragmentation
  loop of \<open>handle_outbound_tun_buf\<close> returns and stays within its buffers, a constant-rate session
  only ever queues packets of its constant size, and a session without constant rate sends the
  encrypted fragments of the packet under consecutive sequence numbers. The second part is about
  \<open>perform_maintenance\<close>.
\<close>

section \<open>One fragment\<close>

lemma frag_ok_params: "params_ok s \<Longrightarrow> frag_ok (argv_FRAG s)"
  by (simp add: params_ok_def frag_ok_def)

text \<open>What a session hands to the encryption: constant-rate sessions pad to the fragment size.\<close>

definition outbound_plain :: "session \<Rightarrow> bytes \<Rightarrow> bytes" where
  "outbound_plain s p = (if argv_CBR s = char_Y then p @ replicate (nat (argv_FRAG s) - length p) 0 else p)"

lemma padded_take:
  assumes "frag_ok frag" "length b = MAX_FRAG" "rl < nat frag"
  shows "take (nat frag) (packet_padding b rl frag) = take rl b @ replicate (nat frag - rl) 0"
    "length (packet_padding b rl frag) = MAX_FRAG"
  using assms by (auto simp: packet_padding_def frag_ok_def Let_def memset_at_def memcpy_at_def config_defs)

lemma send_outbound_packet_spec:
  assumes s: "params_ok s" and b: "length b = MAX_FRAG" "rl \<le> nat (argv_FRAG s)" and enc: "aead_len enc"
  shows "send_outbound_packet enc mem b rl ip_buf s m =
    (let s1 = s\<lparr>send_seq := send_seq s + 1\<rparr>
     in case aead_encrypt enc (k_send s) (session_id s) (send_seq s) (outbound_plain s (take rl b)) of
          None \<Rightarrow> Some ([], s1, m)
        | Some out \<Rightarrow>
            if \<not> fst mem then Some ([], s1, m)
            else if argv_CBR s = char_Y
            then (let (dropped, q) = push_outq (snd mem) (data_packet (session_id s) (send_seq s) out) (send_seq s)
                        ip_buf (outq s)
                  in Some ([], s1\<lparr>outq := q\<rparr>, if dropped then metrics_record_queue_drop m else m))
            else Some ([(client_addr s, data_packet (session_id s) (send_seq s) out)], s1, m))"
proof -
  note f = params_frag [OF s] and ok = frag_ok_params [OF s]
  let ?pad = "argv_CBR s = char_Y \<and> rl < nat (argv_FRAG s)"
  define bb where "bb = (if ?pad then packet_padding b rl (argv_FRAG s) else b)"
  define n where "n = (if ?pad then nat (argv_FRAG s) else rl)"
  have bb: "take n bb = outbound_plain s (take rl b)" "n \<le> length bb" "length (take n bb) \<le> 1200"
    using padded_take [OF ok b(1)] b f(3) by (auto simp: bb_def n_def outbound_plain_def config_defs)
  have out: "\<not> BUFFER_SIZE < length c"
    if "aead_encrypt enc (k_send s) (session_id s) (send_seq s) (take n bb) = Some c" for c
    using aead_encrypt_len [OF enc that] bb(3) by (simp add: BUFFER_SIZE_def min_def split: if_splits)
  let ?s1 = "s\<lparr>send_seq := send_seq s + 1\<rparr>"
  have eq: "(if argv_CBR ?s1 = char_Y \<and> rl < size_t_of_int (argv_FRAG ?s1)
      then (packet_padding b rl (argv_FRAG ?s1), size_t_of_int (argv_FRAG ?s1)) else (b, rl)) = (bb, n)"
    by (simp add: bb_def n_def f(1))
  show ?thesis
    using bb(2) out unfolding send_outbound_packet_def Let_def bb(1) [symmetric] eq prod.case
    by (simp split: option.split)
qed

lemma set_tlD: "x \<in> set (tl xs) \<Longrightarrow> x \<in> set xs"
  by (cases xs) auto

text \<open>The queue after a push holds old nodes and at most the new packet.\<close>

lemma push_outq_nodes:
  assumes "push_outq mem p q ip_buf (outq s) = (d, qo)" "x \<in> set (queued (s\<lparr>outq := qo\<rparr>))"
  shows "x \<in> set (queued s) \<or> pkt x = p"
proof (cases "outq s")
  case None
  then show ?thesis using assms by (simp add: push_outq_def queued_def)
next
  case (Some l)
  then show ?thesis
    using assms by (cases mem) (auto simp: push_outq_def queued_def lanes_push_def bounded_snoc_def Let_def
      dest: set_tlD split: if_splits pkt_priority.splits prod.splits)
qed

lemma push_outq_kept: "push_outq mem p n ip_buf q = (d, q') \<Longrightarrow> q \<noteq> None \<longrightarrow> q' \<noteq> None"
  by (auto simp: push_outq_def split: option.splits prod.splits if_splits)

lemma send_outbound_packet_ok:
  assumes s: "params_ok s" "length (session_id s) = 16" "cbr_queue s"
    and b: "length b = MAX_FRAG" "rl \<le> nat (argv_FRAG s)" and enc: "aead_len enc"
  shows "\<exists>ds q m'. send_outbound_packet enc mem b rl ip_buf s m =
      Some (ds, s\<lparr>send_seq := send_seq s + 1, outq := q\<rparr>, m') \<and>
    cbr_queue (s\<lparr>send_seq := send_seq s + 1, outq := q\<rparr>) \<and> (argv_CBR s = char_Y \<longrightarrow> ds = []) \<and> (outq s \<noteq> None \<longrightarrow> q \<noteq> None)"
proof -
  note eq = send_outbound_packet_spec [OF s(1) b enc]
  have same: "s\<lparr>send_seq := n\<rparr> = s\<lparr>send_seq := n, outq := outq s\<rparr>" for n by simp
  show ?thesis
  proof (cases "aead_encrypt enc (k_send s) (session_id s) (send_seq s) (outbound_plain s (take rl b))")
    case None
    then show ?thesis using s(3) by (auto simp: eq Let_def intro!: exI [of _ "outq s"])
  next
    case (Some out)
    let ?p = "data_packet (session_id s) (send_seq s) out"
    obtain d q where q: "push_outq (snd mem) ?p (send_seq s) ip_buf (outq s) = (d, q)" by fastforce
    show ?thesis
    proof (cases "fst mem \<and> argv_CBR s = char_Y")
      case True
      have "length out = nat (argv_FRAG s) + 16"
        using aead_encrypt_len [OF enc Some] True b params_frag(3) [OF s(1)] by (simp add: outbound_plain_def config_defs)
      then have p: "length ?p = cbr_wire s" using s(2) by (simp add: cbr_wire_def config_defs)
      have "length (pkt x) = cbr_wire s" if "x \<in> set (queued (s\<lparr>outq := q\<rparr>))" for x
        using push_outq_nodes [OF q that] p s(3) True by (auto simp: cbr_queue_def)
      moreover have "outq s \<noteq> None \<longrightarrow> q \<noteq> None" by (rule push_outq_kept [OF q])
      ultimately show ?thesis using Some True q
        by (intro exI [of _ "[]"] exI [of _ q]) (simp add: eq Let_def cbr_queue_def cbr_wire_def queued_def)
    next
      case False
      then show ?thesis using s(3) Some by (auto simp: eq Let_def intro!: exI [of _ "outq s"])
    qed
  qed
qed

section \<open>The loop\<close>

lemma make_fragment_len:
  assumes ok: "frag_ok frag" and "off \<le> length buf" "length stk = MAX_FRAG"
    "make_fragment frag pad ident (replicate SESSION_ID_LEN 0) stk buf off = (b, rl)"
  shows "length b = MAX_FRAG" "rl \<le> nat frag"
proof -
  show "length b = MAX_FRAG" using make_fragment_bytes(2) [OF ok _ assms(3,2,4)] by (simp add: config_defs)
  have "chunk_len frag (length buf) off + 24 \<le> nat frag"
    using ok by (auto simp: chunk_len_ok [OF ok] frag_ok_def)
  then show "rl \<le> nat frag"
    using assms(4) by (auto simp: make_fragment_def Let_def config_defs split: if_splits)
qed

definition session_pieces :: "session \<Rightarrow> u16 \<Rightarrow> bytes \<Rightarrow> bytes \<Rightarrow> nat \<Rightarrow> bytes list" where
  "session_pieces s ident stk buf off =
     fragment_list (argv_FRAG s) (argv_PAD s = char_Y) ident (replicate SESSION_ID_LEN 0) stk buf off"

lemma session_pieces_step:
  assumes "params_ok s" "off < length buf"
    "make_fragment (argv_FRAG s) (argv_PAD s = char_Y) ident (replicate SESSION_ID_LEN 0) stk buf off = (b, rl)"
  defines "n \<equiv> chunk_len (argv_FRAG s) (length buf) off"
  shows "session_pieces s ident stk buf off = take rl b # session_pieces s ident stk buf (off + n)"
    "0 < n" "off + n \<le> length buf"
proof -
  have ok: "frag_ok (argv_FRAG s)" by (rule frag_ok_params [OF assms(1)])
  show n: "0 < n" "off + n \<le> length buf" using ok assms(2) by (auto simp: n_def chunk_len_ok [OF ok] frag_ok_def)
  show "session_pieces s ident stk buf off = take rl b # session_pieces s ident stk buf (off + n)"
    using n(1) assms(2,3) unfolding session_pieces_def n_def by (subst fragment_list.simps) simp
qed

lemma session_pieces_end: "session_pieces s ident stk buf (length buf) = []"
  unfolding session_pieces_def by (subst fragment_list.simps) simp

lemma outbound_loop_ok:
  assumes "params_ok s" "length (session_id s) = 16" "cbr_queue s" "aead_len enc" "length stk = MAX_FRAG"
    "off \<le> length buf"
  shows "\<exists>ds q m'. outbound_loop enc mem stk ident buf off s m =
      Some (ds, s\<lparr>send_seq := send_seq s + of_nat (length (session_pieces s ident stk buf off)), outq := q\<rparr>, m') \<and>
    cbr_queue (s\<lparr>send_seq := send_seq s + of_nat (length (session_pieces s ident stk buf off)), outq := q\<rparr>) \<and>
    (argv_CBR s = char_Y \<longrightarrow> ds = []) \<and> (outq s \<noteq> None \<longrightarrow> q \<noteq> None)"
  using assms
proof (induction "length buf - off" arbitrary: off s m rule: less_induct)
  case less
  note s = less.prems(1-3)
  show ?case
  proof (cases "off < length buf")
    case False
    then have off: "off = length buf" using less.prems(6) by simp
    show ?thesis
      using s(3) by (intro exI [of _ "[]"] exI [of _ "outq s"])
        (simp add: off session_pieces_end outbound_loop.simps)
  next
    case True
    obtain b rl where mf: "make_fragment (argv_FRAG s) (argv_PAD s = char_Y) ident (replicate SESSION_ID_LEN 0)
        stk buf off = (b, rl)" by fastforce
    note len = make_fragment_len [OF frag_ok_params [OF s(1)] less.prems(6,5) mf]
    note step = session_pieces_step [OF s(1) True mf]
    let ?n = "chunk_len (argv_FRAG s) (length buf) off"
    obtain ds q m1 where send: "send_outbound_packet enc (mem off) b rl buf s m =
        Some (ds, s\<lparr>send_seq := send_seq s + 1, outq := q\<rparr>, m1)"
      and q: "cbr_queue (s\<lparr>send_seq := send_seq s + 1, outq := q\<rparr>)" "argv_CBR s = char_Y \<longrightarrow> ds = []"
        "outq s \<noteq> None \<longrightarrow> q \<noteq> None"
      using send_outbound_packet_ok [OF s len less.prems(4), of "mem off" buf m] by blast
    let ?s = "s\<lparr>send_seq := send_seq s + 1, outq := q\<rparr>"
    have pieces: "session_pieces ?s ident stk buf o1 = session_pieces s ident stk buf o1" for o1
      by (simp add: session_pieces_def)
    have dec: "length buf - (off + ?n) < length buf - off" using step(2) True by linarith
    have s1: "params_ok ?s" "length (session_id ?s) = 16" using s by (simp_all add: params_ok_def)
    obtain ds2 q2 m2 where "outbound_loop enc mem stk ident buf (off + ?n) ?s m1 =
        Some (ds2, ?s\<lparr>send_seq := send_seq ?s + of_nat (length (session_pieces ?s ident stk buf (off + ?n))),
          outq := q2\<rparr>, m2)"
      "cbr_queue (?s\<lparr>send_seq := send_seq ?s + of_nat (length (session_pieces ?s ident stk buf (off + ?n))),
          outq := q2\<rparr>)" "argv_CBR ?s = char_Y \<longrightarrow> ds2 = []" "outq ?s \<noteq> None \<longrightarrow> q2 \<noteq> None"
      using less.hyps [OF dec s1 q(1) less.prems(4,5) step(3), of m1] by blast
    then show ?thesis
      using True send mf params_frag [OF s(1)] q(2,3)
      by (subst outbound_loop.simps) (auto simp: step(1) pieces config_defs add.assoc)
  qed
qed

lemma outbound_tun_ok:
  assumes st: "server_ok st" and enc: "aead_len enc" and stk: "length stk = MAX_FRAG"
  shows "\<exists>ds st'. handle_outbound_tun_buf enc mem stk buf st = Some (ds, st') \<and> server_ok st' \<and>
    (\<forall>i. session_by_vpnip (slice buf 16 4) (sessions st) = Some i \<longrightarrow> argv_CBR (sessions st ! i) = char_Y \<longrightarrow> ds = []) \<and>
    (outqs_present (sessions st) \<longrightarrow> outqs_present (sessions st'))"
proof (cases "length buf < 20 \<or> session_by_vpnip (slice buf 16 4) (sessions st) = None")
  case True
  then show ?thesis using st by (auto simp: handle_outbound_tun_buf_def)
next
  case False
  then obtain i where i: "session_by_vpnip (slice buf 16 4) (sessions st) = Some i" by auto
  have ok: "sessions_ok (sessions st)" "queues_ok (sessions st)" using st by (simp_all add: server_ok_def)
  have len: "i < length (sessions st)" "active (sessions st ! i)" using session_by_vpnip_Some [OF ok(1) i] by auto
  let ?s = "sessions st ! i"
  note slot = sessions_okD [OF ok(1) len(1)]
  note s = slot_active [OF slot len(2)]
  have sid: "length (session_id ?s) = 16" using s(1) by (simp add: session_shape_def config_defs)
  obtain ident nid where nid: "fragment_next_packet_id (next_packet_id st) = (ident, nid)" by fastforce
  obtain ds q n m' where loop: "outbound_loop enc mem stk ident buf 0 ?s (stats st) =
      Some (ds, ?s\<lparr>send_seq := n, outq := q\<rparr>, m')" "cbr_queue (?s\<lparr>send_seq := n, outq := q\<rparr>)"
      "argv_CBR ?s = char_Y \<longrightarrow> ds = []" "outq ?s \<noteq> None \<longrightarrow> q \<noteq> None"
    using outbound_loop_ok [OF s(2) sid queues_nth [OF ok(2) len] enc stk, of 0 buf mem ident "stats st"] by auto
  have "server_ok (st\<lparr>sessions := (sessions st)[i := ?s\<lparr>send_seq := n, outq := q\<rparr>], stats := m'\<rparr>)"
    using server_ok_update [OF st] slot loop(2) by simp
  then have "server_ok (st\<lparr>sessions := (sessions st)[i := ?s\<lparr>send_seq := n, outq := q\<rparr>], stats := m',
      next_packet_id := nid\<rparr>)" by simp
  moreover have "outqs_present (sessions st) \<longrightarrow> outqs_present ((sessions st)[i := ?s\<lparr>send_seq := n, outq := q\<rparr>])"
  proof
    assume o: "outqs_present (sessions st)"
    then have "outq ?s \<noteq> None" using len by (simp add: outqs_present_def)
    then show "outqs_present ((sessions st)[i := ?s\<lparr>send_seq := n, outq := q\<rparr>])"
      using outqs_present_update [OF o] loop(4) by simp
  qed
  ultimately show ?thesis using False i loop nid by (auto simp: handle_outbound_tun_buf_def)
qed

text \<open>
  C13. The outbound path returns and stays within its buffers: for every packet read from the
  TUN device and every outcome of the allocations, the fragmentation loop ends, the invariant
  of the server is kept, and for a session at constant rate no datagram leaves outside the
  schedule (every fragment is queued at the constant size).
\<close>

theorem outbound_safe:
  assumes "server_ok st" "aead_len enc" "length stk = MAX_FRAG"
  shows "\<exists>ds st'. handle_outbound_tun_buf enc mem stk buf st = Some (ds, st') \<and> server_ok st' \<and>
    (\<forall>i. session_by_vpnip (slice buf 16 4) (sessions st) = Some i \<longrightarrow> argv_CBR (sessions st ! i) = char_Y \<longrightarrow> ds = [])"
  using outbound_tun_ok [OF assms] by blast

theorem outbound_safe_witness:
  "\<exists>ds st'. handle_outbound_tun_buf sample_aead (\<lambda>_. (True, True)) (replicate 1600 0)
     (replicate 16 69 @ [10, 10, 0, 5]) sample_server = Some (ds, st') \<and> server_ok st'"
  using outbound_safe [OF sample_server_ok aead_correct_len [OF sample_aead_correct], of "replicate 1600 0"
      "\<lambda>_. (True, True)" "replicate 16 69 @ [10, 10, 0, 5]"]
  by (auto simp: config_defs)

section \<open>The datagrams of a packet\<close>

text \<open>libsodium's encryption fails only for messages longer than it can count.\<close>

definition enc_total :: "aead_fn \<Rightarrow> bool" where
  "enc_total enc \<longleftrightarrow> (\<forall>k n ad m. enc k n ad m \<noteq> None)"

fun seal_all :: "aead_fn \<Rightarrow> session \<Rightarrow> u64 \<Rightarrow> bytes list \<Rightarrow> datagram list" where
  "seal_all enc s q [] = []"
| "seal_all enc s q (p # ps) =
     (client_addr s, data_packet (session_id s) q (the (aead_encrypt enc (k_send s) (session_id s) q p)))
     # seal_all enc s (q + 1) ps"

lemma seal_all_same: "seal_all enc (s\<lparr>send_seq := n\<rparr>) q ps = seal_all enc s q ps"
  by (induction ps arbitrary: q) auto

lemma seal_all_length: "length (seal_all enc s q ps) = length ps"
  by (induction ps arbitrary: q) auto

lemma outbound_loop_sealed:
  assumes "params_ok s" "argv_CBR s \<noteq> char_Y" "aead_len enc" "enc_total enc" "\<And>o1. fst (mem o1)"
    "length stk = MAX_FRAG" "off \<le> length buf"
  shows "outbound_loop enc mem stk ident buf off s m =
    (let ps = session_pieces s ident stk buf off
     in Some (seal_all enc s (send_seq s) ps, s\<lparr>send_seq := send_seq s + of_nat (length ps)\<rparr>, m))"
  using assms
proof (induction "length buf - off" arbitrary: off s m rule: less_induct)
  case less
  note s = less.prems(1,2)
  show ?case
  proof (cases "off < length buf")
    case False
    then have off: "off = length buf" using less.prems(7) by simp
    show ?thesis by (simp add: off session_pieces_end outbound_loop.simps)
  next
    case True
    obtain b rl where mf: "make_fragment (argv_FRAG s) (argv_PAD s = char_Y) ident (replicate SESSION_ID_LEN 0)
        stk buf off = (b, rl)" by fastforce
    note len = make_fragment_len [OF frag_ok_params [OF s(1)] less.prems(7,6) mf]
    note step = session_pieces_step [OF s(1) True mf]
    let ?n = "chunk_len (argv_FRAG s) (length buf) off" and ?s = "s\<lparr>send_seq := send_seq s + 1\<rparr>"
    obtain out where out: "aead_encrypt enc (k_send s) (session_id s) (send_seq s) (take rl b) = Some out"
      using less.prems(4) unfolding enc_total_def aead_encrypt_def Let_def by blast
    have send: "send_outbound_packet enc (mem off) b rl buf s m =
        Some ([(client_addr s, data_packet (session_id s) (send_seq s) out)], ?s, m)"
      using s(2) out less.prems(5) by (simp add: send_outbound_packet_spec [OF s(1) len less.prems(3)] outbound_plain_def)
    have dec: "length buf - (off + ?n) < length buf - off" using step(2) True by linarith
    have s1: "params_ok ?s" "argv_CBR ?s \<noteq> char_Y" using s by (simp_all add: params_ok_def)
    have pieces: "session_pieces ?s ident stk buf o1 = session_pieces s ident stk buf o1" for o1
      by (simp add: session_pieces_def)
    have "outbound_loop enc mem stk ident buf (off + ?n) ?s m =
        (let ps = session_pieces ?s ident stk buf (off + ?n)
         in Some (seal_all enc ?s (send_seq ?s) ps, ?s\<lparr>send_seq := send_seq ?s + of_nat (length ps)\<rparr>, m))"
      by (rule less.hyps [OF dec s1 less.prems(3,4,5,6) step(3)])
    then show ?thesis
      using True send mf params_frag [OF s(1)] out
      by (subst outbound_loop.simps) (simp add: step(1) pieces config_defs add.assoc Let_def seal_all_same)
  qed
qed

text \<open>
  C14. For a session without constant rate, the datagrams of a packet read from the TUN device
  are its fragments, in order, each encrypted under the send key and the session identifier with
  consecutive sequence numbers from \<open>send_seq\<close> on, and addressed to the client; the counter
  advances by the number of fragments, and nothing else of the table changes.
\<close>

theorem outbound_datagrams:
  assumes "sessions_ok (sessions st)" "aead_len enc" "enc_total enc" "length stk = MAX_FRAG" "20 \<le> length buf"
    and "session_by_vpnip (slice buf 16 4) (sessions st) = Some i" "argv_CBR (sessions st ! i) \<noteq> char_Y"
    and "\<And>off. fst (mem off)"
  shows "handle_outbound_tun_buf enc mem stk buf st =
    (let s = sessions st ! i;
         (ident, nid) = fragment_next_packet_id (next_packet_id st);
         ps = fragment_list (argv_FRAG s) (argv_PAD s = char_Y) ident (replicate SESSION_ID_LEN 0) stk buf 0
     in Some (seal_all enc s (send_seq s) ps,
              st\<lparr>sessions := (sessions st)[i := s\<lparr>send_seq := send_seq s + of_nat (length ps)\<rparr>],
                 next_packet_id := nid\<rparr>))"
proof -
  let ?s = "sessions st ! i"
  obtain ident nid where nid: "fragment_next_packet_id (next_packet_id st) = (ident, nid)" by fastforce
  note i = session_by_vpnip_Some [OF assms(1,6)]
  note s = slot_active [OF sessions_okD [OF assms(1) i(1)] i(2)]
  have same: "st\<lparr>sessions := t, stats := stats st, next_packet_id := nid\<rparr> = st\<lparr>sessions := t, next_packet_id := nid\<rparr>"
    for t by simp
  show ?thesis
    using outbound_loop_sealed [OF s(2) assms(7,2,3) _ assms(4), where mem = mem and off = 0 and buf = buf and
        ident = ident and m = "stats st"] assms(5,6,8) nid
    by (simp add: handle_outbound_tun_buf_def session_pieces_def Let_def same)
qed

theorem outbound_datagrams_witness:
  "\<exists>ds st'. handle_outbound_tun_buf sample_aead (\<lambda>_. (True, True)) (replicate 1600 0)
     (replicate 16 69 @ [10, 10, 0, 5] @ replicate 100 8) sample_server = Some (ds, st') \<and>
     length ds = 2 \<and> send_seq (sessions st' ! 3) = 2"
proof -
  let ?buf = "replicate 16 69 @ [10, 10, 0, 5] @ replicate 100 8 :: bytes"
  have ip: "session_by_vpnip (slice ?buf 16 4) (sessions sample_server) = Some 3"
    using session_by_vpnip_slot [OF sample_table_ok, of 3] by (simp add: vpn_addr_def slice_def MAX_CLIENTS_def)
  have cut: "chunk_len 128 120 0 = 104" "chunk_len 128 120 104 = 16"
    by (simp_all add: chunk_len_ok frag_ok_def)
  let ?ps = "fragment_list 128 False 1 (replicate 16 0) (replicate 1600 0) ?buf 0"
  have ps: "length ?ps = 2"
    using cut by (simp add: fragment_list.simps [of _ _ _ _ _ _ 0] fragment_list.simps [of _ _ _ _ _ _ 104]
        fragment_list.simps [of _ _ _ _ _ _ 120])
  have ident: "fragment_next_packet_id (next_packet_id sample_server) = (1, 2)"
    by (simp add: fragment_next_packet_id_def sample_server_def)
  have "enc_total sample_aead" by (simp add: enc_total_def sample_aead_def)
  then have "handle_outbound_tun_buf sample_aead (\<lambda>_. (True, True)) (replicate 1600 0) ?buf sample_server =
      Some (seal_all sample_aead sample_session 0 ?ps, sample_server\<lparr>sessions :=
        sample_table[3 := sample_session\<lparr>send_seq := of_nat (length ?ps)\<rparr>], next_packet_id := 2\<rparr>)"
    using outbound_datagrams [OF _ aead_correct_len [OF sample_aead_correct], where stk = "replicate 1600 0" and
        mem = "\<lambda>_. (True, True)" and buf = ?buf and i = 3 and st = sample_server] sample_table_ok ip ident
    by (simp add: Let_def config_defs)
  then show ?thesis using ps by (simp add: seal_all_length sample_table_length)
qed

section \<open>Maintenance\<close>

lemma keepalive_sends:
  assumes "aead_len enc" "length (session_id s) = 16"
  shows "\<exists>ds. send_keepalive_to_client enc mem s = Some (ds, s\<lparr>send_seq := send_seq s + 1\<rparr>) \<and>
    (\<forall>d\<in>set ds. fst d = client_addr s \<and> length (snd d) = 70)"
proof (cases "aead_encrypt enc (k_send s) (session_id s) (send_seq s) keepalive_plain")
  case None
  then show ?thesis by (simp add: send_keepalive_to_client_def Let_def)
next
  case (Some out)
  have "length out = 40" using aead_encrypt_len [OF assms(1) Some] by (simp add: keepalive_plain_def config_defs)
  then show ?thesis using Some assms(2) by (simp add: send_keepalive_to_client_def Let_def BUFFER_SIZE_def)
qed

definition keepalive_due :: "time_t \<Rightarrow> session \<Rightarrow> bool" where
  "keepalive_due now s \<longleftrightarrow> active s \<and> now - last_activity_keepalive s \<ge> KEEPALIVE_INTERVAL_SEC"

definition after_keepalive :: "time_t \<Rightarrow> session \<Rightarrow> session" where
  "after_keepalive now s =
     (if keepalive_due now s
      then s\<lparr>send_seq := send_seq s + 1, last_activity_keepalive := now, last_activity := now\<rparr> else s)"

lemma keepalive_all_eq:
  assumes "aead_len enc" "\<forall>s\<in>set tbl. length (session_id s) = 16"
  shows "\<exists>ds. keepalive_all enc mem now tbl = Some (ds, map (after_keepalive now) tbl) \<and>
    (\<forall>d\<in>set ds. length (snd d) = 70 \<and> (\<exists>s\<in>set tbl. keepalive_due now s \<and> fst d = client_addr s))"
  using assms(2)
proof (induction tbl)
  case (Cons s tbl)
  obtain ds where ds: "send_keepalive_to_client enc mem s = Some (ds, s\<lparr>send_seq := send_seq s + 1\<rparr>)"
    "\<forall>d\<in>set ds. fst d = client_addr s \<and> length (snd d) = 70"
    using keepalive_sends [OF assms(1)] Cons.prems by fastforce
  obtain ds2 where "keepalive_all enc mem now tbl = Some (ds2, map (after_keepalive now) tbl)"
    "\<forall>d\<in>set ds2. length (snd d) = 70 \<and> (\<exists>s\<in>set tbl. keepalive_due now s \<and> fst d = client_addr s)"
    using Cons by auto
  then show ?case using ds by (auto simp: keepalive_step_def after_keepalive_def keepalive_due_def)
qed simp

lemma after_keepalive_ok: "slot_ok i s \<Longrightarrow> slot_ok i (after_keepalive now s)"
  "cbr_queue (after_keepalive now s) = cbr_queue s" "active (after_keepalive now s) = active s"
  by (simp_all add: after_keepalive_def)

text \<open>One round of maintenance on a slot: expiry, sweep of the reassembly table, keepalive.\<close>

definition maintained :: "time_t \<Rightarrow> session \<Rightarrow> session" where
  "maintained now s =
     (let s1 = (if expired now s then wipe_session s else s)
      in after_keepalive now (s1\<lparr>g_reassembly_table := sweep_reassembly_table now (g_reassembly_table s1)\<rparr>))"

lemma maintenance_eq:
  assumes st: "server_ok st" and enc: "aead_len enc" and stk: "length stk = 16"
  shows "\<exists>ds m. perform_maintenance enc stk mem now st =
      Some (ds, st\<lparr>sessions := map (maintained now) (sessions st), stats := m\<rparr>) \<and>
    server_ok (st\<lparr>sessions := map (maintained now) (sessions st), stats := m\<rparr>)"
proof -
  have ok: "sessions_ok (sessions st)" "queues_ok (sessions st)" "shards_ok (g_shards st)"
    using st by (simp_all add: server_ok_def)
  let ?t = "map (\<lambda>s. if expired now s then wipe_session s else s) (sessions st)"
  have t: "sessions_ok ?t" using ok(1) by (auto simp: sessions_ok_def intro: wipe_slot_ok)
  obtain n ds m where c: "cleanup_expired_sessions enc stk now (sessions st) (stats st) = Some (n, ds, ?t, m)"
    using cleanup_eq [of "sessions st" enc stk now "stats st"] sessions_ok_params [OF ok(1)] enc stk by auto
  note sw = sweep_all_ok [OF t, of now]
  have sid: "\<forall>s\<in>set (sweep_all_tables now ?t). length (session_id s) = 16"
    using sw by (auto simp: sessions_ok_def slot_ok_def session_shape_def config_defs in_set_conv_nth)
  obtain ds2 where k: "keepalive_all enc mem now (sweep_all_tables now ?t) =
      Some (ds2, map (after_keepalive now) (sweep_all_tables now ?t))"
    using keepalive_all_eq [OF enc sid] by blast
  have eq: "map (after_keepalive now) (sweep_all_tables now ?t) = map (maintained now) (sessions st)"
    by (simp add: sweep_all_tables_def maintained_def Let_def)
  have "sessions_ok (map (maintained now) (sessions st))"
    using sw unfolding eq [symmetric] by (auto simp: sessions_ok_def intro: after_keepalive_ok)
  moreover have "queues_ok (map (maintained now) (sessions st))"
    using ok(2) by (auto simp: queues_ok_def maintained_def Let_def after_keepalive_ok wipe_session_def)
  ultimately show ?thesis using c k ok(3) by (auto simp: perform_maintenance_def eq server_ok_def)
qed

fun maintenance_run ::
  "aead_fn \<Rightarrow> bytes \<Rightarrow> bool \<Rightarrow> time_t list \<Rightarrow> server \<Rightarrow> (datagram list \<times> server) option" where
  "maintenance_run enc stk mem [] st = Some ([], st)"
| "maintenance_run enc stk mem (t # ts) st =
     (case perform_maintenance enc stk mem t st of
        None \<Rightarrow> None
      | Some (ds, st1) \<Rightarrow> map_option (\<lambda>(ds2, st2). (ds @ ds2, st2)) (maintenance_run enc stk mem ts st1))"

fun gaps_within :: "int \<Rightarrow> time_t \<Rightarrow> time_t list \<Rightarrow> bool" where
  "gaps_within g t [] \<longleftrightarrow> True"
| "gaps_within g t (u # us) \<longleftrightarrow> u - t \<le> g \<and> gaps_within g u us"

definition kept_alive :: "time_t \<Rightarrow> session \<Rightarrow> bool" where
  "kept_alive t s \<longleftrightarrow> active s \<and> last_activity_keepalive s \<le> last_activity s \<and>
     t - last_activity_keepalive s < KEEPALIVE_INTERVAL_SEC"

lemma kept_alive_step:
  assumes "kept_alive t s" "u - t \<le> SESSION_TIMEOUT_SEC - KEEPALIVE_INTERVAL_SEC"
  shows "kept_alive u (maintained u s)" "session_id (maintained u s) = session_id s" "k_recv (maintained u s) = k_recv s"
proof -
  have "\<not> expired u s" using assms by (simp add: kept_alive_def expired_def config_defs)
  then show "kept_alive u (maintained u s)" "session_id (maintained u s) = session_id s"
    "k_recv (maintained u s) = k_recv s"
    using assms(1) by (auto simp: kept_alive_def maintained_def after_keepalive_def keepalive_due_def Let_def config_defs)
qed


lemma sample_keepalive_time: "last_activity_keepalive sample_session = 0"
  by (simp add: sample_session_def prepare_dummy_static_parts_def zero_session_def Let_def)


text \<open>
  The keepalive of the maintenance breaks the constant packet size: for every session, at
  constant rate or not, the datagram it sends is 70 bytes long, shorter than the one size all
  scheduled packets of the session have, and leaves outside the schedule.
\<close>

lemma keepalive_not_constant_size:
  assumes "slot_ok i s" "keepalive_due now s" "aead_len enc" "enc_total enc"
  shows "\<exists>d s'. keepalive_step enc True now s = Some ([d], s') \<and> fst d = client_addr s \<and>
    length (snd d) = 70 \<and> 70 < cbr_wire s"
proof -
  have s: "session_shape s" "params_ok s" using slot_active [OF assms(1)] assms(2) by (simp_all add: keepalive_due_def)
  obtain out where out: "aead_encrypt enc (k_send s) (session_id s) (send_seq s) keepalive_plain = Some out"
    using assms(4) unfolding enc_total_def aead_encrypt_def Let_def by blast
  have "length out = 40" using aead_encrypt_len [OF assms(3) out] by (simp add: keepalive_plain_def config_defs)
  moreover have "70 < cbr_wire s" using params_frag(2) [OF s(2)] by (simp add: cbr_wire_def config_defs)
  ultimately show ?thesis using out s(1) assms(2)
    by (simp add: keepalive_step_def keepalive_due_def send_keepalive_to_client_def session_shape_def Let_def config_defs)
qed

end
