(* ===== verification/Client_Data.thy ===== *)
theory Client_Data
  imports Client_Handshake Outbound_Path
begin

text \<open>
  The data path of the client: \<open>chamlon_client/src/vpn_packet_handler.c\<close> (packets from the TUN
  device and from the server, keepalives), \<open>vpn_sender_thread.c\<close> (the thread that empties the
  queue and fills the gaps with dummies), the disconnect message of \<open>vpn_client.c\<close> and the round
  of the event loop of \<open>vpn_event_loop.c\<close>. The globals of the client are the record
  \<open>client\<close>; a step returns the datagrams for the server, the packets for the TUN device and
  the new state, and \<open>None\<close> is an access outside a buffer. Every step is atomic; what the two
  threads of the client can do to each other shows as an interleaving of their steps.
\<close>

section \<open>State\<close>

record client =
  cl_argv :: client_argv
  cl_srv :: server_t
  cl_sender :: sender_args
  g_outq :: "packet_lanes option"
  cl_rw :: replay_window
  cl_table :: "reassembly_entry list"
  g_next_packet_id :: u16
  g_session_id :: bytes
  cl_dummy_payload :: bytes
  cl_final_pkt :: bytes
  cl_static_len :: nat
  data_REAL :: nat
  data_DUMMY :: nat
  last_double_dummy_real :: time_t
  last_server_keepalive_time :: time_t
  disconnect_requested :: bool
  last_keepalive :: time_t
  last_sweep :: time_t
  last_rehandshake :: time_t
  cl_buffer :: rehandshake_buffer

definition CLIENT_KEEPALIVE_INTERVAL :: int where [config_defs]: "CLIENT_KEEPALIVE_INTERVAL = 25"
definition SERVER_KEEPALIVE_TIMEOUT :: int where [config_defs]: "SERVER_KEEPALIVE_TIMEOUT = 125"
definition REHANDSHAKE_BYTES_LIMIT :: u64 where [config_defs]: "REHANDSHAKE_BYTES_LIMIT = 2 ^ 30"
definition REHANDSHAKE_SEQ_LIMIT :: u64 where [config_defs]: "REHANDSHAKE_SEQ_LIMIT = 2 ^ 32"
definition MAX_BURST :: nat where [config_defs]: "MAX_BURST = 64"

section \<open>Sending\<close>

text \<open>
  \<open>packet_padding\<close> of \<open>vpn_utils.c\<close>: the return code and the buffer, which is \<open>argv_FRAG\<close> bytes
  long.
\<close>

definition client_padding :: "client_argv \<Rightarrow> bytes \<Rightarrow> nat \<Rightarrow> int \<times> bytes" where
  "client_padding av buf2 n =
     (if ca_PAD av = char_N then (-1, buf2)
      else
        let max_len = size_t_of_int (ca_FRAG av); len_to_fill = sub64 max_len n
        in (0, if len_to_fill > 0 then memset_at buf2 n 0x00 len_to_fill else buf2))"

text \<open>
  The control packets of the client. \<open>stk\<close> is the session identifier field of the tunnel
  header, which the client does not initialise.
\<close>

definition client_control_plain :: "bytes \<Rightarrow> u16 \<Rightarrow> byte \<Rightarrow> nat \<Rightarrow> bytes" where
  "client_control_plain stk ctrl fill n =
     memset_at (memcpy_at (replicate n 0) 0 (tunnel_header_bytes \<lparr>packet_id = 1, fragment_offset = 1,
         total_ip_len = 1, flags = ctrl, th_session_id = stk\<rparr>))
       sizeof_tunnel_header fill (n - sizeof_tunnel_header)"

definition send_keepalive :: "aead_fn \<Rightarrow> bytes \<Rightarrow> client \<Rightarrow> (datagram list \<times> client) option" where
  "send_keepalive enc stk cl =
     (let srv = cl_srv cl; n = size_t_of_int (ca_FRAG (cl_argv cl))
      in if n < sizeof_tunnel_header then None
         else
           (let buf2 = client_control_plain stk PKT_CTRL_KEEPALIVE 0x88 n;
                seq1 = sv_send_seq srv;
                cl1 = cl\<lparr>cl_srv := srv\<lparr>sv_send_seq := seq1 + 1\<rparr>\<rparr>
            in case aead_encrypt enc (sv_k_send srv) (sv_session_id srv) seq1 buf2 of
                 None \<Rightarrow> Some ([], cl1)
               | Some out \<Rightarrow>
                   if length out > BUFFER_SIZE then None
                   else Some ([(sv_server_addr srv, data_packet (sv_session_id srv) seq1 out)], cl1)))"

definition send_disconnect :: "aead_fn \<Rightarrow> bytes \<Rightarrow> client \<Rightarrow> (datagram list \<times> client) option" where
  "send_disconnect enc stk cl =
     (let srv = cl_srv cl;
          buf2 = client_control_plain stk PKT_CTRL_DISCONNECT 0x11 1400;
          seq1 = sv_send_seq srv;
          cl1 = cl\<lparr>cl_srv := srv\<lparr>sv_send_seq := seq1 + 1\<rparr>\<rparr>
      in case aead_encrypt enc (sv_k_send srv) (g_session_id cl) seq1 buf2 of
           None \<Rightarrow> Some ([], cl1)
         | Some out \<Rightarrow>
             if length out > BUFFER_SIZE then None
             else Some (replicate 3 (sv_server_addr srv, data_packet (g_session_id cl) seq1 out), cl1))"

text \<open>One fragment: \<open>buf2\<close>, \<open>real_data_len\<close> and \<open>chunk_len\<close>.\<close>

definition client_fragment :: "client_argv \<Rightarrow> u16 \<Rightarrow> bytes \<Rightarrow> bytes \<Rightarrow> nat \<Rightarrow> bytes \<times> nat \<times> nat" where
  "client_fragment av current_id hdr_sid buf current_offset =
     (let frag = size_t_of_int (ca_FRAG av);
          max_payload = sub64 frag sizeof_tunnel_header;
          b0 = replicate frag 0;
          c0 = length buf - current_offset;
          n = (if c0 > max_payload then max_payload else c0);
          header = \<lparr>packet_id = current_id, fragment_offset = of_nat current_offset,
                    total_ip_len = of_nat (length buf),
                    flags = (if current_offset + n = length buf then 0x0000 else 0x8000),
                    th_session_id = hdr_sid\<rparr>;
          b1 = memcpy_at b0 0 (tunnel_header_bytes header);
          b2 = memcpy_at b1 sizeof_tunnel_header (slice buf current_offset n);
          real_data_len = sizeof_tunnel_header + n;
          (rc, b3) = client_padding av b2 real_data_len
      in (b3, if rc = 0 then frag else real_data_len, n))"

text \<open>
  The loop of \<open>handle_tun_packet\<close>. \<open>mem\<close> gives the outcomes of the two allocations in the round at
  each offset. A failed encryption ends the loop, a failed allocation skips the fragment.
\<close>

partial_function (option) client_tun_loop ::
  "aead_fn \<Rightarrow> (nat \<Rightarrow> bool \<times> bool) \<Rightarrow> bytes \<Rightarrow> u16 \<Rightarrow> bytes \<Rightarrow> nat \<Rightarrow> client \<Rightarrow> client option" where
  "client_tun_loop enc mem hdr_sid current_id buf off cl =
     (if off < length buf then
        if size_t_of_int (ca_FRAG (cl_argv cl)) < sizeof_tunnel_header then None
        else
          (let (buf2, real_data_len, n) = client_fragment (cl_argv cl) current_id hdr_sid buf off;
               srv = cl_srv cl;
               sq = sv_send_seq srv;
               cl1 = cl\<lparr>cl_srv := srv\<lparr>sv_send_seq := sq + 1\<rparr>\<rparr>
           in case aead_encrypt enc (sv_k_send srv) (sv_session_id srv) sq (take real_data_len buf2) of
                None \<Rightarrow> Some cl1
              | Some out \<Rightarrow>
                  if length out > BUFFER_SIZE then None
                  else
                    client_tun_loop enc mem hdr_sid current_id buf (off + n)
                      (if fst (mem off)
                       then cl1\<lparr>g_outq := snd (push_outq (snd (mem off)) (data_packet (sv_session_id srv) sq out) sq buf (g_outq cl1))\<rparr>
                       else cl1))
      else Some cl)"

definition handle_tun_packet :: "aead_fn \<Rightarrow> (nat \<Rightarrow> bool \<times> bool) \<Rightarrow> bytes \<Rightarrow> bytes \<Rightarrow> client \<Rightarrow> client option" where
  "handle_tun_packet enc mem hdr_sid buf cl =
     (if length buf < 20 then Some cl
      else
        (let current_id = g_next_packet_id cl;
             nid = current_id + 1;
             cl1 = cl\<lparr>g_next_packet_id := (if nid = 0 then 1 else nid)\<rparr>
         in client_tun_loop enc mem hdr_sid current_id buf 0 cl1))"

section \<open>Receiving\<close>

text \<open>
  \<open>bstk\<close> and \<open>pstk\<close> are what \<open>buf\<close> and \<open>plain\<close> hold before the call; the header is looked at before
  the length of the datagram \<open>d\<close>. The result is the packets written to the TUN device, whether
  the process exits, and the state.
\<close>

definition handle_udp_packet ::
  "aead_fn \<Rightarrow> time_t \<Rightarrow> bytes \<Rightarrow> bytes \<Rightarrow> bytes \<Rightarrow> client \<Rightarrow> (bytes list \<times> bool \<times> client) option" where
  "handle_udp_packet dec now bstk pstk d cl =
     (let got = take BUFFER_SIZE d; r = length got; buf = memcpy_at bstk 0 got; ph = proto_header_of buf; srv = cl_srv cl
      in if r = 0 then Some ([], False, cl)
         else if version ph \<noteq> PKT_VERSION \<or> ptype ph \<noteq> PKT_TYPE_DATA then Some ([], False, cl)
         else if r \<le> DATA_HEADER_LEN then Some ([], False, cl)
         else if packet_sid buf \<noteq> sv_session_id srv then Some ([], False, cl)
         else if check_replay_client (packet_seq buf) (cl_rw cl) then Some ([], False, cl)
         else
           (case aead_decrypt dec (sv_k_recv srv) (sv_session_id srv) (packet_seq buf)
                   (take (r - DATA_HEADER_LEN) (drop DATA_HEADER_LEN buf)) of
              None \<Rightarrow> Some ([], False, cl)
            | Some pl \<Rightarrow>
                if length pl > BUFFER_SIZE then None
                else
                  (case update_window_client (packet_seq buf) (cl_rw cl) of
                     None \<Rightarrow> None
                   | Some w \<Rightarrow>
                       let cl1 = cl\<lparr>cl_rw := w\<rparr>; plain = memcpy_at pstk 0 pl; header = tunnel_header_of plain
                       in if length pl < sizeof_tunnel_header then Some ([], False, cl1)
                          else if flags header = PKT_DUMMY then Some ([], False, cl1)
                          else if flags header = PKT_CTRL_KEEPALIVE
                          then Some ([], False, cl1\<lparr>last_server_keepalive_time := now\<rparr>)
                          else if flags header = PKT_CTRL_DISCONNECT then Some ([], True, cl1)
                          else
                            (case store_fragment now header (length pl - sizeof_tunnel_header)
                                    (drop sizeof_tunnel_header plain) (cl_table cl1) of
                               None \<Rightarrow> None
                             | Some (out, tbl) \<Rightarrow>
                                 Some (case out of None \<Rightarrow> [] | Some p \<Rightarrow> [p], False, cl1\<lparr>cl_table := tbl\<rparr>)))))"

section \<open>The sender thread\<close>

text \<open>\<open>prepare_dummy_static_parts\<close> of the client, on its two static buffers.\<close>

definition client_prepare_dummy :: "bytes \<Rightarrow> client \<Rightarrow> client option" where
  "client_prepare_dummy sid cl =
     (let n = size_t_of_int (ca_FRAG (cl_argv cl));
          p0 = memcpy_at (cl_final_pkt cl) 0 (proto_header_bytes data_header);
          p1 = memcpy_at p0 sizeof_proto_header (take SESSION_ID_LEN sid);
          th = \<lparr>packet_id = 1, fragment_offset = 1, total_ip_len = 1, flags = PKT_DUMMY,
                th_session_id = replicate SESSION_ID_LEN 0\<rparr>;
          d0 = memcpy_at (cl_dummy_payload cl) 0 (tunnel_header_bytes th)
      in if n < sizeof_tunnel_header \<or> n > length d0 then None
         else Some (cl\<lparr>cl_final_pkt := p1, cl_static_len := sizeof_proto_header + SESSION_ID_LEN,
                       cl_dummy_payload := memset_at d0 sizeof_tunnel_header 0x99 (n - sizeof_tunnel_header)\<rparr>))"

definition send_one_dummy :: "aead_fn \<Rightarrow> client \<Rightarrow> (int \<times> datagram list \<times> client) option" where
  "send_one_dummy enc cl =
     (let sa = cl_sender cl; srv = cl_srv cl; sq = sv_send_seq srv;
          n = size_t_of_int (ca_FRAG (cl_argv cl));
          cl1 = cl\<lparr>cl_srv := srv\<lparr>sv_send_seq := sq + 1\<rparr>\<rparr>
      in if n > length (cl_dummy_payload cl) then None
         else
           (case aead_encrypt enc (sa_k_send sa) (sa_session_id sa) sq (take n (cl_dummy_payload cl)) of
              None \<Rightarrow> Some (-1, [], cl1)
            | Some out \<Rightarrow>
                if length out > BUFFER_SIZE \<or> cl_static_len cl + 8 + length out > length (cl_final_pkt cl) then None
                else
                  (let p = memcpy_at (memcpy_at (cl_final_pkt cl) (cl_static_len cl) (be64 sq))
                             (cl_static_len cl + 8) out
                   in Some (0, [(sv_server_addr srv, take (cl_static_len cl + 8 + length out) p)],
                            cl1\<lparr>cl_final_pkt := p, data_DUMMY := data_DUMMY cl1 + 1\<rparr>))))"

text \<open>The swap to the keys of a key rotation.\<close>

definition sender_rekey :: "client \<Rightarrow> client option" where
  "sender_rekey cl =
     (let sa = cl_sender cl
      in if pending_rekey sa
         then map_option
                (\<lambda>c. c\<lparr>cl_sender := (cl_sender c)\<lparr>pending_k_send := replicate AEAD_KEY_LEN 0,
                        pending_session_id := replicate SESSION_ID_LEN 0, pending_rekey := False\<rparr>\<rparr>)
                (client_prepare_dummy (pending_session_id sa)
                   (cl\<lparr>cl_sender := sa\<lparr>sa_k_send := pending_k_send sa, sa_session_id := pending_session_id sa\<rparr>,
                       g_session_id := pending_session_id sa\<rparr>))
         else Some cl)"

definition sender_stats :: "timespec \<Rightarrow> client \<Rightarrow> client" where
  "sender_stats now cl =
     (if tv_sec now > last_double_dummy_real cl
      then cl\<lparr>data_REAL := 0, data_DUMMY := 0, last_double_dummy_real := tv_sec now\<rparr> else cl)"

definition sender_drain :: "client \<Rightarrow> timespec \<Rightarrow> (datagram list \<times> timespec \<times> client) option" where
  "sender_drain cl nx =
     (case g_outq cl of
        None \<Rightarrow> None
      | Some q \<Rightarrow>
          let (nodes, q1) = drain_lanes q
          in Some (map (\<lambda>x. (sv_server_addr (cl_srv cl), pkt x)) nodes,
                   if ca_CBR (cl_argv cl) = char_Y
                   then ((\<lambda>t. timespec_add t (sa_interval (cl_sender cl))) ^^ length nodes) nx else nx,
                   cl\<lparr>g_outq := Some q1, data_REAL := data_REAL cl + length nodes\<rparr>))"

text \<open>
  One round of \<open>sender_thread_fn\<close> at the times \<open>now1\<close> and \<open>now2\<close>: the datagrams, whether the thread
  goes on, the deadline it sleeps to, and the state.
\<close>

definition sender_round ::
  "aead_fn \<Rightarrow> timespec \<Rightarrow> timespec \<Rightarrow> timespec \<Rightarrow> client \<Rightarrow> (datagram list \<times> bool \<times> timespec \<times> client) option" where
  "sender_round enc now1 now2 nx cl =
     (case sender_rekey cl of
        None \<Rightarrow> None
      | Some cl1 \<Rightarrow>
          (case sender_drain (sender_stats now1 cl1) nx of
             None \<Rightarrow> None
           | Some (ds, nx1, cl2) \<Rightarrow>
               if ca_CBR (cl_argv cl2) = char_Y
               then (case send_one_dummy enc cl2 of
                       None \<Rightarrow> None
                     | Some (rc, ds2, cl3) \<Rightarrow>
                         if rc \<noteq> 0 then Some (ds @ ds2, False, nx1, cl3)
                         else
                           (let iv = sa_interval (cl_sender cl3);
                                nx2 = timespec_add nx1 iv;
                                nx3 = (if timespec_cmp now2 nx2 > 0 then timespec_add now2 iv else nx2)
                            in Some (ds @ ds2, True, nx3, cl3)))
               else Some (ds, True, nx1, cl2)))"

section \<open>The event loop\<close>

datatype fd_event = Tun_ready bytes | Udp_ready "bytes list"

datatype tick_result = Continue | Break int | Exited

record tick_env =
  te_now :: time_t
  te_later :: time_t
  te_hs :: client_env
  te_locals :: handshake_out
  te_mem :: "nat \<Rightarrow> bool \<times> bool"
  te_sid :: bytes
  te_bstk :: bytes
  te_pstk :: bytes

fun drain_udp ::
  "aead_fn \<Rightarrow> tick_env \<Rightarrow> bytes list \<Rightarrow> client \<Rightarrow> (bytes list \<times> bool \<times> client) option" where
  "drain_udp dec te [] cl = Some ([], False, cl)"
| "drain_udp dec te (d # ds) cl =
     (case handle_udp_packet dec (te_now te) (te_bstk te) (te_pstk te) d cl of
        None \<Rightarrow> None
      | Some (out, ex, cl1) \<Rightarrow>
          if ex then Some (out, True, cl1)
          else map_option (\<lambda>(outs, ex2, cl2). (out @ outs, ex2, cl2)) (drain_udp dec te ds cl1))"

fun handle_events ::
  "sodium \<Rightarrow> tick_env \<Rightarrow> fd_event list \<Rightarrow> client \<Rightarrow> (bytes list \<times> bool \<times> client) option" where
  "handle_events so te [] cl = Some ([], False, cl)"
| "handle_events so te (Tun_ready buf # es) cl =
     (case handle_tun_packet (aead_enc so) (te_mem te) (te_sid te) buf cl of
        None \<Rightarrow> None
      | Some cl1 \<Rightarrow> handle_events so te es cl1)"
| "handle_events so te (Udp_ready ds # es) cl =
     (case drain_udp (aead_dec so) te (take MAX_BURST ds) cl of
        None \<Rightarrow> None
      | Some (out, ex, cl1) \<Rightarrow>
          if ex then Some (out, True, cl1)
          else
            map_option (\<lambda>(outs, ex2, cl2). (out @ outs, ex2, cl2))
              (handle_events so te es
                 (if disconnect_requested cl1 then cl1\<lparr>last_server_keepalive_time := te_later te\<rparr> else cl1)))"

definition rehandshake_due :: "time_t \<Rightarrow> client \<Rightarrow> bool" where
  "rehandshake_due now cl \<longleftrightarrow>
     now - last_rehandshake cl \<ge> ca_REHANDSHAKE (cl_argv cl) \<or>
     bytes_sent (cl_srv cl) \<ge> REHANDSHAKE_BYTES_LIMIT \<or> sv_send_seq (cl_srv cl) \<ge> REHANDSHAKE_SEQ_LIMIT"

definition tick_rehandshake :: "sodium \<Rightarrow> tick_env \<Rightarrow> client \<Rightarrow> bytes list \<times> client" where
  "tick_rehandshake so te cl =
     (if rehandshake_due (te_now te) cl
      then (let (a, srv) = should_attempt_rehandshake (te_now te) (cl_srv cl); cl1 = cl\<lparr>cl_srv := srv\<rparr>
            in if a = -1 then ([], cl1\<lparr>disconnect_requested := True\<rparr>)
               else if a = 1
               then (let r = rehandshake_client_with_state so (te_hs te) (cl_argv cl1) (te_locals te) (te_later te)
                               (sv_server_pk srv) srv (cl_sender cl1) (cl_rw cl1) (last_server_keepalive_time cl1)
                               (cl_buffer cl1);
                         cl2 = cl1\<lparr>cl_srv := rr_srv r, cl_sender := rr_sender r, cl_rw := rr_rw r,
                                  last_server_keepalive_time := rr_keepalive r, cl_buffer := rr_buffer r\<rparr>
                     in (rr_sent r, if rr_rc r = 0 then cl2\<lparr>last_rehandshake := te_now te\<rparr> else cl2))
               else ([], cl1))
      else ([], cl))"

text \<open>
  One round of \<open>event_loop_run\<close>, from the check of a requested disconnect to the sweep: the
  outcome, the datagrams for the server, the packets for the TUN device and the state.
\<close>

definition client_tick ::
  "sodium \<Rightarrow> tick_env \<Rightarrow> fd_event list \<Rightarrow> client \<Rightarrow>
   (tick_result \<times> datagram list \<times> bytes list \<times> client) option" where
  "client_tick so te es cl =
     (if disconnect_requested cl
      then map_option (\<lambda>(ds, c). (Exited, ds, [], c)) (send_disconnect (aead_enc so) (te_sid te) cl)
      else
     (let now = te_now te
      in case (if now - last_keepalive cl \<ge> CLIENT_KEEPALIVE_INTERVAL
               then map_option (\<lambda>(ds, c). (ds, c\<lparr>last_keepalive := now\<rparr>)) (send_keepalive (aead_enc so) (te_sid te) cl)
               else Some ([], cl)) of
           None \<Rightarrow> None
         | Some (ds, cl1) \<Rightarrow>
             if now - last_server_keepalive_time cl1 \<ge> SERVER_KEEPALIVE_TIMEOUT then Some (Break (-1), ds, [], cl1)
             else
               (let (hs, cl2) = tick_rehandshake so te cl1;
                    ds1 = ds @ map (Pair (sv_server_addr (cl_srv cl2))) hs
                in case handle_events so te es cl2 of
                     None \<Rightarrow> None
                   | Some (out, ex, cl3) \<Rightarrow>
                       if ex then Some (Exited, ds1, out, cl3)
                       else Some (Continue, ds1, out,
                              if now - last_sweep cl3 \<ge> 5
                              then cl3\<lparr>cl_table := sweep_reassembly_table now (cl_table cl3), last_sweep := now\<rparr>
                              else cl3))))"

section \<open>Invariant of the client\<close>

definition argv_ok :: "client_argv \<Rightarrow> bool" where
  "argv_ok av \<longleftrightarrow> ca_MBPS av \<in> {1..15} \<and> ca_FRAG av \<in> {300..1200} \<and> ca_CBR av \<in> {char_Y, char_N} \<and>
     ca_PAD av \<in> {char_Y, char_N} \<and> 1 \<le> ca_REHANDSHAKE av"

definition sender_ok :: "sender_args \<Rightarrow> bool" where
  "sender_ok sa \<longleftrightarrow> length (sa_session_id sa) = 16 \<and> (pending_rekey sa \<longrightarrow> length (pending_session_id sa) = 16)"

definition client_ok :: "client \<Rightarrow> bool" where
  "client_ok cl \<longleftrightarrow>
     argv_ok (cl_argv cl) \<and> length (sv_session_id (cl_srv cl)) = 16 \<and> length (g_session_id cl) = 16 \<and>
     sender_ok (cl_sender cl) \<and> g_outq cl \<noteq> None \<and> window_ok (cl_rw cl) \<and> wf_table (cl_table cl) \<and>
     bounded_table (cl_table cl) \<and> length (cl_dummy_payload cl) = BUFFER_SIZE \<and>
     length (cl_final_pkt cl) = BUFFER_SIZE \<and> cl_static_len cl = 22"

lemma argv_frag:
  assumes "argv_ok av"
  shows "size_t_of_int (ca_FRAG av) = nat (ca_FRAG av)" "300 \<le> nat (ca_FRAG av)" "nat (ca_FRAG av) \<le> 1200"
    "frag_ok (ca_FRAG av)"
  using assms by (auto simp: argv_ok_def size_t_of_int_nonneg frag_ok_def)

lemma client_ok_seq [simp]:
  "client_ok (cl\<lparr>cl_srv := (cl_srv cl)\<lparr>sv_send_seq := q\<rparr>\<rparr>) = client_ok cl"
  "client_ok (cl\<lparr>last_keepalive := t\<rparr>) = client_ok cl" "client_ok (cl\<lparr>last_sweep := t\<rparr>) = client_ok cl"
  "client_ok (cl\<lparr>last_server_keepalive_time := t\<rparr>) = client_ok cl"
  "client_ok (cl\<lparr>g_next_packet_id := i\<rparr>) = client_ok cl" "client_ok (cl\<lparr>disconnect_requested := d\<rparr>) = client_ok cl"
  "client_ok (cl\<lparr>last_rehandshake := t\<rparr>) = client_ok cl" "client_ok (cl\<lparr>cl_buffer := b\<rparr>) = client_ok cl"
  by (simp_all add: client_ok_def)

subsection \<open>Control packets\<close>

lemma client_control_length:
  "length stk = 16 \<Longrightarrow> 24 \<le> n \<Longrightarrow> length (client_control_plain stk ctrl fill n) = n"
  by (simp add: client_control_plain_def memset_at_def memcpy_at_def config_defs)

lemma send_keepalive_ok:
  assumes "client_ok cl" "aead_len enc" "length stk = 16"
  shows "\<exists>ds. send_keepalive enc stk cl = Some (ds, cl\<lparr>cl_srv := (cl_srv cl)\<lparr>sv_send_seq := sv_send_seq (cl_srv cl) + 1\<rparr>\<rparr>)"
proof -
  note f = argv_frag [of "cl_argv cl"]
  have a: "argv_ok (cl_argv cl)" using assms(1) by (simp add: client_ok_def)
  let ?p = "client_control_plain stk PKT_CTRL_KEEPALIVE 0x88 (nat (ca_FRAG (cl_argv cl)))"
  have "length ?p \<le> 1200" using f [OF a] client_control_length [OF assms(3)] by simp
  then have "\<not> BUFFER_SIZE < length out"
    if "aead_encrypt enc (sv_k_send (cl_srv cl)) (sv_session_id (cl_srv cl)) (sv_send_seq (cl_srv cl)) ?p = Some out" for out
    using aead_encrypt_len [OF assms(2) that] by (simp add: BUFFER_SIZE_def)
  then show ?thesis using f [OF a] by (auto simp: send_keepalive_def Let_def config_defs split: option.split)
qed

lemma send_disconnect_ok:
  assumes "aead_len enc" "length stk = 16"
  shows "\<exists>ds. send_disconnect enc stk cl = Some (ds, cl\<lparr>cl_srv := (cl_srv cl)\<lparr>sv_send_seq := sv_send_seq (cl_srv cl) + 1\<rparr>\<rparr>)"
proof -
  have "length (client_control_plain stk PKT_CTRL_DISCONNECT 0x11 1400) = 1400"
    using client_control_length [OF assms(2)] by simp
  then show ?thesis
    using aead_encrypt_len [OF assms(1)] by (auto simp: send_disconnect_def Let_def BUFFER_SIZE_def split: option.split)
qed

subsection \<open>Fragments\<close>

lemma client_fragment_bytes:
  assumes av: "argv_ok av" and sid: "length hdr_sid = 16" and off: "off \<le> length buf" and len: "length buf \<le> BUFFER_SIZE"
    and cf: "client_fragment av ident hdr_sid buf off = (b, rl, n)"
  shows "n = chunk_len (ca_FRAG av) (length buf) off" "length b = nat (ca_FRAG av)" "rl \<le> nat (ca_FRAG av)"
    "take rl b = tunnel_header_bytes (fragment_header (ca_FRAG av) ident hdr_sid buf off) @
      slice buf off (chunk_len (ca_FRAG av) (length buf) off) @
      replicate (padding_len (ca_FRAG av) (ca_PAD av = char_Y) (length buf) off) 0"
proof -
  note f = argv_frag [OF av]
  let ?frag = "nat (ca_FRAG av)"
  define k where "k = chunk_len (ca_FRAG av) (length buf) off"
  define hb where "hb = tunnel_header_bytes (fragment_header (ca_FRAG av) ident hdr_sid buf off)"
  have hb: "length hb = 24" using sid by (simp add: hb_def fragment_header_def)
  have k: "24 + k \<le> ?frag" "k \<le> length buf - off" using f by (auto simp: k_def chunk_len_ok [OF f(4)])
  have sl: "length (slice buf off k) = k" using k(2) off by (simp add: slice_def)
  define b2 where "b2 = memcpy_at (memcpy_at (replicate ?frag 0) 0 hb) 24 (slice buf off k)"
  have b2: "b2 = hb @ slice buf off k @ replicate (?frag - 24 - k) 0"
    using hb sl k(1) by (simp add: b2_def memcpy_at_def add.commute)
  have pad: "ca_PAD av = char_Y \<or> ca_PAD av = char_N \<and> ca_PAD av \<noteq> char_Y" using av by (auto simp: argv_ok_def config_defs)
  have fill: "sub64 ?frag (24 + k) = ?frag - 24 - k" using k(1) f(3) by (simp add: sub64_small)
  have "memset_at b2 (24 + k) 0 (?frag - 24 - k) = b2"
    using hb sl k(1) by (simp add: b2 memset_at_def memcpy_at_def)
  then have cp: "client_padding av b2 (24 + k) = (if ca_PAD av = char_N then -1 else 0, b2)"
    using fill by (simp add: client_padding_def Let_def f(1))
  have mp: "(if sub64 ?frag 24 < length buf - off then sub64 ?frag 24 else length buf - off) = k"
    using f by (auto simp: k_def chunk_len_ok [OF f(4)] sub64_small)
  have "client_fragment av ident hdr_sid buf off = (b2, if ca_PAD av = char_N then 24 + k else ?frag, k)"
    unfolding client_fragment_def Let_def f(1) sizeof_tunnel_header_def mp
    using cp unfolding b2_def hb_def fragment_header_def k_def [symmetric] by (simp add: char_N_def split: prod.split)
  then have r: "b = b2" "rl = (if ca_PAD av = char_N then 24 + k else ?frag)" "n = k" using cf by auto
  show "n = chunk_len (ca_FRAG av) (length buf) off" using r(3) by (simp add: k_def)
  show "length b = ?frag" using r(1) b2 hb sl k(1) by simp
  show "rl \<le> ?frag" using r(2) k(1) by simp
  show "take rl b = hb @ slice buf off (chunk_len (ca_FRAG av) (length buf) off) @
      replicate (padding_len (ca_FRAG av) (ca_PAD av = char_Y) (length buf) off) 0"
    using r b2 hb sl k(1) pad by (auto simp: padding_len_def k_def [symmetric] config_defs)
qed

definition client_pieces :: "client_argv \<Rightarrow> u16 \<Rightarrow> bytes \<Rightarrow> bytes \<Rightarrow> nat \<Rightarrow> bytes list" where
  "client_pieces av ident hdr_sid buf off =
     fragment_list (ca_FRAG av) (ca_PAD av = char_Y) ident hdr_sid (replicate MAX_FRAG 0) buf off"

text \<open>The client cuts a packet into the same fragments as the server.\<close>

lemma client_pieces_step:
  assumes av: "argv_ok av" and sid: "length hdr_sid = 16" and off: "off < length buf" "length buf \<le> BUFFER_SIZE"
    and cf: "client_fragment av ident hdr_sid buf off = (b, rl, n)"
  shows "client_pieces av ident hdr_sid buf off = take rl b # client_pieces av ident hdr_sid buf (off + n)"
    "0 < n" "off + n \<le> length buf" "length (take rl b) \<le> 1200"
proof -
  note f = argv_frag [OF av]
  have le: "off \<le> length buf" using off by simp
  note c = client_fragment_bytes [OF av sid le off(2) cf]
  have "n = min (nat (ca_FRAG av) - 24) (length buf - off)" using c(1) by (simp add: chunk_len_ok [OF f(4)])
  then show n: "0 < n" "off + n \<le> length buf" using f(2) off(1) by linarith+
  obtain b' rl' where mf: "make_fragment (ca_FRAG av) (ca_PAD av = char_Y) ident hdr_sid (replicate MAX_FRAG 0) buf off = (b', rl')"
    by fastforce
  have "take rl' b' = take rl b" using make_fragment_bytes(1) [OF f(4) sid _ le mf] c(4) by simp
  then show "client_pieces av ident hdr_sid buf off = take rl b # client_pieces av ident hdr_sid buf (off + n)"
    using n(1) c(1) off(1) mf unfolding client_pieces_def by (subst fragment_list.simps) simp
  show "length (take rl b) \<le> 1200" using c(2,3) f(3) by simp
qed

lemma client_pieces_end: "client_pieces av ident hdr_sid buf (length buf) = []"
  unfolding client_pieces_def by (subst fragment_list.simps) simp

lemma push_outq_Some: "push_outq mem p q ip (Some l) = (d, x) \<Longrightarrow> \<exists>l'. x = Some l'"
  by (auto simp: push_outq_def split: if_splits prod.splits)

abbreviation after_tun :: "client \<Rightarrow> u64 \<Rightarrow> packet_lanes \<Rightarrow> client" where
  "after_tun cl sq l \<equiv> cl\<lparr>cl_srv := (cl_srv cl)\<lparr>sv_send_seq := sq\<rparr>, g_outq := Some l\<rparr>"

lemma client_tun_loop_ok:
  assumes "argv_ok (cl_argv cl)" "g_outq cl = Some l" "aead_len enc" "length hdr_sid = 16" "off \<le> length buf"
    "length buf \<le> BUFFER_SIZE"
  shows "\<exists>sq l'. client_tun_loop enc mem hdr_sid ident buf off cl = Some (after_tun cl sq l')"
  using assms
proof (induction "length buf - off" arbitrary: off cl l rule: less_induct)
  case less
  show ?case
  proof (cases "off < length buf")
    case False
    then show ?thesis
      using less.prems(2) by (intro exI [of _ "sv_send_seq (cl_srv cl)"] exI [of _ l]) (simp add: client_tun_loop.simps)
  next
    case True
    obtain b rl n where cf: "client_fragment (cl_argv cl) ident hdr_sid buf off = (b, rl, n)"
      by (metis prod_cases3)
    note st = client_pieces_step [OF less.prems(1,4) True less.prems(6) cf]
    note f = argv_frag [OF less.prems(1)]
    let ?cl1 = "cl\<lparr>cl_srv := (cl_srv cl)\<lparr>sv_send_seq := sv_send_seq (cl_srv cl) + 1\<rparr>\<rparr>"
    let ?e = "aead_encrypt enc (sv_k_send (cl_srv cl)) (sv_session_id (cl_srv cl)) (sv_send_seq (cl_srv cl)) (take rl b)"
    show ?thesis
    proof (cases ?e)
      case None
      then show ?thesis
        using True cf f less.prems(2)
        by (intro exI [of _ "sv_send_seq (cl_srv cl) + 1"] exI [of _ l])
          (subst client_tun_loop.simps, simp add: Let_def config_defs)
    next
      case (Some out)
      have out: "\<not> BUFFER_SIZE < length out" using aead_encrypt_len [OF less.prems(3) Some] st(4) unfolding BUFFER_SIZE_def by linarith
      let ?p = "data_packet (sv_session_id (cl_srv cl)) (sv_send_seq (cl_srv cl)) out"
      obtain l1 where l1: "snd (push_outq (snd (mem off)) ?p (sv_send_seq (cl_srv cl)) buf (Some l)) = Some l1"
        using push_outq_Some by (metis prod.collapse)
      define l2 where "l2 = (if fst (mem off) then l1 else l)"
      let ?cl2 = "?cl1\<lparr>g_outq := Some l2\<rparr>"
      have dec: "length buf - (off + n) < length buf - off" using st(2) True by linarith
      have same: "?cl1\<lparr>g_outq := Some l\<rparr> = ?cl1" using less.prems(2) by (cases cl) simp
      have "client_tun_loop enc mem hdr_sid ident buf off cl = client_tun_loop enc mem hdr_sid ident buf (off + n) ?cl2"
        using True cf f less.prems(2) Some out l1
        by (subst client_tun_loop.simps) (simp add: Let_def config_defs l2_def same)
      moreover obtain sq l' where "client_tun_loop enc mem hdr_sid ident buf (off + n) ?cl2 = Some (after_tun ?cl2 sq l')"
        using less.hyps [OF dec, of ?cl2 l2] less.prems(1,3,4,6) st(3) by auto
      ultimately show ?thesis by auto
    qed
  qed
qed

lemma handle_tun_packet_ok:
  assumes "client_ok cl" "aead_len enc" "length hdr_sid = 16" "length buf \<le> BUFFER_SIZE"
  shows "\<exists>cl'. handle_tun_packet enc mem hdr_sid buf cl = Some cl' \<and> client_ok cl'"
proof -
  let ?nid = "if g_next_packet_id cl + 1 = 0 then 1 else g_next_packet_id cl + 1"
  obtain l where l: "g_outq cl = Some l" using assms(1) by (auto simp: client_ok_def)
  have a: "argv_ok (cl_argv cl)" using assms(1) by (simp add: client_ok_def)
  obtain sq l' where "client_tun_loop enc mem hdr_sid (g_next_packet_id cl) buf 0 (cl\<lparr>g_next_packet_id := ?nid\<rparr>) =
      Some (after_tun (cl\<lparr>g_next_packet_id := ?nid\<rparr>) sq l')"
    using client_tun_loop_ok [of "cl\<lparr>g_next_packet_id := ?nid\<rparr>" l enc hdr_sid 0 buf mem "g_next_packet_id cl"] a l assms
    by auto
  moreover have "client_ok (after_tun (cl\<lparr>g_next_packet_id := ?nid\<rparr>) sq l')"
    using assms(1) by (simp add: client_ok_def)
  ultimately show ?thesis using assms(1) by (simp add: handle_tun_packet_def Let_def)
qed

subsection \<open>Datagrams from the server\<close>

definition honest_datagram :: "sodium \<Rightarrow> bytes \<Rightarrow> bool" where
  "honest_datagram so d \<longleftrightarrow>
     (\<forall>k sid q pl. aead_decrypt (aead_dec so) k sid q (drop DATA_HEADER_LEN (take BUFFER_SIZE d)) = Some pl \<longrightarrow>
        unat (total_ip_len (tunnel_header_of pl)) \<le> MAX_PACKET_SIZE)"

lemma handle_udp_packet_ok:
  assumes cl: "client_ok cl" and so: "sodium_lens so" and stk: "length bstk = BUFFER_SIZE" "length pstk = BUFFER_SIZE"
    and hon: "honest_datagram so d"
  shows "\<exists>out ex cl'. handle_udp_packet (aead_dec so) now bstk pstk d cl = Some (out, ex, cl') \<and> client_ok cl' \<and>
    (\<forall>p\<in>set out. length p \<le> MAX_PACKET_SIZE)"
proof -
  let ?got = "take BUFFER_SIZE d"
  let ?buf = "memcpy_at bstk 0 ?got"
  let ?srv = "cl_srv cl"
  let ?dec = "aead_decrypt (aead_dec so) (sv_k_recv ?srv) (sv_session_id ?srv) (packet_seq ?buf) (drop DATA_HEADER_LEN ?got)"
  have cut: "take (length ?got - DATA_HEADER_LEN) (drop DATA_HEADER_LEN ?buf) = drop DATA_HEADER_LEN ?got" by simp
  show ?thesis
  proof (cases "?got = [] \<or> version (proto_header_of ?buf) \<noteq> PKT_VERSION \<or> ptype (proto_header_of ?buf) \<noteq> PKT_TYPE_DATA \<or>
      length ?got \<le> DATA_HEADER_LEN \<or> packet_sid ?buf \<noteq> sv_session_id ?srv \<or>
      check_replay_client (packet_seq ?buf) (cl_rw cl) \<or> ?dec = None")
    case True
    then show ?thesis using cl unfolding handle_udp_packet_def Let_def cut by auto
  next
    case False
    then obtain pl where pl: "?dec = Some pl" by auto
    have len: "length (drop DATA_HEADER_LEN ?got) = length pl + 16" by (rule aead_decrypt_len [OF so pl])
    then have small: "length pl \<le> 1600" "\<not> BUFFER_SIZE < length pl" by (simp_all add: config_defs min_def split: if_splits)
    obtain S where S: "window_rel (cl_rw cl) S" using cl by (auto simp: client_ok_def window_ok_def)
    obtain w where w: "update_window_client (packet_seq ?buf) (cl_rw cl) = Some w" "window_ok w"
      using client_window.update_step [OF S, of "packet_seq ?buf"] False by (auto simp: window_ok_def)
    have ok1: "client_ok (cl\<lparr>cl_rw := w\<rparr>)" using cl w(2) by (simp add: client_ok_def)
    let ?plain = "memcpy_at pstk 0 pl"
    note eq = handle_udp_packet_def [of "aead_dec so" now bstk pstk d cl, unfolded Let_def cut]
    show ?thesis
    proof (cases "length pl < 24 \<or> flags (tunnel_header_of ?plain) \<in> {PKT_DUMMY, PKT_CTRL_KEEPALIVE, PKT_CTRL_DISCONNECT}")
      case True
      then show ?thesis using False pl small w ok1 unfolding eq by (auto simp: sizeof_tunnel_header_def)
    next
      case data: False
      have h: "tunnel_header_of ?plain = tunnel_header_of pl" using data by (simp add: tunnel_header_of_append)
      have avail: "store_fragment now (tunnel_header_of pl) (length pl - 24) (drop 24 ?plain) (cl_table cl) =
          store_fragment now (tunnel_header_of pl) (length (drop 24 pl)) (drop 24 pl) (cl_table cl)"
        using store_fragment_take [of "length pl - 24" "drop 24 ?plain"] data by simp
      have t: "unat (total_ip_len (tunnel_header_of pl)) \<le> MAX_PACKET_SIZE"
        using hon pl unfolding honest_datagram_def by blast
      have tb: "wf_table (cl_table cl)" "bounded_table (cl_table cl)" using cl by (simp_all add: client_ok_def)
      have tl: "length (drop 24 pl) \<le> BUFFER_SIZE" using small(1) by (simp add: BUFFER_SIZE_def)
      obtain out tbl where sf: "store_fragment now (tunnel_header_of pl) (length (drop 24 pl)) (drop 24 pl) (cl_table cl) =
          Some (out, tbl)" "wf_table tbl" "bounded_table tbl" "\<forall>p. out = Some p \<longrightarrow> length p \<le> MAX_PACKET_SIZE"
        using store_fragment_step [OF tb tl t, of now] by blast
      have "client_ok (cl\<lparr>cl_rw := w, cl_table := tbl\<rparr>)" using ok1 sf(2,3) by (simp add: client_ok_def)
      then show ?thesis
        using False pl small w data sf(1,4) h avail unfolding eq
        by (auto simp: sizeof_tunnel_header_def split: option.splits)
    qed
  qed
qed

subsection \<open>The round of the event loop\<close>

lemma rehandshake_outcome:
  fixes so env av locals now2 server_pk srv sa w ka b
  defines "r \<equiv> rehandshake_client_with_state so env av locals now2 server_pk srv sa w ka b"
  assumes "sodium_lens so" "length (ce_stack env) = MSG2_LENGTH"
  shows "rr_rc r = -1 \<and> sv_session_id (rr_srv r) = sv_session_id srv \<and> rr_sender r = sa \<and> rr_rw r = w \<or>
    rr_rc r = 0 \<and> length (sv_session_id (rr_srv r)) = 16 \<and> rr_rw r = replay_window_zero \<and>
    rr_sender r = sa\<lparr>pending_k_send := sv_k_send (rr_srv r), pending_session_id := sv_session_id (rr_srv r),
      pending_rekey := True\<rparr> \<and> sv_send_seq (rr_srv r) = 0"
proof -
  obtain rc sent new b2 where h: "client_handshake so env av server_pk locals
      (case b of None \<Rightarrow> Some [] | Some ps \<Rightarrow> Some ps) = (rc, sent, new, b2)" by (metis prod_cases4)
  have "length (ho_session_id new) = 16" if "rc = 0"
    using client_handshake_accepted [OF h [unfolded that] assms(3)] assms(2)
    by (auto simp: client_keys_def handshake_sid_def sodium_lens_def SESSION_ID_LEN_def)
  then show ?thesis unfolding r_def rehandshake_client_with_state_def Let_def h by simp
qed

lemma tick_rehandshake_ok:
  assumes "client_ok cl" "sodium_lens so" "length (ce_stack (te_hs te)) = MSG2_LENGTH"
    "tick_rehandshake so te cl = (hs, cl')"
  shows "client_ok cl'"
proof -
  obtain a srv where sa: "should_attempt_rehandshake (te_now te) (cl_srv cl) = (a, srv)" by fastforce
  have sid: "sv_session_id srv = sv_session_id (cl_srv cl)"
    using sa by (auto simp: should_attempt_rehandshake_def split: if_splits rehandshake_state.splits)
  have ok1: "client_ok (cl\<lparr>cl_srv := srv\<rparr>)" using assms(1) sid by (simp add: client_ok_def)
  let ?r = "rehandshake_client_with_state so (te_hs te) (cl_argv cl) (te_locals te) (te_later te) (sv_server_pk srv) srv
      (cl_sender cl) (cl_rw cl) (last_server_keepalive_time cl) (cl_buffer cl)"
  have "client_ok (cl\<lparr>cl_srv := rr_srv ?r, cl_sender := rr_sender ?r, cl_rw := rr_rw ?r,
      last_server_keepalive_time := rr_keepalive ?r, cl_buffer := rr_buffer ?r\<rparr>)"
    using assms(1) rehandshake_outcome [OF assms(2,3), of "cl_argv cl" "te_locals te" "te_later te" "sv_server_pk srv" srv
        "cl_sender cl" "cl_rw cl" "last_server_keepalive_time cl" "cl_buffer cl"] sid
    by (auto simp: client_ok_def sender_ok_def)
  then show ?thesis
    using assms(1,4) ok1 sa by (auto simp: tick_rehandshake_def Let_def split: if_splits)
qed

definition te_ok :: "tick_env \<Rightarrow> bool" where
  "te_ok te \<longleftrightarrow> length (ce_stack (te_hs te)) = MSG2_LENGTH \<and> length (te_sid te) = 16 \<and>
     length (te_bstk te) = BUFFER_SIZE \<and> length (te_pstk te) = BUFFER_SIZE"

text \<open>What the two descriptors deliver: packets that fit the read buffer, datagrams of an honest server.\<close>

fun honest_event :: "sodium \<Rightarrow> fd_event \<Rightarrow> bool" where
  "honest_event so (Tun_ready buf) \<longleftrightarrow> length buf \<le> BUFFER_SIZE"
| "honest_event so (Udp_ready ds) \<longleftrightarrow> (\<forall>d\<in>set ds. honest_datagram so d)"

lemma drain_udp_ok:
  assumes "client_ok cl" "sodium_lens so" "te_ok te" "\<forall>d\<in>set ds. honest_datagram so d"
  shows "\<exists>out ex cl'. drain_udp (aead_dec so) te ds cl = Some (out, ex, cl') \<and> client_ok cl' \<and>
    (\<forall>p\<in>set out. length p \<le> MAX_PACKET_SIZE)"
  using assms(1,4)
proof (induction ds arbitrary: cl)
  case (Cons d ds)
  have stk: "length (te_bstk te) = BUFFER_SIZE" "length (te_pstk te) = BUFFER_SIZE" using assms(3) by (simp_all add: te_ok_def)
  obtain out ex cl1 where h: "handle_udp_packet (aead_dec so) (te_now te) (te_bstk te) (te_pstk te) d cl = Some (out, ex, cl1)"
    "client_ok cl1" "\<forall>p\<in>set out. length p \<le> MAX_PACKET_SIZE"
    using handle_udp_packet_ok [OF Cons.prems(1) assms(2) stk, of d "te_now te"] Cons.prems(2) by auto
  then show ?case using Cons.IH [OF h(2)] Cons.prems(2) by (cases ex) fastforce+
qed auto

lemma handle_events_ok:
  assumes "client_ok cl" "sodium_lens so" "te_ok te" "\<forall>e\<in>set es. honest_event so e"
  shows "\<exists>out ex cl'. handle_events so te es cl = Some (out, ex, cl') \<and> client_ok cl' \<and>
    (\<forall>p\<in>set out. length p \<le> MAX_PACKET_SIZE)"
  using assms(1,4)
proof (induction es arbitrary: cl)
  case (Cons e es)
  show ?case
  proof (cases e)
    case (Tun_ready buf)
    have sid: "length (te_sid te) = 16" using assms(3) by (simp add: te_ok_def)
    obtain cl1 where "handle_tun_packet (aead_enc so) (te_mem te) (te_sid te) buf cl = Some cl1" "client_ok cl1"
      using handle_tun_packet_ok [OF Cons.prems(1) _ sid, of "aead_enc so" buf "te_mem te"] Cons.prems(2) assms(2) Tun_ready
      by (auto simp: sodium_lens_def)
    then show ?thesis using Cons.IH Cons.prems(2) Tun_ready by simp
  next
    case (Udp_ready ds)
    have "\<forall>d\<in>set (take MAX_BURST ds). honest_datagram so d"
      using Cons.prems(2) Udp_ready by (auto dest: in_set_takeD)
    then obtain out ex cl1 where h: "drain_udp (aead_dec so) te (take MAX_BURST ds) cl = Some (out, ex, cl1)"
      "client_ok cl1" "\<forall>p\<in>set out. length p \<le> MAX_PACKET_SIZE"
      using drain_udp_ok [OF Cons.prems(1) assms(2,3)] by blast
    define cl2 where "cl2 = (if disconnect_requested cl1 then cl1\<lparr>last_server_keepalive_time := te_later te\<rparr> else cl1)"
    have "client_ok cl2" using h(2) by (simp add: cl2_def)
    then show ?thesis using h Cons.IH [of cl2] Cons.prems(2) Udp_ready
      by (cases ex) (fastforce simp: cl2_def [symmetric])+
  qed
qed auto


definition sample_client :: client where
  "sample_client = \<lparr>cl_argv = sample_argv, cl_srv = sample_srv,
     cl_sender = \<lparr>sa_session_id = replicate 16 7, sa_k_send = replicate 32 1, sa_interval = Timespec 0 1000000,
       pending_k_send = replicate 32 0, pending_session_id = replicate 16 0, pending_rekey = False\<rparr>,
     g_outq = Some lanes_empty, cl_rw = replay_window_zero, cl_table = reassembly_init, g_next_packet_id = 1,
     g_session_id = replicate 16 7, cl_dummy_payload = dummy_plain 1600,
     cl_final_pkt = proto_header_bytes data_header @ replicate 16 7 @ replicate 1578 0, cl_static_len = 22,
     data_REAL = 0, data_DUMMY = 0, last_double_dummy_real = 0, last_server_keepalive_time = 1000,
     disconnect_requested = False, last_keepalive = 1000, last_sweep = 1000, last_rehandshake = 1000,
     cl_buffer = Some []\<rparr>"

lemma sample_client_ok: "client_ok sample_client"
  by (simp add: client_ok_def sample_client_def argv_ok_def sample_argv_def sample_srv_def sender_ok_def
      wf_table_init bounded_init dummy_plain_length config_defs)

definition sample_te :: tick_env where
  "sample_te = \<lparr>te_now = 1030, te_later = 1031, te_hs = sample_cenv sample_msg2, te_locals = sample_out,
     te_mem = (\<lambda>_. (True, True)), te_sid = replicate 16 0, te_bstk = replicate 1600 0, te_pstk = replicate 1600 0\<rparr>"

lemma sample_te_ok: "te_ok sample_te"
  by (simp add: te_ok_def sample_te_def sample_cenv_def config_defs)

lemma sample_honest_datagram: "honest_datagram sample_sodium (sample_data q)"
proof -
  have "take BUFFER_SIZE (sample_data q) = sample_data q" by (simp add: BUFFER_SIZE_def)
  then show ?thesis by (simp add: honest_datagram_def config_defs sample_decrypts)
qed


end
