(* ===== verification/Tunnel.thy ===== *)
theory Tunnel
  imports Client_Data
begin

text \<open>
  The tunnel from end to end. The receiving side of the tunnel is an interface with one law: a
  fresh data packet that decrypts hands its fragment to the reassembly table. The server's
  \<open>inbound_session\<close> and the client's \<open>handle_udp_packet\<close> both provide it, so that an IP
  packet cut, encrypted and numbered by one end is written unchanged by the other end. The last
  section is about the sequence numbers of the client across a key rotation.
\<close>

section \<open>Receiving a sequence of datagrams\<close>

fun run_receiver :: "(bytes \<Rightarrow> 's \<Rightarrow> (bytes list \<times> 's) option) \<Rightarrow> bytes list \<Rightarrow> 's \<Rightarrow> (bytes list \<times> 's) option" where
  "run_receiver receive [] s = Some ([], s)"
| "run_receiver receive (d # ds) s =
     (case receive d s of
        None \<Rightarrow> None
      | Some (out, s1) \<Rightarrow> map_option (\<lambda>(outs, s2). (out @ outs, s2)) (run_receiver receive ds s1))"

fun seal_packets :: "aead_fn \<Rightarrow> bytes \<Rightarrow> bytes \<Rightarrow> u64 \<Rightarrow> bytes list \<Rightarrow> bytes list" where
  "seal_packets enc key sid q [] = []"
| "seal_packets enc key sid q (p # ps) =
     data_packet sid q (the (aead_encrypt enc key sid q p)) # seal_packets enc key sid (q + 1) ps"

lemma seal_all_packets:
  "map snd (seal_all enc s q ps) = seal_packets enc (k_send s) (session_id s) q ps"
  by (induction ps arbitrary: q) auto

text \<open>A plaintext that holds a fragment, not a control message.\<close>

definition data_plain :: "bytes \<Rightarrow> bool" where
  "data_plain p \<longleftrightarrow> 24 \<le> length p \<and> length p \<le> 1200 \<and> flags (tunnel_header_of p) \<in> {0, 0x8000}"

locale tunnel_end =
  fixes dec :: aead_fn and key sid :: bytes and now :: time_t
    and receive :: "bytes \<Rightarrow> 's \<Rightarrow> (bytes list \<times> 's) option"
    and keyed :: "'s \<Rightarrow> bool"
    and edge :: "'s \<Rightarrow> u64"
    and table :: "'s \<Rightarrow> reassembly_entry list"
  assumes receive_data: "keyed s \<Longrightarrow> edge s < q \<Longrightarrow> data_plain pl \<Longrightarrow> aead_decrypt dec key sid q c = Some pl \<Longrightarrow>
      length c = length pl + 16 \<Longrightarrow>
      store_fragment now (tunnel_header_of pl) (length pl - 24) (drop 24 pl) (table s) = Some (out, tbl') \<Longrightarrow>
      \<exists>s'. receive (data_packet sid q c) s = Some (case out of None \<Rightarrow> [] | Some p \<Rightarrow> [p], s') \<and>
        keyed s' \<and> edge s' = q \<and> table s' = tbl'"
begin

lemma run_sealed:
  assumes "keyed s" "edge s < q" "unat q + length ps < 2 ^ 64" "\<forall>p\<in>set ps. data_plain p"
    "aead_correct enc dec" "enc_total enc" "deliver now ps (table s) = Some (outs, tbl')"
  shows "\<exists>s'. run_receiver receive (seal_packets enc key sid q ps) s = Some (outs, s') \<and> keyed s' \<and> table s' = tbl'"
  using assms
proof (induction ps arbitrary: s q outs)
  case (Cons p ps)
  have p: "data_plain p" using Cons.prems(4) by simp
  obtain c where c: "aead_encrypt enc key sid q p = Some c"
    using Cons.prems(6) unfolding enc_total_def aead_encrypt_def Let_def by blast
  note rt = aead_roundtrip [OF Cons.prems(5) c]
  have sub: "sub64 (length p) 24 = length p - 24" using p by (simp add: data_plain_def sub64_small)
  obtain out tbl1 outs1 where d: "store_fragment now (tunnel_header_of p) (length p - 24) (drop 24 p) (table s) = Some (out, tbl1)"
    "deliver now ps tbl1 = Some (outs1, tbl')" "outs = (case out of None \<Rightarrow> outs1 | Some x \<Rightarrow> x # outs1)"
    using Cons.prems(7) by (auto simp: sub sizeof_tunnel_header_def split: option.splits)
  obtain s1 where s1: "receive (data_packet sid q c) s = Some (case out of None \<Rightarrow> [] | Some x \<Rightarrow> [x], s1)"
    "keyed s1" "edge s1 = q" "table s1 = tbl1"
    using receive_data [OF Cons.prems(1,2) p rt d(1)] by blast
  have q1: "unat (q + 1) = unat q + 1" using Cons.prems(3) by (simp add: unat_add_lem [THEN iffD1] )
  have "edge s1 < q + 1" using s1(3) q1 by (simp add: word_less_nat_alt)
  moreover have "unat (q + 1) + length ps < 2 ^ 64" using Cons.prems(3) q1 by simp
  ultimately obtain s' where "run_receiver receive (seal_packets enc key sid (q + 1) ps) s1 = Some (outs1, s')"
    "keyed s'" "table s' = tbl'"
    using Cons.IH [of s1 "q + 1" outs1] s1 d(2) Cons.prems(4-6) by auto
  then show ?case using c s1(1) d(3) by (cases out) auto
qed auto

end

section \<open>The two receivers\<close>

text \<open>Both windows slide to a newer number.\<close>

lemma newer_accepted:
  assumes "recv_max w < q" "window_ok w"
  shows "\<not> check_replay q w" "\<exists>w'. update_window q w = Some w' \<and> recv_max w' = q \<and> window_ok w'"
proof -
  obtain S where S: "window_rel w S" using assms(2) by (auto simp: window_ok_def)
  show fresh: "\<not> check_replay q w" using assms(1) by (auto simp: check_replay_def)
  obtain w' where w': "update_window q w = Some w'" "window_ok w'"
    using server_window.update_step [OF S fresh] by (auto simp: window_ok_def)
  have "length (bitmap w) = BITMAP_WORDS" using S by (simp add: window_rel_def)
  then show "\<exists>w'. update_window q w = Some w' \<and> recv_max w' = q \<and> window_ok w'"
    using w' update_window_newer [OF assms(1)] by auto
qed

definition server_keyed :: "sodium \<Rightarrow> bytes \<Rightarrow> bytes \<Rightarrow> bytes \<Rightarrow> nat \<Rightarrow> server \<Rightarrow> bool" where
  "server_keyed so stk key sid i st \<longleftrightarrow>
     length stk = BUFFER_SIZE \<and> length sid = 16 \<and> i < length (sessions st) \<and>
     session_id (sessions st ! i) = sid \<and> k_recv (sessions st ! i) = key \<and> window_ok (rw (sessions st ! i))"

interpretation server_end: tunnel_end "aead_dec so" key sid now "\<lambda>d st. inbound_session so now stk d i st"
    "server_keyed so stk key sid i" "\<lambda>st. recv_max (rw (sessions st ! i))" "\<lambda>st. g_reassembly_table (sessions st ! i)"
  for so key sid now stk i
proof unfold_locales
  fix st q pl c out tbl'
  assume k: "server_keyed so stk key sid i st" and q: "recv_max (rw (sessions st ! i)) < q" and p: "data_plain pl"
    and d: "aead_decrypt (aead_dec so) key sid q c = Some pl" and c: "length c = length pl + 16"
    and sf: "store_fragment now (tunnel_header_of pl) (length pl - 24) (drop 24 pl)
      (g_reassembly_table (sessions st ! i)) = Some (out, tbl')"
  let ?s = "sessions st ! i" and ?d = "data_packet sid q c"
  have s: "length stk = 1600" "length sid = 16" "i < length (sessions st)" "session_id ?s = sid" "k_recv ?s = key"
    "window_ok (rw ?s)" using k by (simp_all add: server_keyed_def BUFFER_SIZE_def)
  obtain w where w: "update_window q (rw ?s) = Some w" "recv_max w = q" "window_ok w"
    using newer_accepted(2) [OF q s(6)] by blast
  have l: "length ?d = 30 + length c" "24 \<le> length pl" "length pl \<le> 1200" using s(2) p by (simp_all add: data_plain_def)
  have f: "drop 30 ?d = c" "packet_seq ?d = q"
    using data_packet_fields [OF s(2), of q c] by (simp_all add: config_defs)
  have fl: "\<not> (flags (tunnel_header_of pl) = PKT_DUMMY \<or> flags (tunnel_header_of pl) = PKT_CTRL_KEEPALIVE)"
    "flags (tunnel_header_of pl) \<noteq> PKT_CTRL_DISCONNECT"
    using p by (auto simp: data_plain_def config_defs)
  have len: "30 \<le> length ?d" "length ?d \<le> 1600" "length pl + 16 = length ?d - 30" using l c by simp_all
  note fresh = newer_accepted(1) [OF q s(6)]
  note acc = inbound_session_accept [OF len(1,2) s(1), of st i so pl w now, unfolded f s(4,5),
      OF fresh d w(1) len(3) l(2) s(3)]
  have "inbound_session so now stk ?d i st =
      Some (case out of None \<Rightarrow> [] | Some p \<Rightarrow> [p],
        st\<lparr>sessions := (sessions st)[i := ?s\<lparr>last_activity := now, rw := w, g_reassembly_table := tbl'\<rparr>]\<rparr>)"
    unfolding acc using fl sf by (simp add: Let_def)
  then show "\<exists>s'. inbound_session so now stk ?d i st = Some (case out of None \<Rightarrow> [] | Some p \<Rightarrow> [p], s') \<and>
      server_keyed so stk key sid i s' \<and> recv_max (rw (sessions s' ! i)) = q \<and> g_reassembly_table (sessions s' ! i) = tbl'"
    using s w by (simp add: server_keyed_def BUFFER_SIZE_def)
qed

text \<open>The client's handler, for a datagram that does not end the process.\<close>

definition client_receive :: "aead_fn \<Rightarrow> time_t \<Rightarrow> bytes \<Rightarrow> bytes \<Rightarrow> bytes \<Rightarrow> client \<Rightarrow> (bytes list \<times> client) option" where
  "client_receive dec now bstk pstk d cl =
     (case handle_udp_packet dec now bstk pstk d cl of
        None \<Rightarrow> None
      | Some (out, ex, cl') \<Rightarrow> if ex then None else Some (out, cl'))"

definition client_keyed :: "bytes \<Rightarrow> bytes \<Rightarrow> client \<Rightarrow> bool" where
  "client_keyed key sid cl \<longleftrightarrow>
     length sid = 16 \<and> sv_session_id (cl_srv cl) = sid \<and> sv_k_recv (cl_srv cl) = key \<and> window_ok (cl_rw cl)"

interpretation client_end: tunnel_end dec key sid now "client_receive dec now bstk pstk"
    "client_keyed key sid" "\<lambda>cl. recv_max (cl_rw cl)" cl_table
  for dec key sid now bstk pstk
proof unfold_locales
  fix cl q pl c out tbl'
  assume k: "client_keyed key sid cl" and q: "recv_max (cl_rw cl) < q" and p: "data_plain pl"
    and d: "aead_decrypt dec key sid q c = Some pl" and c: "length c = length pl + 16"
    and sf: "store_fragment now (tunnel_header_of pl) (length pl - 24) (drop 24 pl) (cl_table cl) = Some (out, tbl')"
  let ?d = "data_packet sid q c"
  have s: "length sid = 16" "sv_session_id (cl_srv cl) = sid" "sv_k_recv (cl_srv cl) = key" "window_ok (cl_rw cl)"
    using k by (simp_all add: client_keyed_def)
  have l: "length ?d = 30 + length c" "24 \<le> length pl" "length pl \<le> 1200" using s(1) p by (simp_all add: data_plain_def)
  have cut: "take BUFFER_SIZE ?d = ?d" "drop 30 ?d = c"
    using l c data_packet_fields(4) [OF s(1), of q c] by (simp_all add: config_defs)
  have f: "proto_header_of (?d @ r) = data_header" "packet_sid (?d @ r) = sid" "packet_seq (?d @ r) = q" for r
    using data_packet_fields [OF s(1), of q "c @ r"] by (simp_all add: data_packet_def)
  obtain w where w: "update_window_client q (cl_rw cl) = Some w" "recv_max w = q" "window_ok w"
    using newer_accepted(2) [OF q s(4)] by (auto simp: client_window_same)
  have fresh: "\<not> check_replay_client q (cl_rw cl)" using newer_accepted(1) [OF q s(4)] by (simp add: client_window_same)
  have th: "tunnel_header_of (pl @ r) = tunnel_header_of pl" for r using l(2) by (simp add: tunnel_header_of_append)
  have st: "store_fragment now (tunnel_header_of pl) (length pl - 24) (drop 24 pl @ r) (cl_table cl) = Some (out, tbl')" for r
    using store_fragment_take [of "length pl - 24" "drop 24 pl @ r"] sf by simp
  have "handle_udp_packet dec now bstk pstk ?d cl =
      Some (case out of None \<Rightarrow> [] | Some p \<Rightarrow> [p], False, cl\<lparr>cl_rw := w, cl_table := tbl'\<rparr>)"
    using s l c cut f w(1) fresh d p th st unfolding handle_udp_packet_def Let_def
    by (auto simp: data_plain_def config_defs data_header_def)
  then show "\<exists>s'. client_receive dec now bstk pstk ?d cl = Some (case out of None \<Rightarrow> [] | Some p \<Rightarrow> [p], s') \<and>
      client_keyed key sid s' \<and> recv_max (cl_rw s') = q \<and> cl_table s' = tbl'"
    using s w by (simp add: client_receive_def client_keyed_def)
qed

section \<open>An IP packet through the tunnel\<close>

lemma fragment_plain:
  assumes ok: "frag_ok frag" and sid: "length hdr_sid = 16" and stk: "length stk = MAX_FRAG" and off: "off \<le> length buf"
    and mf: "make_fragment frag pad ident hdr_sid stk buf off = (b, rl)"
  shows "data_plain (take rl b)"
proof -
  have "24 + length (slice buf off (chunk_len frag (length buf) off)) + padding_len frag pad (length buf) off \<le> 1200"
    using ok by (auto simp: chunk_len_ok [OF ok] padding_len_def slice_def frag_ok_def)
  then show ?thesis
    using sid by (simp add: data_plain_def make_fragment_bytes(1) [OF ok sid stk off mf] fragment_header_def)
qed

lemma fragment_list_plain:
  assumes "frag_ok frag" "length hdr_sid = 16" "length stk = MAX_FRAG"
  shows "\<forall>p\<in>set (fragment_list frag pad ident hdr_sid stk buf off). data_plain p"
  using assms
proof (induction frag pad ident hdr_sid stk buf off rule: fragment_list.induct [case_names step])
  case (step frag pad ident hdr_sid stk buf off)
  show ?case
  proof (cases "off < length buf \<and> 0 < chunk_len frag (length buf) off")
    case True
    obtain b rl where mf: "make_fragment frag pad ident hdr_sid stk buf off = (b, rl)" by fastforce
    have "data_plain (take rl b)" using fragment_plain [OF step.prems _ mf] True by simp
    then show ?thesis using step.IH [OF True step.prems] True mf by (subst fragment_list.simps) simp
  next
    case False
    then show ?thesis by (subst fragment_list.simps) auto
  qed
qed

lemma fragment_list_length: "length (fragment_list frag pad ident hdr_sid stk buf off) \<le> length buf - off"
proof (induction frag pad ident hdr_sid stk buf off rule: fragment_list.induct [case_names step])
  case (step frag pad ident hdr_sid stk buf off)
  show ?case
  proof (cases "off < length buf \<and> 0 < chunk_len frag (length buf) off")
    case True
    then show ?thesis using step.IH [OF True] by (subst fragment_list.simps) auto
  next
    case False
    then show ?thesis by (subst fragment_list.simps) auto
  qed
qed

text \<open>A packet fits the table of the receiver: no fragment of the same number waits, and a slot is free.\<close>

definition room_for :: "u16 \<Rightarrow> reassembly_entry list \<Rightarrow> bool" where
  "room_for ident tbl \<longleftrightarrow> wf_table tbl \<and> no_entry ident tbl \<and> (\<exists>e\<in>set tbl. \<not> is_active e)"

context tunnel_end
begin

lemma packet_received:
  assumes "keyed s" "edge s < q" "unat q + length buf < 2 ^ 64" "room_for ident (table s)"
    and frag: "frag_ok frag" "length hdr_sid = 16" "length stk = MAX_FRAG" "0 < length buf" "length buf \<le> BUFFER_SIZE"
    and enc: "aead_correct enc dec" "enc_total enc"
  shows "\<exists>s'. run_receiver receive (seal_packets enc key sid q (fragment_list frag pad ident hdr_sid stk buf 0)) s =
      Some ([buf], s') \<and> keyed s' \<and> wf_table (table s') \<and> no_entry ident (table s')"
proof -
  let ?ps = "fragment_list frag pad ident hdr_sid stk buf 0"
  obtain tbl' where d: "deliver now ?ps (table s) = Some ([buf], tbl')" "wf_table tbl'" "no_entry ident tbl'"
    using deliver_fragments [OF frag, of 0 0 ident "table s" now pad] assms(4) frag(4)
    by (auto simp: progress_def room_for_def)
  have "unat q + length ?ps < 2 ^ 64" using fragment_list_length [of frag pad ident hdr_sid stk buf 0] assms(3) by simp
  from run_sealed [OF assms(1,2) this fragment_list_plain [OF frag(1-3)] enc d(1)] d(2,3)
  show ?thesis by auto
qed

end

section \<open>A packet for the client\<close>

text \<open>
  Slot \<open>i\<close> of the server's table and the client hold the two ends of one tunnel: the same session
  identifier, the sending key of each is the receiving key of the other, and the replay windows
  are those of two histories of accepted numbers.
\<close>

definition connected :: "server \<Rightarrow> nat \<Rightarrow> client \<Rightarrow> bool" where
  "connected st i cl \<longleftrightarrow>
     (let s = sessions st ! i; srv = cl_srv cl
      in i < length (sessions st) \<and> active s \<and> length (session_id s) = 16 \<and> sv_session_id srv = session_id s \<and>
         sv_k_recv srv = k_send s \<and> sv_k_send srv = k_recv s \<and> window_ok (rw s) \<and> window_ok (cl_rw cl))"

lemma connected_keyed:
  assumes "connected st i cl"
  shows "client_keyed (k_send (sessions st ! i)) (session_id (sessions st ! i)) cl"
    "length stk = BUFFER_SIZE \<Longrightarrow> server_keyed so stk (sv_k_send (cl_srv cl)) (sv_session_id (cl_srv cl)) i st"
  using assms by (auto simp: connected_def client_keyed_def server_keyed_def Let_def)

lemma outbound_sealed:
  assumes "sessions_ok (sessions st)" "aead_len enc" "enc_total enc" "length stk = MAX_FRAG" "20 \<le> length buf"
    and "session_by_vpnip (slice buf 16 4) (sessions st) = Some i" "argv_CBR (sessions st ! i) \<noteq> char_Y"
    and "\<And>off. fst (mem off)"
  shows "\<exists>st'. handle_outbound_tun_buf enc mem stk buf st =
    Some (seal_all enc (sessions st ! i) (send_seq (sessions st ! i))
      (session_pieces (sessions st ! i) (fst (fragment_next_packet_id (next_packet_id st))) stk buf 0), st')"
proof -
  obtain ident nid where nid: "fragment_next_packet_id (next_packet_id st) = (ident, nid)" by fastforce
  note i = session_by_vpnip_Some [OF assms(1,6)]
  note s = slot_active [OF sessions_okD [OF assms(1) i(1)] i(2)]
  show ?thesis
    using outbound_loop_sealed [OF s(2) assms(7,2,3) _ assms(4), where mem = mem and off = 0 and buf = buf and
        ident = ident and m = "stats st"] assms(5,6,8) nid
    by (simp add: handle_outbound_tun_buf_def Let_def)
qed

lemma seal_all_addr: "fst ` set (seal_all enc s q ps) \<subseteq> {client_addr s}"
  by (induction ps arbitrary: q) auto

text \<open>The sample client and slot 3 of the sample server, after the first packet of each.\<close>

definition sample_tunnel_server :: server where
  "sample_tunnel_server = sample_server\<lparr>sessions := sample_table[3 := sample_session\<lparr>send_seq := 1\<rparr>]\<rparr>"

lemma sample_tunnel_session:
  "sessions sample_tunnel_server ! 3 = sample_session\<lparr>send_seq := 1\<rparr>" "length (sessions sample_tunnel_server) = 250"
  by (simp_all add: sample_tunnel_server_def sample_table_length)

lemma sample_tunnel_sessions_ok: "sessions_ok (sessions sample_tunnel_server)"
proof -
  have "slot_ok 3 (sample_session\<lparr>send_seq := 1\<rparr>)" using sample_session_ok by simp
  then show ?thesis by (simp add: sample_tunnel_server_def sessions_ok_update [OF sample_table_ok])
qed

lemma sample_connected: "connected sample_tunnel_server 3 sample_client"
  by (simp add: connected_def sample_tunnel_session sample_client_def Let_def sample_srv_def)

lemma sample_room: "room_for ident reassembly_init"
  by (auto simp: room_for_def wf_table_init) (simp add: reassembly_init_def config_defs)



section \<open>A packet from the client\<close>

fun sealed_nodes :: "aead_fn \<Rightarrow> bytes \<Rightarrow> bytes \<Rightarrow> pkt_priority \<Rightarrow> u64 \<Rightarrow> bytes list \<Rightarrow> out_node list" where
  "sealed_nodes enc key sid prio q [] = []"
| "sealed_nodes enc key sid prio q (p # ps) =
     \<lparr>pkt = data_packet sid q (the (aead_encrypt enc key sid q p)), seq = q, priority = prio\<rparr>
     # sealed_nodes enc key sid prio (q + 1) ps"

lemma sealed_nodes_packets: "map pkt (sealed_nodes enc key sid prio q ps) = seal_packets enc key sid q ps"
  by (induction ps arbitrary: q) auto

definition append_lanes :: "pkt_priority \<Rightarrow> out_node list \<Rightarrow> packet_lanes \<Rightarrow> packet_lanes" where
  "append_lanes prio ns l =
     (case prio of PKT_PRIO_HIGH \<Rightarrow> l\<lparr>high := high l @ ns\<rparr> | PKT_PRIO_NORMAL \<Rightarrow> l\<lparr>normal := normal l @ ns\<rparr>)"

abbreviation packet_prio :: "bytes \<Rightarrow> pkt_priority" where
  "packet_prio buf \<equiv> (if interactive buf then PKT_PRIO_HIGH else PKT_PRIO_NORMAL)"

lemma push_outq_room:
  assumes "lanes_size l < 64"
  shows "snd (push_outq True p q buf (Some l)) =
    Some (append_lanes (packet_prio buf) [\<lparr>pkt = p, seq = q, priority = packet_prio buf\<rparr>] l)"
    "lanes_size (append_lanes prio ns l) = lanes_size l + length ns"
    "append_lanes prio ms (append_lanes prio ns l) = append_lanes prio (ns @ ms) l"
  using assms
  by (auto simp: push_outq_def lanes_push_def append_lanes_def bounded_snoc_def lanes_size_def config_defs
      split: pkt_priority.split)

lemma client_tun_loop_sealed:
  assumes "argv_ok (cl_argv cl)" "g_outq cl = Some l" "aead_len enc" "enc_total enc" "length hdr_sid = 16"
    "off \<le> length buf" "length buf \<le> BUFFER_SIZE" "\<And>o1. mem o1 = (True, True)"
    "lanes_size l + length (client_pieces (cl_argv cl) ident hdr_sid buf off) \<le> 64"
  shows "client_tun_loop enc mem hdr_sid ident buf off cl =
    (let ps = client_pieces (cl_argv cl) ident hdr_sid buf off; srv = cl_srv cl
     in Some (after_tun cl (sv_send_seq srv + of_nat (length ps))
          (append_lanes (packet_prio buf)
             (sealed_nodes enc (sv_k_send srv) (sv_session_id srv) (packet_prio buf) (sv_send_seq srv) ps) l)))"
  using assms
proof (induction "length buf - off" arbitrary: off cl l rule: less_induct)
  case less
  let ?srv = "cl_srv cl" and ?prio = "packet_prio buf"
  show ?case
  proof (cases "off < length buf")
    case False
    then have off: "off = length buf" using less.prems(6) by simp
    have "append_lanes ?prio [] l = l" by (simp add: append_lanes_def)
    then show ?thesis
      using less.prems(2) by (simp add: off client_pieces_end client_tun_loop.simps Let_def)
  next
    case True
    obtain b rl n where cf: "client_fragment (cl_argv cl) ident hdr_sid buf off = (b, rl, n)"
      by (metis prod_cases3)
    note st = client_pieces_step [OF less.prems(1,5) True less.prems(7) cf]
    note f = argv_frag [OF less.prems(1)]
    obtain out where out: "aead_encrypt enc (sv_k_send ?srv) (sv_session_id ?srv) (sv_send_seq ?srv) (take rl b) = Some out"
      using less.prems(4) unfolding enc_total_def aead_encrypt_def Let_def by blast
    have small: "\<not> BUFFER_SIZE < length out"
      using aead_encrypt_len [OF less.prems(3) out] st(4) unfolding BUFFER_SIZE_def by linarith
    let ?x = "\<lparr>pkt = data_packet (sv_session_id ?srv) (sv_send_seq ?srv) out, seq = sv_send_seq ?srv, priority = ?prio\<rparr>"
    let ?l = "append_lanes ?prio [?x] l"
    let ?cl = "after_tun cl (sv_send_seq ?srv + 1) ?l"
    have room: "lanes_size l < 64" using less.prems(9) st(1) by simp
    note push = push_outq_room [OF room]
    have step: "client_tun_loop enc mem hdr_sid ident buf off cl = client_tun_loop enc mem hdr_sid ident buf (off + n) ?cl"
      using True cf f less.prems(2,8) out small push(1)
      by (subst client_tun_loop.simps) (simp add: Let_def config_defs)
    have dec: "length buf - (off + n) < length buf - off" using st(2) True by linarith
    have IH: "client_tun_loop enc mem hdr_sid ident buf (off + n) ?cl =
        (let ps = client_pieces (cl_argv ?cl) ident hdr_sid buf (off + n); srv = cl_srv ?cl
         in Some (after_tun ?cl (sv_send_seq srv + of_nat (length ps))
              (append_lanes ?prio
                 (sealed_nodes enc (sv_k_send srv) (sv_session_id srv) ?prio (sv_send_seq srv) ps) ?l)))"
      by (rule less.hyps [OF dec]) (use less.prems st push(2) in auto)
    show ?thesis
      unfolding step IH using st(1) out by (simp add: Let_def push(3) add.assoc)
  qed
qed

text \<open>A packet of at most 1600 bytes has at most six fragments, so no lane overflows.\<close>

lemma fragment_list_count:
  assumes "frag_ok frag"
  shows "length (fragment_list frag pad ident hdr_sid stk buf off) * (nat frag - 24) < (length buf - off) + (nat frag - 24)"
  using assms
proof (induction frag pad ident hdr_sid stk buf off rule: fragment_list.induct [case_names step])
  case (step frag pad ident hdr_sid stk buf off)
  let ?m = "nat frag - 24" and ?n = "chunk_len frag (length buf) off"
  have m: "0 < ?m" using step.prems by (auto simp: frag_ok_def)
  have n: "?n = min ?m (length buf - off)" by (rule chunk_len_ok [OF step.prems])
  show ?case
  proof (cases "off < length buf \<and> 0 < ?n")
    case True
    let ?k = "length (fragment_list frag pad ident hdr_sid stk buf (off + ?n))"
    have eq: "length (fragment_list frag pad ident hdr_sid stk buf off) = Suc ?k"
      using True by (subst fragment_list.simps) simp
    have IH: "?k * ?m < (length buf - (off + ?n)) + ?m" by (rule step.IH [OF True step.prems])
    have "?k * ?m < length buf - off"
    proof (cases "length buf - off \<le> ?m")
      case True
      then have "off + ?n = length buf" using n \<open>off < length buf \<and> 0 < ?n\<close> by simp
      then have "?k = 0" by (subst fragment_list.simps) simp
      then show ?thesis using \<open>off < length buf \<and> 0 < ?n\<close> by simp
    next
      case False
      then have "(length buf - (off + ?n)) + ?m = length buf - off" using n by simp
      then show ?thesis using IH by simp
    qed
    then show ?thesis unfolding eq mult_Suc by linarith
  next
    case False
    then have "fragment_list frag pad ident hdr_sid stk buf off = []" by (subst fragment_list.simps) auto
    then show ?thesis using m by simp
  qed
qed

lemma client_pieces_few:
  assumes "argv_ok av" "length buf \<le> BUFFER_SIZE"
  shows "length (client_pieces av ident hdr_sid buf 0) \<le> 6"
proof (rule ccontr)
  note f = argv_frag [OF assms(1)]
  let ?k = "length (client_pieces av ident hdr_sid buf 0)" and ?m = "nat (ca_FRAG av) - 24"
  assume "\<not> ?k \<le> 6"
  then have "7 * ?m \<le> ?k * ?m" by (intro mult_le_mono1) simp
  moreover have "?k * ?m < 1600 + ?m"
    using fragment_list_count [OF f(4), of "ca_PAD av = char_Y" ident hdr_sid "replicate MAX_FRAG 0" buf 0] assms(2)
    unfolding client_pieces_def BUFFER_SIZE_def by linarith
  ultimately show False using f(2) by linarith
qed

lemma sender_round_real:
  assumes "g_outq cl = Some (append_lanes prio ns lanes_empty)" "\<not> pending_rekey (cl_sender cl)" "ca_CBR (cl_argv cl) \<noteq> char_Y"
  shows "\<exists>cl2. sender_round enc now1 now2 nx cl = Some (map (\<lambda>x. (sv_server_addr (cl_srv cl), pkt x)) ns, True, nx, cl2)"
  using assms
  by (cases prio) (auto simp: sender_round_def sender_rekey_def sender_drain_def sender_stats_def drain_lanes_eq
      append_lanes_def lanes_empty_def Let_def)

lemma client_tun_sealed:
  assumes "client_ok cl" "g_outq cl = Some lanes_empty" "aead_len enc" "enc_total enc" "length hdr_sid = 16" "20 \<le> length buf"
    "length buf \<le> BUFFER_SIZE" "\<And>off. mem off = (True, True)"
  shows "\<exists>cl'. handle_tun_packet enc mem hdr_sid buf cl = Some cl' \<and>
    (let ps = client_pieces (cl_argv cl) (g_next_packet_id cl) hdr_sid buf 0; srv = cl_srv cl
     in g_outq cl' = Some (append_lanes (packet_prio buf)
          (sealed_nodes enc (sv_k_send srv) (sv_session_id srv) (packet_prio buf) (sv_send_seq srv) ps) lanes_empty)) \<and>
    cl_argv cl' = cl_argv cl \<and> cl_sender cl' = cl_sender cl \<and> sv_server_addr (cl_srv cl') = sv_server_addr (cl_srv cl)"
proof -
  have av: "argv_ok (cl_argv cl)" using assms(1) by (simp add: client_ok_def)
  define cl0 where "cl0 = cl\<lparr>g_next_packet_id := (if g_next_packet_id cl + 1 = 0 then 1 else g_next_packet_id cl + 1)\<rparr>"
  have "argv_ok (cl_argv cl0)" "g_outq cl0 = Some lanes_empty"
    "lanes_size lanes_empty + length (client_pieces (cl_argv cl0) (g_next_packet_id cl) hdr_sid buf 0) \<le> 64"
    using av assms(2) client_pieces_few [OF av assms(7), of "g_next_packet_id cl" hdr_sid]
    by (simp_all add: cl0_def lanes_size_def lanes_empty_def)
  note loop = client_tun_loop_sealed [OF this(1,2) assms(3,4,5) le0 assms(7,8) this(3)]
  show ?thesis
    using assms(6) loop by (simp add: handle_tun_packet_def Let_def cl0_def)
qed



section \<open>Sequence numbers across a key rotation\<close>

text \<open>The dummy packet as \<open>prepare_dummy_static_parts\<close> leaves it.\<close>

definition dummy_ready :: "client \<Rightarrow> bool" where
  "dummy_ready cl \<longleftrightarrow>
     take 22 (cl_final_pkt cl) = proto_header_bytes data_header @ sa_session_id (cl_sender cl) \<and>
     flags (tunnel_header_of (cl_dummy_payload cl)) = PKT_DUMMY"

lemma client_prepare_dummy_ready:
  assumes "client_prepare_dummy sid cl = Some cl'" "length sid = 16" "sa_session_id (cl_sender cl) = sid"
    "length (cl_final_pkt cl) = BUFFER_SIZE" "length (cl_dummy_payload cl) = BUFFER_SIZE"
  shows "dummy_ready cl'" "cl_static_len cl' = 22"
  using assms by (auto simp: client_prepare_dummy_def dummy_ready_def Let_def config_defs memcpy_at_def memset_at_def
      split: if_splits)

lemma tick_rehandshake_done:
  assumes "tick_rehandshake so te cl = (hs, cl')" "\<not> pending_rekey (cl_sender cl)" "pending_rekey (cl_sender cl')"
  shows "sv_send_seq (cl_srv cl') = 0" "sa_k_send (cl_sender cl') = sa_k_send (cl_sender cl)"
    "sa_session_id (cl_sender cl') = sa_session_id (cl_sender cl)" "cl_argv cl' = cl_argv cl"
    "cl_dummy_payload cl' = cl_dummy_payload cl" "cl_final_pkt cl' = cl_final_pkt cl" "cl_static_len cl' = cl_static_len cl"
    "sv_server_addr (cl_srv cl') = sv_server_addr (cl_srv cl)"
  using assms
  by (auto simp: tick_rehandshake_def rehandshake_client_with_state_def should_attempt_rehandshake_def Let_def
      split: if_splits prod.splits rehandshake_state.splits)

lemma send_one_dummy_packet:
  assumes "client_ok cl" "dummy_ready cl" "aead_len enc" "enc_total enc"
  obtains c cl' where "aead_encrypt enc (sa_k_send (cl_sender cl)) (sa_session_id (cl_sender cl)) (sv_send_seq (cl_srv cl))
      (take (nat (ca_FRAG (cl_argv cl))) (cl_dummy_payload cl)) = Some c"
    "send_one_dummy enc cl = Some (0, [(sv_server_addr (cl_srv cl),
      data_packet (sa_session_id (cl_sender cl)) (sv_send_seq (cl_srv cl)) c)], cl')"
proof -
  have av: "argv_ok (cl_argv cl)" using assms(1) by (simp add: client_ok_def)
  note f = argv_frag [OF av]
  let ?n = "nat (ca_FRAG (cl_argv cl))" and ?sq = "sv_send_seq (cl_srv cl)"
  obtain c where c: "aead_encrypt enc (sa_k_send (cl_sender cl)) (sa_session_id (cl_sender cl)) ?sq
      (take ?n (cl_dummy_payload cl)) = Some c"
    using assms(4) unfolding enc_total_def aead_encrypt_def Let_def by blast
  have l: "length (cl_dummy_payload cl) = 1600" "length (cl_final_pkt cl) = 1600" "cl_static_len cl = 22"
    "length (sa_session_id (cl_sender cl)) = 16"
    using assms(1) by (simp_all add: client_ok_def sender_ok_def BUFFER_SIZE_def)
  have "length c = ?n + 16" using aead_encrypt_len [OF assms(3) c] f(3) l(1) by simp
  moreover have "take (22 + 8 + length c) (memcpy_at (memcpy_at (cl_final_pkt cl) 22 (be64 ?sq)) (22 + 8) c) =
      data_packet (sa_session_id (cl_sender cl)) ?sq c"
    using assms(2) l(2,4) by (simp add: memcpy_at_def dummy_ready_def data_packet_def)
  ultimately show ?thesis
    using that c l f by (auto simp: send_one_dummy_def Let_def BUFFER_SIZE_def)
qed

text \<open>
  C38. A key rotation makes the client repeat a nonce. The session begins with the number 0, so
  the first fragment read from the TUN device is encrypted under the session's key with the nonce
  of number 0. A rotation that succeeds later resets the counter to 0 at once, while the sender
  thread still holds the old key until it has seen the request to swap: a dummy packet it sends in
  between encrypts another plaintext under the same key with the same nonce.
\<close>

theorem nonce_reuse:
  assumes cl: "client_ok cl" "sv_send_seq (cl_srv cl) = 0" "sa_k_send (cl_sender cl) = sv_k_send (cl_srv cl)"
      "sa_session_id (cl_sender cl) = sv_session_id (cl_srv cl)"
    and aead: "aead_len (aead_enc so)" "enc_total (aead_enc so)"
    and tun: "g_outq cl = Some lanes_empty" "20 \<le> length buf" "length buf \<le> BUFFER_SIZE" "length hdr_sid = 16"
      "\<And>off. mem off = (True, True)"
    and later: "client_ok cl1" "dummy_ready cl1" "\<not> pending_rekey (cl_sender cl1)"
      "sa_k_send (cl_sender cl1) = sa_k_send (cl_sender cl)" "sa_session_id (cl_sender cl1) = sa_session_id (cl_sender cl)"
    and rotation: "tick_rehandshake so te cl1 = (hs, cl2)" "pending_rekey (cl_sender cl2)" "client_ok cl2"
  shows "\<exists>p c cl' x xs d c' cl3. handle_tun_packet (aead_enc so) mem hdr_sid buf cl = Some cl' \<and>
    map_option (\<lambda>q. high q @ normal q) (g_outq cl') = Some (x # xs) \<and>
    send_one_dummy (aead_enc so) cl2 = Some (0, [(sv_server_addr (cl_srv cl2), d)], cl3) \<and>
    (let key = sv_k_send (cl_srv cl); sid = sv_session_id (cl_srv cl);
         dummy = take (nat (ca_FRAG (cl_argv cl2))) (cl_dummy_payload cl2)
     in pkt x = data_packet sid 0 c \<and> aead_encrypt (aead_enc so) key sid 0 p = Some c \<and>
        d = data_packet sid 0 c' \<and> aead_encrypt (aead_enc so) key sid 0 dummy = Some c' \<and> p \<noteq> dummy)"
proof -
  let ?srv = "cl_srv cl" and ?av = "cl_argv cl" and ?id = "g_next_packet_id cl" and ?prio = "packet_prio buf"
  let ?ps = "client_pieces ?av ?id hdr_sid buf 0"
  let ?ns = "sealed_nodes (aead_enc so) (sv_k_send ?srv) (sv_session_id ?srv) ?prio 0 ?ps"
  have av: "argv_ok ?av" using cl(1) by (simp add: client_ok_def)
  note f = argv_frag [OF av]
  have pos: "0 < length buf" using tun(2) by linarith
  obtain b rl n where cf: "client_fragment ?av ?id hdr_sid buf 0 = (b, rl, n)" by (metis prod_cases3)
  let ?p = "take rl b"
  have ps: "?ps = ?p # client_pieces ?av ?id hdr_sid buf (0 + n)" by (rule client_pieces_step [OF av tun(4) pos tun(3) cf])
  obtain c where c: "aead_encrypt (aead_enc so) (sv_k_send ?srv) (sv_session_id ?srv) 0 ?p = Some c"
    using aead(2) unfolding enc_total_def aead_encrypt_def Let_def by blast
  let ?x = "\<lparr>pkt = data_packet (sv_session_id ?srv) 0 c, seq = 0, priority = ?prio\<rparr>"
  let ?xs = "sealed_nodes (aead_enc so) (sv_k_send ?srv) (sv_session_id ?srv) ?prio 1 (client_pieces ?av ?id hdr_sid buf n)"
  obtain cl' where q: "handle_tun_packet (aead_enc so) mem hdr_sid buf cl = Some cl'"
    "g_outq cl' = Some (append_lanes ?prio ?ns lanes_empty)"
    using client_tun_sealed [where mem = mem, OF cl(1) tun(1) aead tun(4,2,3,5)] cl(2) by (auto simp: Let_def)
  note rot = tick_rehandshake_done [OF rotation(1) later(3) rotation(2)]
  have ready: "dummy_ready cl2" using later(2) rot by (simp add: dummy_ready_def)
  let ?d = "take (nat (ca_FRAG (cl_argv cl2))) (cl_dummy_payload cl2)"
  obtain c' cl3 where d: "aead_encrypt (aead_enc so) (sv_k_send ?srv) (sv_session_id ?srv) 0 ?d = Some c'"
    "send_one_dummy (aead_enc so) cl2 = Some (0, [(sv_server_addr (cl_srv cl2), data_packet (sv_session_id ?srv) 0 c')], cl3)"
    by (rule send_one_dummy_packet [OF rotation(3) ready aead]) (simp add: rot cl later)
  have "data_plain ?p" using fragment_list_plain [OF f(4) tun(4), of "replicate MAX_FRAG 0" "ca_PAD ?av = char_Y" ?id buf 0] ps
    by (simp add: client_pieces_def)
  moreover have "flags (tunnel_header_of ?d) = PKT_DUMMY"
    using ready rotation(3) argv_frag(2,3) [of "cl_argv cl2"]
      tunnel_header_of_append [of ?d "drop (nat (ca_FRAG (cl_argv cl2))) (cl_dummy_payload cl2)"]
    by (simp add: dummy_ready_def client_ok_def BUFFER_SIZE_def)
  ultimately have "?p \<noteq> ?d" by (auto simp: data_plain_def config_defs)
  moreover have "map_option (\<lambda>q. high q @ normal q) (g_outq cl') = Some (?x # ?xs)"
    using q(2) c ps by (simp add: append_lanes_def lanes_empty_def)
  ultimately show ?thesis
    using q(1) c d unfolding Let_def
    by (intro exI [of _ ?p] exI [of _ c] exI [of _ cl'] exI [of _ ?x] exI [of _ ?xs]
        exI [of _ "data_packet (sv_session_id ?srv) 0 c'"] exI [of _ c'] exI [of _ cl3] conjI) simp_all
qed

lemma sample_rotation:
  "\<exists>hs cl'. tick_rehandshake sample_sodium sample_te sample_client = (hs, cl') \<and> pending_rekey (cl_sender cl')"
proof -
  have pk: "sv_server_pk (cl_srv sample_client) = replicate 32 5" by (simp add: sample_client_def sample_srv_def)
  obtain sent out where h: "client_handshake sample_sodium (sample_cenv sample_msg2) sample_argv (replicate 32 5) sample_out (Some []) =
      (0, sent, out, Some [])" using sample_handshake_ok by blast
  show ?thesis
    using h by (simp add: tick_rehandshake_def rehandshake_due_def should_attempt_rehandshake_def
        rehandshake_client_with_state_def sample_client_def sample_te_def sample_srv_def sample_argv_def Let_def)
qed

theorem nonce_reuse_witness:
  "\<exists>cl' hs cl2 d cl3. handle_tun_packet sample_aead (\<lambda>_. (True, True)) (replicate 16 0) (replicate 120 69)
       (sample_client\<lparr>cl_srv := sample_srv\<lparr>sv_send_seq := 0\<rparr>\<rparr>) = Some cl' \<and>
     tick_rehandshake sample_sodium sample_te sample_client = (hs, cl2) \<and>
     send_one_dummy sample_aead cl2 = Some (0, [(sv_server_addr (cl_srv cl2), d)], cl3) \<and>
     (\<exists>c'. d = data_packet (replicate 16 7) 0 c')"
proof -
  let ?cl = "sample_client\<lparr>cl_srv := sample_srv\<lparr>sv_send_seq := 0\<rparr>\<rparr>"
  obtain hs cl2 where r: "tick_rehandshake sample_sodium sample_te sample_client = (hs, cl2)" "pending_rekey (cl_sender cl2)"
    using sample_rotation by blast
  have enc: "aead_enc sample_sodium = sample_aead" by (simp add: sample_sodium_def)
  have ok: "client_ok ?cl" using sample_client_ok by (simp add: client_ok_def sample_srv_def)
  have ok2: "client_ok cl2"
    using tick_rehandshake_ok [OF sample_client_ok sample_sodium_lens _ r(1)] sample_te_ok by (simp add: te_ok_def)
  have ready: "dummy_ready sample_client"
    by (simp add: dummy_ready_def sample_client_def dummy_plain_def memset_at_def memcpy_at_def config_defs)
  have tot: "enc_total sample_aead" by (simp add: enc_total_def sample_aead_def)
  show ?thesis
    using nonce_reuse [where so = sample_sodium, unfolded enc, OF ok _ _ _ aead_correct_len [OF sample_aead_correct] tot _ _ _ _ _
        sample_client_ok ready _ _ _ r ok2, where buf = "replicate 120 69" and hdr_sid = "replicate 16 0" and
        mem = "\<lambda>_. (True, True)"] r(1)
    by (simp add: sample_client_def sample_srv_def Let_def config_defs) blast
qed

end
