(* ===== verification/C_Strings.thy ===== *)
theory C_Strings
  imports Chamlon_Prelude "HOL-Library.Char_ord"
begin

text \<open>
  What the programs use of the C library on strings: \<open>isspace\<close>, \<open>strtol\<close> and \<open>atoi\<close>, the
  \<open>sscanf\<close> conversions \<open>%2x\<close>, \<open>%31[^:]\<close> and \<open>%31s\<close>, and the \<open>printf\<close> conversions \<open>%02x\<close> and
  \<open>%u\<close>. A string is the list of its characters without the terminating null character.
\<close>

section \<open>Numbers\<close>

abbreviation code :: "char \<Rightarrow> nat" where
  "code c \<equiv> of_char c"

definition isspace :: "char \<Rightarrow> bool" where
  "isspace c \<longleftrightarrow> code c = 32 \<or> 9 \<le> code c \<and> code c \<le> 13"

definition isdigit :: "char \<Rightarrow> bool" where
  "isdigit c \<longleftrightarrow> 48 \<le> code c \<and> code c \<le> 57"

definition digits_value :: "string \<Rightarrow> nat" where
  "digits_value ds = foldl (\<lambda>n c. 10 * n + (code c - 48)) 0 ds"

text \<open>
  \<open>strtol(s, &endptr, 10)\<close>: the value before it is clamped to the range of \<open>long\<close>, and what
  \<open>endptr\<close> points to. Without digits nothing is consumed.
\<close>

definition strtol10 :: "string \<Rightarrow> int \<times> string" where
  "strtol10 s =
     (let t = dropWhile isspace s;
          (neg, u) = (case t of
                        [] \<Rightarrow> (False, t)
                      | c # r \<Rightarrow> if c = CHR ''-'' then (True, r) else if c = CHR ''+'' then (False, r) else (False, t));
          ds = takeWhile isdigit u
      in if ds = [] then (0, s)
         else (if neg then - int (digits_value ds) else int (digits_value ds), dropWhile isdigit u))"

definition long_range :: "int \<Rightarrow> bool" where
  "long_range v \<longleftrightarrow> - (2 ^ 63) \<le> v \<and> v < 2 ^ 63"

definition int_range :: "int \<Rightarrow> bool" where
  "int_range v \<longleftrightarrow> - (2 ^ 31) \<le> v \<and> v < 2 ^ 31"

text \<open>\<open>atoi\<close>; \<open>big\<close> is what it returns for a number that no \<open>int\<close> can hold.\<close>

definition atoi :: "(string \<Rightarrow> int) \<Rightarrow> string \<Rightarrow> int" where
  "atoi big s = (let v = fst (strtol10 s) in if int_range v then v else big s)"

lemma atoi_range: "(\<And>s. int_range (big s)) \<Longrightarrow> int_range (atoi big s)"
  by (simp add: atoi_def Let_def)

text \<open>The decimal digits \<open>%u\<close> prints.\<close>

fun decimal :: "nat \<Rightarrow> string" where
  "decimal n = (if n < 10 then [char_of (48 + n)] else decimal (n div 10) @ [char_of (48 + n mod 10)])"

declare decimal.simps [simp del]

lemma digit_char: "n < 10 \<Longrightarrow> isdigit (char_of (48 + n)) \<and> code (char_of (48 + n)) = 48 + n"
  by (simp add: isdigit_def)

lemma decimal_digits: "\<forall>c\<in>set (decimal n). isdigit c" "decimal n \<noteq> []" "digits_value (decimal n) = n"
proof (induction n rule: decimal.induct)
  case (1 n)
  have d: "isdigit (char_of (48 + n mod 10))" "code (char_of (48 + n mod 10)) = 48 + n mod 10"
    using digit_char [of "n mod 10"] by auto
  {
    case 1
    then show ?case using "1.IH"(1) d digit_char [of n] by (subst decimal.simps) auto
  next
    case 2
    then show ?case by (subst decimal.simps) simp
  next
    case 3
    then show ?case using "1.IH"(3) d digit_char [of n] by (subst decimal.simps) (auto simp: digits_value_def)
  }
qed

lemma digit_not_space: "isdigit c \<Longrightarrow> \<not> isspace c" "isdigit c \<Longrightarrow> c \<noteq> CHR ''-'' \<and> c \<noteq> CHR ''+''"
  by (auto simp: isdigit_def isspace_def)

lemma strtol_decimal: "\<not> isdigit (hd (rest @ ''x'')) \<Longrightarrow> strtol10 (decimal n @ rest) = (int n, rest)"
proof -
  assume r: "\<not> isdigit (hd (rest @ ''x''))"
  note d = decimal_digits [of n]
  obtain c ds where cd: "decimal n = c # ds" using d(2) by (cases "decimal n") auto
  have c: "isdigit c" using d(1) cd by simp
  have t: "dropWhile isspace (decimal n @ rest) = c # ds @ rest" using digit_not_space(1) [OF c] by (simp add: cd)
  have "takeWhile isdigit (decimal n @ rest) = decimal n @ takeWhile isdigit rest"
    "dropWhile isdigit (decimal n @ rest) = dropWhile isdigit rest"
    using d(1) by (auto simp: takeWhile_append2 dropWhile_append2)
  moreover have "takeWhile isdigit rest = []" "dropWhile isdigit rest = rest" using r by (cases rest; simp)+
  ultimately have "takeWhile isdigit (c # ds @ rest) = decimal n" "dropWhile isdigit (c # ds @ rest) = rest"
    by (simp_all flip: append_Cons cd)
  then show ?thesis
    using digit_not_space(2) [OF c] d(2,3) by (simp add: strtol10_def t Let_def)
qed

section \<open>Hexadecimal\<close>

definition hexval :: "char \<Rightarrow> nat option" where
  "hexval c =
     (let n = code c
      in if isdigit c then Some (n - 48)
         else if 97 \<le> n \<and> n \<le> 102 then Some (n - 87)
         else if 65 \<le> n \<and> n \<le> 70 then Some (n - 55)
         else None)"

text \<open>
  \<open>sscanf(s, "%2x", &v)\<close>: white space is skipped without counting, then at most two characters
  are read, which may begin with a sign; the two characters \<open>0x\<close> are only the beginning of a
  number. \<open>None\<close> means that nothing was converted.
\<close>

definition scan_2x :: "string \<Rightarrow> u32 option" where
  "scan_2x s =
     (case take 2 (dropWhile isspace s) of
        [] \<Rightarrow> None
      | [c] \<Rightarrow> map_option of_nat (hexval c)
      | c # d # _ \<Rightarrow>
          if c = CHR ''+'' then map_option of_nat (hexval d)
          else if c = CHR ''-'' then map_option (\<lambda>n. - of_nat n) (hexval d)
          else
            (case hexval c of
               None \<Rightarrow> None
             | Some x \<Rightarrow>
                 (case hexval d of
                    Some y \<Rightarrow> Some (of_nat (16 * x + y))
                  | None \<Rightarrow> if c = CHR ''0'' \<and> (d = CHR ''x'' \<or> d = CHR ''X'') then None else Some (of_nat x))))"

definition hex_digit :: "nat \<Rightarrow> char" where
  "hex_digit n = (if n < 10 then char_of (48 + n) else char_of (87 + n))"

text \<open>The loop that prints bytes with \<open>%02x\<close>.\<close>

definition hex_print :: "bytes \<Rightarrow> string" where
  "hex_print bs = concat (map (\<lambda>b. [hex_digit (unat b div 16), hex_digit (unat b mod 16)]) bs)"

lemma hex_digit_code: "n < 16 \<Longrightarrow> code (hex_digit n) = (if n < 10 then 48 + n else 87 + n)"
  by (simp add: hex_digit_def)

lemma hexval_digit: "n < 16 \<Longrightarrow> hexval (hex_digit n) = Some n"
  by (auto simp: hexval_def Let_def hex_digit_code isdigit_def)

lemma hex_digit_plain: "n < 16 \<Longrightarrow> \<not> isspace (hex_digit n) \<and> hex_digit n \<noteq> CHR ''+'' \<and> hex_digit n \<noteq> CHR ''-''"
  using hex_digit_code [of n] by (auto simp: isspace_def split: if_splits)

lemma scan_2x_print:
  "scan_2x (hex_digit (unat b div 16) # hex_digit (unat b mod 16) # rest) = Some (ucast (b :: byte))"
proof -
  have b: "unat b div 16 < 16" "unat b mod 16 < 16" using unsigned_less [where ?'a = nat and w = b] by auto
  have "16 * (unat b div 16) + unat b mod 16 = unat b" by simp
  then show ?thesis
    using hex_digit_plain [OF b(1)] hexval_digit [OF b(1)] hexval_digit [OF b(2)]
    by (simp add: scan_2x_def numeral_2_eq_2 of_nat_unat)
qed

section \<open>Fields\<close>

text \<open>The conversion \<open>%31[^:]\<close>, which needs at least one character.\<close>

definition scan_field :: "string \<Rightarrow> (string \<times> string) option" where
  "scan_field s =
     (let f = take 31 (takeWhile (\<lambda>c. c \<noteq> CHR '':'') s)
      in if f = [] then None else Some (f, drop (length f) s))"

text \<open>The conversion \<open>%31s\<close>.\<close>

definition scan_word :: "string \<Rightarrow> string option" where
  "scan_word s =
     (let f = take 31 (takeWhile (\<lambda>c. \<not> isspace c) (dropWhile isspace s)) in if f = [] then None else Some f)"

section \<open>Buffers and byte order\<close>

definition IFNAMSIZ :: nat where [config_defs]: "IFNAMSIZ = 16"

text \<open>What \<open>snprintf\<close> leaves in a buffer of \<open>n\<close> bytes.\<close>

definition snprintf :: "nat \<Rightarrow> string \<Rightarrow> string" where
  "snprintf n text = take (n - 1) text"

text \<open>What \<open>fgets\<close> reads from a text into a buffer of \<open>n\<close> bytes, cut at the newline.\<close>

definition first_line :: "nat \<Rightarrow> string \<Rightarrow> string" where
  "first_line n text = takeWhile (\<lambda>c. code c \<noteq> 10) (take (n - 1) text)"

lemma first_line_length: "length (first_line n text) \<le> n - 1"
  using length_takeWhile_le [of "\<lambda>c. code c \<noteq> 10" "take (n - 1) text"] by (simp add: first_line_def)

definition htons :: "u16 \<Rightarrow> u16" where
  "htons p = push_bit 8 p OR drop_bit 8 p"

end
