(* ===== verification/Client_Main.thy ===== *)
theory Client_Main
  imports Tunnel C_Strings
begin

text \<open>
  The start of the client, \<open>main\<close> of \<open>chamlon_client/src/vpn_client.c\<close> with \<open>parse_arguments\<close>,
  \<open>setup_and_handshake\<close> and \<open>start_sender_thread\<close>, \<open>hex2bin\<close> of \<open>vpn_utils.c\<close>, and the routing
  commands it issues and takes back. Outcomes of system calls and allocations are arguments; a
  failed start is the left summand of the result. The last section shows that a client that
  came up after the server accepted its handshake is the other end of a tunnel.
\<close>

section \<open>Arguments\<close>

text \<open>The loop of \<open>hex2bin\<close>; \<open>None\<close> is the return code -1.\<close>

fun hex2bin_loop :: "nat \<Rightarrow> string \<Rightarrow> bytes option" where
  "hex2bin_loop 0 hex = Some []"
| "hex2bin_loop (Suc n) hex =
     (case scan_2x hex of
        None \<Rightarrow> None
      | Some v \<Rightarrow> map_option (\<lambda>bs. ucast v # bs) (hex2bin_loop n (drop 2 hex)))"

definition hex2bin :: "string \<Rightarrow> nat \<Rightarrow> bytes option" where
  "hex2bin hex outlen = (if length hex \<noteq> outlen * 2 then None else hex2bin_loop outlen hex)"

text \<open>The values the globals are initialised with.\<close>

definition default_argv :: client_argv where
  "default_argv = \<lparr>ca_MBPS = 5, ca_FRAG = 1024, ca_CBR = char_N, ca_PAD = char_N, ca_REHANDSHAKE = 20,
     ca_TUN = ''tun_client''\<rparr>"

text \<open>\<open>sscanf(argv[i], "%31[^:]:%31[^:]:%31s", key, v1, v2)\<close>: the count and the three buffers.\<close>

definition scan_argument :: "string \<Rightarrow> nat \<times> string \<times> string \<times> string" where
  "scan_argument s =
     (case scan_field s of
        None \<Rightarrow> (0, [], [], [])
      | Some (key, []) \<Rightarrow> (1, key, [], [])
      | Some (key, c # r) \<Rightarrow>
          if c \<noteq> CHR '':'' then (1, key, [], [])
          else
            (case scan_field r of
               None \<Rightarrow> (1, key, [], [])
             | Some (v1, []) \<Rightarrow> (2, key, v1, [])
             | Some (v1, d # r2) \<Rightarrow>
                 if d \<noteq> CHR '':'' then (2, key, v1, [])
                 else (case scan_word r2 of None \<Rightarrow> (2, key, v1, []) | Some v2 \<Rightarrow> (3, key, v1, v2))))"

definition yes_no :: "string \<Rightarrow> byte option" where
  "yes_no v = (if v = [] then None else if hd v = CHR ''Y'' then Some char_Y else if hd v = CHR ''N'' then Some char_N else None)"

definition parse_option :: "(string \<Rightarrow> int) \<Rightarrow> string \<Rightarrow> client_argv \<Rightarrow> client_argv" where
  "parse_option big arg av =
     (let (count, key, v1, v2) = scan_argument arg
      in if count \<ge> 2 then
           if key = ''MBPS'' then
             let value0 = atoi big v1;
                 value1 = (if value0 < 1 then 1 else value0);
                 value2 = (if value1 > 15 then 15 else value1)
             in av\<lparr>ca_MBPS := value2\<rparr>
           else if key = ''FRAG'' then
             if yes_no v1 \<noteq> None \<and> count = 3 then
               let value0 = atoi big v2;
                   value1 = (if value0 < 300 then 300 else value0);
                   value2 = (if value1 > 1200 then 1200 else value1)
               in av\<lparr>ca_FRAG := value2\<rparr>
             else av
           else if key = ''CBR'' then (case yes_no v1 of None \<Rightarrow> av | Some b \<Rightarrow> av\<lparr>ca_CBR := b\<rparr>)
           else if key = ''PAD'' then (case yes_no v1 of None \<Rightarrow> av | Some b \<Rightarrow> av\<lparr>ca_PAD := b\<rparr>)
           else if key = ''REHANDSHAKE'' then
             let value0 = atoi big v1; value1 = (if value0 < 1 then 1 else value0)
             in av\<lparr>ca_REHANDSHAKE := value1\<rparr>
           else if key = ''TUN'' then av\<lparr>ca_TUN := take (IFNAMSIZ - 1) v1\<rparr>
           else av
         else av)"

text \<open>
  The key, the address and the parameters; \<open>None\<close> is the return code -1. \<open>aton\<close> is \<open>inet_aton\<close>,
  and \<open>argv\<close> includes the name of the program.
\<close>

definition parse_arguments ::
  "(string \<Rightarrow> int) \<Rightarrow> (string \<Rightarrow> u32 option) \<Rightarrow> string list \<Rightarrow> (bytes \<times> sockaddr_in \<times> client_argv) option" where
  "parse_arguments big aton argv =
     (if length argv < 4 then None
      else
        (case hex2bin (argv ! 3) PUBKEY_LEN of
           None \<Rightarrow> None
         | Some pk \<Rightarrow>
             (case aton (argv ! 1) of
                None \<Rightarrow> None
              | Some ip \<Rightarrow>
                  Some (pk, \<lparr>sin_family = 2, sin_port = htons (of_int (atoi big (argv ! 2))), sin_addr = ip\<rparr>,
                        fold (parse_option big) (drop 4 argv) default_argv))))"

lemma hex2bin_length: "hex2bin_loop n hex = Some bs \<Longrightarrow> length bs = n"
  by (induction n arbitrary: hex bs) (auto split: option.splits)

lemma hex2bin_print: "hex2bin (hex_print bs) (length bs) = Some bs"
proof -
  have u: "ucast (ucast b :: u32) = b" for b :: byte
    by (rule bit_word_eqI) (simp add: bit_unsigned_iff)
  have "hex2bin_loop (length bs) (hex_print bs) = Some bs"
    by (induction bs) (simp_all add: hex_print_def scan_2x_print u)
  moreover have "length (hex_print bs) = length bs * 2" by (induction bs) (simp_all add: hex_print_def)
  ultimately show ?thesis by (simp add: hex2bin_def)
qed

lemma yes_no_values: "yes_no v = Some b \<Longrightarrow> b \<in> {char_Y, char_N}"
  by (auto simp: yes_no_def split: if_splits)

lemma parse_option_ok:
  assumes "argv_ok av" "length (ca_TUN av) < IFNAMSIZ"
  shows "argv_ok (parse_option big arg av)" "length (ca_TUN (parse_option big arg av)) < IFNAMSIZ"
proof -
  obtain count key v1 v2 where sc: "scan_argument arg = (count, key, v1, v2)" by (metis prod_cases4)
  have yn: "b \<in> {char_Y, char_N}" if "yes_no v1 = Some b" for b using yes_no_values [OF that] .
  show "argv_ok (parse_option big arg av)"
    using assms(1) yn by (auto simp: parse_option_def sc argv_ok_def Let_def split: option.split)
  show "length (ca_TUN (parse_option big arg av)) < IFNAMSIZ"
    using assms(2) by (auto simp: parse_option_def sc Let_def IFNAMSIZ_def split: option.split)
qed

lemma parse_options_ok:
  "argv_ok av \<Longrightarrow> length (ca_TUN av) < IFNAMSIZ \<Longrightarrow>
   argv_ok (fold (parse_option big) args av) \<and> length (ca_TUN (fold (parse_option big) args av)) < IFNAMSIZ"
  by (induction args arbitrary: av) (simp_all add: parse_option_ok)

text \<open>The server takes over the parameters of the first message when they are in range.\<close>

lemma read_params_agree:
  assumes "argv_ok av" "length c_pub = 32" "length c_nonce = 8"
  shows "read_params (make_msg1 c_pub c_nonce av) s =
    s\<lparr>argv_MBPS := ca_MBPS av, argv_FRAG := ca_FRAG av, argv_CBR := ca_CBR av, argv_PAD := ca_PAD av\<rparr>"
proof -
  have sl: "slice (make_msg1 c_pub c_nonce av) 46 4 = le32 (of_int (ca_MBPS av))"
    "slice (make_msg1 c_pub c_nonce av) 50 4 = le32 (of_int (ca_FRAG av))"
    "make_msg1 c_pub c_nonce av ! 54 = ca_CBR av" "make_msg1 c_pub c_nonce av ! 55 = ca_PAD av"
    using assms(2,3) by (simp_all add: make_msg1_def slice_def nth_append)
  have si: "sint (of_int n :: u32) = n" if "0 \<le> n" "n < 2000" for n
    using that by (simp add: signed_of_int signed_take_bit_int_eq_self)
  have "sint (of_le32 (le32 (of_int (ca_MBPS av)))) = ca_MBPS av" "sint (of_le32 (le32 (of_int (ca_FRAG av)))) = ca_FRAG av"
    using assms(1) le32_roundtrip [of _ "[]"] si by (auto simp: argv_ok_def)
  then show ?thesis
    using assms(1) sl by (auto simp: read_params_def Let_def config_defs argv_ok_def)
qed

lemma arguments_ok:
  assumes "parse_arguments big aton argv = Some (pk, addr, av)"
  shows "argv_ok av" "length (ca_TUN av) < IFNAMSIZ" "length pk = PUBKEY_LEN"
proof -
  have d: "argv_ok default_argv" "length (ca_TUN default_argv) < IFNAMSIZ"
    by (simp_all add: default_argv_def argv_ok_def config_defs)
  have av: "av = fold (parse_option big) (drop 4 argv) default_argv"
    using assms by (auto simp: parse_arguments_def split: if_splits option.splits)
  then show "argv_ok av" "length (ca_TUN av) < IFNAMSIZ" using parse_options_ok [OF d] by simp_all
  show "length pk = PUBKEY_LEN"
    using assms by (auto simp: parse_arguments_def hex2bin_def hex2bin_length split: if_splits option.splits)
qed

text \<open>
  C32. Every command line gives a well-formed configuration. Whatever the arguments are, when
  \<open>parse_arguments\<close> accepts them the public key has 32 bytes, the rate is between 1 and 15, the
  fragment size between 300 and 1200, the two switches are \<open>Y\<close> or \<open>N\<close>, the rotation interval is
  positive and the interface name fits its buffer; and these values survive the range checks of
  the server unchanged, so that both ends cut and pad packets alike.
\<close>

theorem arguments_typed:
  assumes "parse_arguments big aton argv = Some (pk, addr, av)"
  shows "length pk = PUBKEY_LEN \<and> argv_ok av \<and> length (ca_TUN av) < IFNAMSIZ \<and>
    (\<forall>c_pub c_nonce s. length c_pub = 32 \<longrightarrow> length c_nonce = 8 \<longrightarrow>
       read_params (make_msg1 c_pub c_nonce av) s =
       s\<lparr>argv_MBPS := ca_MBPS av, argv_FRAG := ca_FRAG av, argv_CBR := ca_CBR av, argv_PAD := ca_PAD av\<rparr>)"
  using arguments_ok [OF assms] read_params_agree by blast

theorem arguments_typed_witness:
  "\<exists>pk addr av. parse_arguments (\<lambda>_. 0) (\<lambda>_. Some 7)
       [''client'', ''10.0.0.1'', ''5555'', hex_print (replicate 32 9), ''MBPS:99'', ''FRAG:Y:10'', ''CBR:Y'', ''TUN:vpn0''] =
       Some (pk, addr, av) \<and>
     argv_ok av \<and> ca_MBPS av = 15 \<and> ca_FRAG av = 300 \<and> ca_CBR av = char_Y"
proof -
  let ?argv = "[''client'', ''10.0.0.1'', ''5555'', hex_print (replicate 32 9), ''MBPS:99'', ''FRAG:Y:10'', ''CBR:Y'', ''TUN:vpn0'']"
  have o: "fold (parse_option (\<lambda>_. 0)) (drop 4 ?argv) default_argv =
      \<lparr>ca_MBPS = 15, ca_FRAG = 300, ca_CBR = char_Y, ca_PAD = char_N, ca_REHANDSHAKE = 20, ca_TUN = ''vpn0''\<rparr>"
    by code_simp
  have h: "hex2bin (hex_print (replicate 32 9)) PUBKEY_LEN = Some (replicate 32 9)"
    using hex2bin_print [of "replicate 32 9"] by (simp add: PUBKEY_LEN_def)
  obtain pk addr where p: "parse_arguments (\<lambda>_. 0) (\<lambda>_. Some 7) ?argv =
      Some (pk, addr, fold (parse_option (\<lambda>_. 0)) (drop 4 ?argv) default_argv)"
    using h by (simp add: parse_arguments_def)
  from arguments_typed [OF p] p show ?thesis unfolding o by auto
qed

text \<open>
  The key the server prints is the key the client reads: \<open>hex2bin\<close> turns the hexadecimal text
  of the server's start back into the same bytes, for every key.
\<close>

lemma printed_key_roundtrip: "hex2bin (hex_print pk) (length pk) = Some pk"
  by (rule hex2bin_print)

text \<open>It also accepts signs and white space in place of digits.\<close>

lemma hex2bin_lax: "hex2bin ''+1-1 a'' 3 = Some [1, 255, 10]"
  by code_simp

section \<open>Routes\<close>

text \<open>
  The state of the routes and the shell commands, in the order they are handed to \<open>system\<close>. A
  command is cut to its buffer by \<open>snprintf\<close>.
\<close>

record client_routes =
  old_gateway :: string
  route_added :: bool
  vpn_iface :: string

definition inet_ntoa :: "u32 \<Rightarrow> string" where
  "inet_ntoa a = (case le32 a of [b0, b1, b2, b3] \<Rightarrow>
     decimal (unat b0) @ ''.'' @ decimal (unat b1) @ ''.'' @ decimal (unat b2) @ ''.'' @ decimal (unat b3))"

text \<open>The line read from the \<open>ip\<close> program, without its newline; \<open>None\<close> when there is none.\<close>

definition saved_gateway :: "string option \<Rightarrow> string" where
  "saved_gateway line = (case line of None \<Rightarrow> [] | Some l \<Rightarrow> first_line 128 l)"

definition setup_routes :: "u32 \<Rightarrow> bool \<Rightarrow> client_routes \<Rightarrow> string list \<times> client_routes" where
  "setup_routes server ok r =
     (let pin = (if old_gateway r \<noteq> []
                 then [snprintf 256 (''ip route add '' @ inet_ntoa server @ ''/32 via '' @ old_gateway r @ '' 2>/dev/null'')]
                 else []);
          dflt = snprintf 256 (''ip route del default 2>/dev/null; ip route add default via 10.10.0.1 dev '' @ vpn_iface r @
                               '' 2>/dev/null'')
      in (pin @ [dflt], if ok then r\<lparr>route_added := True\<rparr> else r))"

definition restore_default :: "client_routes \<Rightarrow> string list \<times> client_routes" where
  "restore_default r =
     (if route_added r
      then ([if old_gateway r \<noteq> []
             then snprintf 256 (''ip route del default dev '' @ vpn_iface r @ '' 2>/dev/null; ip route add default via '' @
                                old_gateway r @ '' 2>/dev/null'')
             else snprintf 128 (''ip route del default dev '' @ vpn_iface r @ '' 2>/dev/null'')],
            r\<lparr>route_added := False\<rparr>)
      else ([], r))"

definition restore_route_and_cleanup_client :: "u32 \<Rightarrow> client_routes \<Rightarrow> string list \<times> client_routes" where
  "restore_route_and_cleanup_client server r =
     (let del = (if old_gateway r \<noteq> [] then [snprintf 256 (''ip route del '' @ inet_ntoa server @ ''/32 2>/dev/null'')] else []);
          (cmds, r1) = restore_default r
      in (del @ cmds, r1))"

lemma decimal_short: "n < 256 \<Longrightarrow> length (decimal n) \<le> 3"
  by (subst decimal.simps, subst decimal.simps, subst decimal.simps) auto

lemma inet_ntoa_length: "length (inet_ntoa a) \<le> 15"
proof -
  have l: "length (decimal (unat b)) \<le> 3" for b :: byte
    using unsigned_less [where ?'a = nat and w = b] by (intro decimal_short) simp
  obtain b0 b1 b2 b3 where b: "le32 a = [b0, b1, b2, b3]" by (auto simp: le32_def)
  then show ?thesis using l [of b0] l [of b1] l [of b2] l [of b3] by (simp add: inet_ntoa_def)
qed

lemma saved_gateway_length: "length (saved_gateway line) \<le> 127"
  using first_line_length [of 128] by (auto simp: saved_gateway_def split: option.split)

text \<open>No command is cut, and leaving twice, as \<open>main\<close> does, restores the default route once.\<close>

lemma routes_restored:
  assumes "length (vpn_iface r) < IFNAMSIZ" "old_gateway r = saved_gateway line" "old_gateway r \<noteq> []"
    "setup_routes server True r = (cmds, r1)" "restore_route_and_cleanup_client server r1 = (back, r2)"
  shows "cmds = [''ip route add '' @ inet_ntoa server @ ''/32 via '' @ old_gateway r @ '' 2>/dev/null'',
      ''ip route del default 2>/dev/null; ip route add default via 10.10.0.1 dev '' @ vpn_iface r @ '' 2>/dev/null'']"
    "back = [''ip route del '' @ inet_ntoa server @ ''/32 2>/dev/null'',
      ''ip route del default dev '' @ vpn_iface r @ '' 2>/dev/null; ip route add default via '' @ old_gateway r @ '' 2>/dev/null'']"
    "restore_default r2 = ([], r2)"
  using assms inet_ntoa_length [of server] saved_gateway_length [of line]
  by (auto simp: setup_routes_def restore_route_and_cleanup_client_def restore_default_def snprintf_def Let_def
      IFNAMSIZ_def)

section \<open>Start\<close>

datatype start_error =
    Bad_arguments | Tun_failed | Socket_failed | Handshake_failed | Queue_failed | Dummy_overrun | Sender_failed | Epoll_failed

text \<open>
  The outcomes of the calls of \<open>main\<close>: the name of the TUN device, the socket, the line of the
  \<open>ip\<close> program, the handshake, the change of the default route, the allocation of the queue, the
  block allocated for the arguments of the sender thread with its unspecified contents, the
  creation of the thread, the epoll instance, and the four readings of the clock in
  \<open>event_loop_run\<close>.
\<close>

record start_env =
  se_tun :: "string option"
  se_sock :: bool
  se_gateway :: "string option"
  se_hs :: client_env
  se_system :: bool
  se_outq :: bool
  se_args :: "sender_args option"
  se_thread :: bool
  se_epoll :: bool
  se_times :: "time_t \<times> time_t \<times> time_t \<times> time_t"

definition no_routes :: client_routes where
  "no_routes = \<lparr>old_gateway = [], route_added = False, vpn_iface = ''tun_client''\<rparr>"

definition zero_out :: handshake_out where
  "zero_out = \<lparr>ho_session_id = replicate SESSION_ID_LEN 0, ho_k_send = replicate AEAD_KEY_LEN 0,
     ho_k_recv = replicate AEAD_KEY_LEN 0, ho_assigned_ip = replicate 4 0\<rparr>"

definition first_server :: "bytes \<Rightarrow> sockaddr_in \<Rightarrow> handshake_out \<Rightarrow> server_t" where
  "first_server pk addr out =
     \<lparr>sv_session_id = ho_session_id out, sv_server_pk = pk, sv_k_recv = ho_k_recv out, sv_k_send = ho_k_send out,
      sv_send_seq = 0, sv_server_addr = addr, sv_assigned_ip = ho_assigned_ip out, session_start_time = 0,
      bytes_sent = 0, rehandshake_state = REHANDSHAKE_READY, rehandshake_attempts = 0,
      rehandshake_last_attempt = 0, rehandshake_backoff_sec = 0\<rparr>"

definition setup_interface :: "string \<Rightarrow> string \<Rightarrow> string list" where
  "setup_interface ifname ip_cidr =
     [snprintf 256 (''ip addr add '' @ ip_cidr @ '' dev '' @ ifname @ '' 2>/dev/null''),
      snprintf 256 (''ip link set '' @ ifname @ '' up'')]"

definition ip_cidr :: "bytes \<Rightarrow> string" where
  "ip_cidr ip = snprintf 64 (decimal (unat (ip ! 0)) @ ''.'' @ decimal (unat (ip ! 1)) @ ''.'' @
     decimal (unat (ip ! 2)) @ ''.'' @ decimal (unat (ip ! 3)) @ ''/24'')"

text \<open>The commands, the routes, and the datagrams sent with the connection.\<close>

definition setup_and_handshake ::
  "sodium \<Rightarrow> start_env \<Rightarrow> client_argv \<Rightarrow> bytes \<Rightarrow> sockaddr_in \<Rightarrow> client_routes \<Rightarrow>
   string list \<times> client_routes \<times> (start_error + (bytes list \<times> server_t))" where
  "setup_and_handshake so se av pk addr r0 =
     (case se_tun se of
        None \<Rightarrow> ([], r0, Inl Tun_failed)
      | Some dev \<Rightarrow>
          let tun_name = take (IFNAMSIZ - 1) dev; r1 = r0\<lparr>vpn_iface := tun_name\<rparr>
          in if \<not> se_sock se then ([], r1, Inl Socket_failed)
             else
               (let r2 = r1\<lparr>old_gateway := saved_gateway (se_gateway se)\<rparr>;
                    (rc, sent, out, b) = client_handshake so (se_hs se) av pk zero_out None
                in if rc \<noteq> 0
                   then (let (back, r3) = restore_route_and_cleanup_client (sin_addr addr) r2
                         in (back, r3, Inl Handshake_failed))
                   else
                     (let ifc = setup_interface tun_name (ip_cidr (ho_assigned_ip out));
                          (cmds, r3) = setup_routes (sin_addr addr) (se_system se) r2
                      in (ifc @ cmds, r3, Inr (sent, first_server pk addr out)))))"

text \<open>
  The globals when \<open>start_sender_thread\<close> begins. The arguments of the sender do not exist yet:
  \<open>no_sender\<close> holds their place.
\<close>

definition no_sender :: sender_args where
  "no_sender = \<lparr>sa_session_id = [], sa_k_send = [], sa_interval = Timespec 0 0, pending_k_send = [],
     pending_session_id = [], pending_rekey = False\<rparr>"

definition client_globals :: "client_argv \<Rightarrow> server_t \<Rightarrow> client" where
  "client_globals av srv =
     \<lparr>cl_argv = av, cl_srv = srv, cl_sender = no_sender, g_outq = Some lanes_empty, cl_rw = replay_window_zero,
      cl_table = reassembly_init, g_next_packet_id = 1, g_session_id = sv_session_id srv,
      cl_dummy_payload = replicate BUFFER_SIZE 0, cl_final_pkt = replicate BUFFER_SIZE 0, cl_static_len = 0,
      data_REAL = 0, data_DUMMY = 0, last_double_dummy_real = 0, last_server_keepalive_time = 0,
      disconnect_requested = False, last_keepalive = 0, last_sweep = 0, last_rehandshake = 0, cl_buffer = None\<rparr>"

definition start_sender_thread :: "start_env \<Rightarrow> client \<Rightarrow> start_error + client" where
  "start_sender_thread se cl =
     (case client_prepare_dummy (sv_session_id (cl_srv cl)) cl of
        None \<Rightarrow> Inl Dummy_overrun
      | Some cl1 \<Rightarrow>
          (case se_args se of
             None \<Rightarrow> Inl Sender_failed
           | Some junk \<Rightarrow>
               let av = cl_argv cl1;
                   sa = junk\<lparr>sa_k_send := sv_k_send (cl_srv cl1), sa_session_id := sv_session_id (cl_srv cl1),
                             sa_interval := set_interval_from_mbps (ca_FRAG av) (ca_MBPS av) False\<rparr>
               in if \<not> se_thread se then Inl Sender_failed else Inr (cl1\<lparr>cl_sender := sa\<rparr>)))"

text \<open>The beginning of \<open>event_loop_run\<close>, before its loop.\<close>

definition enter_event_loop :: "start_env \<Rightarrow> client \<Rightarrow> start_error + client" where
  "enter_event_loop se cl =
     (let (t1, t2, t3, t4) = se_times se
      in if \<not> se_epoll se then Inl Epoll_failed
         else Inr (cl\<lparr>cl_rw := replay_window_zero, cl_buffer := rehandshake_buffer_init (Some []), last_keepalive := t1,
                      last_server_keepalive_time := t2, last_sweep := t3, last_rehandshake := t4\<rparr>))"

text \<open>
  \<open>main\<close> up to its event loop. A failed start of the sender returns at once, while a failed event
  loop goes on to the end of \<open>main\<close>, which takes the routes back.
\<close>

definition client_main ::
  "sodium \<Rightarrow> (string \<Rightarrow> int) \<Rightarrow> (string \<Rightarrow> u32 option) \<Rightarrow> start_env \<Rightarrow> string list \<Rightarrow>
   string list \<times> client_routes \<times> (start_error + (bytes list \<times> client))" where
  "client_main so big aton se argv =
     (case parse_arguments big aton argv of
        None \<Rightarrow> ([], no_routes, Inl Bad_arguments)
      | Some (pk, addr, av) \<Rightarrow>
          (case setup_and_handshake so se av pk addr no_routes of
             (cmds, r, Inl e) \<Rightarrow> (cmds, r, Inl e)
           | (cmds, r, Inr (sent, srv)) \<Rightarrow>
               if \<not> se_outq se then (cmds, r, Inl Queue_failed)
               else
                 (case start_sender_thread se (client_globals av srv) of
                    Inl e \<Rightarrow> (cmds, r, Inl e)
                  | Inr cl \<Rightarrow>
                      (case enter_event_loop se cl of
                         Inl e \<Rightarrow>
                           let (back, r1) = restore_route_and_cleanup_client (sin_addr addr) r
                           in (cmds @ back, r1, Inl e)
                       | Inr cl1 \<Rightarrow> (cmds, r, Inr (sent, cl1))))))"

text \<open>A start that fails after the routes were changed leaves them changed, except at the event loop.\<close>

lemma failed_start_keeps_route:
  assumes "parse_arguments big aton argv = Some (pk, addr, av)" "se_tun se = Some dev" "se_sock se" "se_system se"
    "client_handshake so (se_hs se) av pk zero_out None = (0, sent, out, b)" "\<not> se_outq se"
  shows "\<exists>cmds r. client_main so big aton se argv = (cmds, r, Inl Queue_failed) \<and> route_added r"
  using assms by (simp add: client_main_def setup_and_handshake_def setup_routes_def Let_def)

section \<open>The end\<close>

text \<open>
  The two ways out: \<open>handle_disconnect_request\<close> at the head of a round of the event loop, whose flag
  tells that it exits the process, and the end of \<open>main\<close> after the loop has returned.
\<close>

definition handle_disconnect_request ::
  "aead_fn \<Rightarrow> bytes \<Rightarrow> client_routes \<Rightarrow> client \<Rightarrow> (bool \<times> datagram list \<times> string list \<times> client_routes \<times> client) option" where
  "handle_disconnect_request enc stk r cl =
     (if disconnect_requested cl
      then (case send_disconnect enc stk cl of
              None \<Rightarrow> None
            | Some (ds, cl1) \<Rightarrow> let (cmds, r1) = restore_default r in Some (True, ds, cmds, r1, cl1))
      else Some (False, [], [], r, cl))"

definition leave_main :: "aead_fn \<Rightarrow> bytes \<Rightarrow> client_routes \<Rightarrow> client \<Rightarrow> (datagram list \<times> string list \<times> client_routes) option" where
  "leave_main enc stk r cl =
     (case (if disconnect_requested cl then send_disconnect enc stk cl else Some ([], cl)) of
        None \<Rightarrow> None
      | Some (ds, cl1) \<Rightarrow>
          let (cmds, r1) = restore_route_and_cleanup_client (sin_addr (sv_server_addr (cl_srv cl1))) r
          in Some (ds, cmds, r1))"

text \<open>
  Both restore the default route; the host route to the server is removed only at the end of
  \<open>main\<close>, which adds its removal to the same commands.
\<close>

lemma send_disconnect_srv:
  "send_disconnect enc stk cl = Some (ds, cl1) \<Longrightarrow> sv_server_addr (cl_srv cl1) = sv_server_addr (cl_srv cl)"
  by (auto simp: send_disconnect_def Let_def split: option.splits if_splits)

lemma disconnect_keeps_pin:
  assumes "handle_disconnect_request enc stk r cl = Some (True, ds, cmds, r1, cl1)" "old_gateway r \<noteq> []"
  shows "leave_main enc stk r cl = Some (ds,
    snprintf 256 (''ip route del '' @ inet_ntoa (sin_addr (sv_server_addr (cl_srv cl))) @ ''/32 2>/dev/null'') # cmds, r1)"
  using assms send_disconnect_srv
  by (auto simp: handle_disconnect_request_def leave_main_def restore_route_and_cleanup_client_def
      split: if_splits option.splits prod.splits)

section \<open>The two ends of a tunnel\<close>

lemma sender_started:
  assumes "argv_ok av" "length (sv_session_id srv) = 16" "se_args se = Some junk" "\<not> pending_rekey junk" "se_thread se"
  shows "\<exists>cl. start_sender_thread se (client_globals av srv) = Inr cl \<and> client_ok cl \<and> dummy_ready cl \<and> cl_srv cl = srv \<and>
    sa_k_send (cl_sender cl) = sv_k_send srv \<and> cl_argv cl = av \<and> \<not> pending_rekey (cl_sender cl)"
proof -
  note f = argv_frag [OF assms(1)]
  show ?thesis
    using assms f wf_table_init(1) bounded_init
    by (auto simp: start_sender_thread_def client_prepare_dummy_def client_globals_def Let_def client_ok_def dummy_ready_def
        sender_ok_def config_defs memcpy_at_def memset_at_def)
qed

text \<open>
  C3. A client that starts is connected. When the server answers the first message of a client with
  success, the answer reaches the client, and the system calls of the start succeed with the flag
  of a pending rotation clear, \<open>main\<close> reaches its event loop in a well-formed state: it sent exactly
  its first message, some session of the server holds its session identifier and its keys
  crosswise, the sender thread has the same key and the dummy packets are prepared, and all four
  sequence counters are at zero.
\<close>

theorem handshake_connects:
  assumes srv: "server_ok st" "sodium_lens so"
      "handle_msg1 so env (make_msg1 (fst (ce_kx (se_hs se))) (ce_nonce (se_hs se)) av) src server_sk st =
         Some (0, [(src, msg2)], st')"
    and args: "parse_arguments big aton argv = Some (pk, addr, av)"
    and law: "dh_law so K" "sign_law so E"
    and keys: "ce_kx (se_hs se) \<in> K" "env_kx env \<in> K" "(kx_pk, server_sk) \<in> K" "pk_to_curve so pk = Some kx_pk"
      "g_sign_sk st = Some sign_sk" "(pk, sign_sk) \<in> E"
    and lens: "length (ce_nonce (se_hs se)) = 8" "length (env_nonce env) = 8"
    and got: "ce_sent (se_hs se)"
      "receive_msg2 (ce_rounds (se_hs se)) (ce_now (se_hs se) + 15) 0 (ce_stack (se_hs se)) None = (Some msg2, None)"
    and up: "se_tun se = Some dev" "se_sock se" "se_outq se" "se_args se = Some junk" "\<not> pending_rekey junk"
      "se_thread se" "se_epoll se"
  shows "\<exists>i cmds r cl. client_main so big aton se argv =
       (cmds, r, Inr ([make_msg1 (fst (ce_kx (se_hs se))) (ce_nonce (se_hs se)) av], cl)) \<and>
     connected st' i cl \<and> client_ok cl \<and> dummy_ready cl \<and> sa_k_send (cl_sender cl) = sv_k_send (cl_srv cl) \<and>
     sv_send_seq (cl_srv cl) = 0 \<and> recv_max (cl_rw cl) = 0 \<and>
     send_seq (sessions st' ! i) = 0 \<and> recv_max (rw (sessions st' ! i)) = 0"
proof -
  obtain i sent out where i: "i < MAX_CLIENTS"
    and h: "client_handshake so (se_hs se) av pk zero_out None = (0, sent, out, None)"
    and s: "active (sessions st' ! i)" "ho_session_id out = session_id (sessions st' ! i)"
      "ho_k_send out = k_recv (sessions st' ! i)" "ho_k_recv out = k_send (sessions st' ! i)"
      "sent = [make_msg1 (fst (ce_kx (se_hs se))) (ce_nonce (se_hs se)) av]"
      "send_seq (sessions st' ! i) = 0" "rw (sessions st' ! i) = replay_window_zero"
    using keys_agree [OF srv law keys lens got, of zero_out] by blast
  have "server_ok st'"
    by (rule handle_msg1_ok [OF srv(1,2), where env = env and src = src and server_sk = server_sk and
        ?msg1.0 = "make_msg1 (fst (ce_kx (se_hs se))) (ce_nonce (se_hs se)) av"]) (use srv(3) in auto)
  then have len: "i < length (sessions st')" "length (session_id (sessions st' ! i)) = 16"
    using i by (auto simp: server_ok_def sessions_ok_def slot_ok_def session_shape_def SESSION_ID_LEN_def)
  let ?srv = "first_server pk addr out"
  obtain cl where cl: "start_sender_thread se (client_globals av ?srv) = Inr cl" "client_ok cl" "dummy_ready cl"
    "cl_srv cl = ?srv" "sa_k_send (cl_sender cl) = sv_k_send ?srv"
    using sender_started [OF arguments_ok(1) [OF args] _ up(4,5,6), of ?srv] len(2) s(2) by (auto simp: first_server_def)
  obtain t1 t2 t3 t4 where t: "se_times se = (t1, t2, t3, t4)" by (metis prod_cases4)
  obtain cl1 where cl1: "enter_event_loop se cl = Inr cl1" "client_ok cl1" "dummy_ready cl1" "cl_srv cl1 = ?srv"
    "sa_k_send (cl_sender cl1) = sv_k_send ?srv" "cl_rw cl1 = replay_window_zero"
    using cl up(7) t by (auto simp: enter_event_loop_def client_ok_def dummy_ready_def)
  have "connected st' i cl1"
    using s len cl1(4,6) by (simp add: connected_def first_server_def)
  moreover obtain cmds r where "client_main so big aton se argv = (cmds, r, Inr (sent, cl1))"
    using args up h cl(1) cl1(1) by (simp add: client_main_def setup_and_handshake_def setup_routes_def Let_def)
  ultimately show ?thesis using s cl1 by (fastforce simp: first_server_def replay_window_zero_def)
qed

text \<open>A client with the sample arguments and a sample server whose key is the printed one.\<close>

definition sample_start :: "bytes \<Rightarrow> start_env" where
  "sample_start d =
     \<lparr>se_tun = Some ''tun_client'', se_sock = True, se_gateway = Some ''192.168.1.1'', se_hs = sample_cenv d, se_system = True,
      se_outq = True, se_args = Some no_sender, se_thread = True, se_epoll = True, se_times = (1001, 1001, 1001, 1001)\<rparr>"

definition sample_line :: "string list" where
  "sample_line = [''client'', ''10.0.0.1'', ''5555'', hex_print (replicate 32 5), ''CBR:Y'']"

lemma sample_line_parsed:
  "\<exists>addr. parse_arguments (\<lambda>_. 0) (\<lambda>_. Some 7) sample_line = Some (replicate 32 5, addr, sample_argv)"
proof -
  have o: "fold (parse_option (\<lambda>_. 0)) [''CBR:Y''] default_argv = sample_argv" by code_simp
  have h: "hex2bin (hex_print (replicate 32 5)) PUBKEY_LEN = Some (replicate 32 5)"
    using hex2bin_print [of "replicate 32 5"] by (simp add: PUBKEY_LEN_def)
  show ?thesis using h o by (simp add: parse_arguments_def sample_line_def)
qed

theorem handshake_connects_witness:
  "\<exists>d st' i cmds r sent cl. handle_msg1 sample_sodium sample_env sample_msg1 sample_src (replicate 32 6) sample_server =
       Some (0, [(sample_src, d)], st') \<and>
     client_main sample_sodium (\<lambda>_. 0) (\<lambda>_. Some 7) (sample_start d) sample_line = (cmds, r, Inr (sent, cl)) \<and>
     connected st' i cl"
proof -
  obtain sig st' where a: "handle_msg1 sample_sodium sample_env sample_msg1 sample_src (replicate 32 6) sample_server =
      Some (0, [(sample_src, make_msg2 (replicate 32 3) (replicate 8 4) (vpn_addr 0) sig)], st')" "length sig = 64"
    by (rule sample_answer)
  define d where "d = make_msg2 (replicate 32 3) (replicate 8 4) (vpn_addr 0) sig"
  note r = sample_receive [OF d_def a(2), of None]
  obtain addr where p: "parse_arguments (\<lambda>_. 0) (\<lambda>_. Some 7) sample_line = Some (replicate 32 5, addr, sample_argv)"
    using sample_line_parsed by blast
  have "\<exists>i cmds r cl. client_main sample_sodium (\<lambda>_. 0) (\<lambda>_. Some 7) (sample_start d) sample_line =
       (cmds, r, Inr ([sample_msg1], cl)) \<and> connected st' i cl"
    using handshake_connects [OF sample_server_ok sample_sodium_lens _ p sample_laws(1,2), where se = "sample_start d" and
        env = sample_env and src = sample_src and server_sk = "replicate 32 6" and ?msg2.0 = d and st' = st' and
        kx_pk = "replicate 32 6" and sign_sk = "replicate 64 5" and junk = no_sender and dev = "''tun_client''"]
      a(1) r sample_make_msg1
    by (simp add: d_def [symmetric])
      (auto simp: sample_start_def sample_cenv_def sample_env_def sample_sodium_def sample_server_def map_replicate_const
        no_sender_def)
  then show ?thesis using a(1) d_def by blast
qed

end
