(* ===== verification/Shutdown.thy ===== *)
theory Shutdown
  imports Outbound_Path
begin

text \<open>
  The shutdown manager of the server, \<open>chamlon_server/src/graceful_shutdown.c\<close>: its state machine,
  the notification of the clients, the timeout and the final cleanup. The current time is an
  argument. The loops that use it are in \<open>Server_Loop\<close>.
\<close>

section \<open>State\<close>

datatype shutdown_state =
    SHUTDOWN_IDLE | SHUTDOWN_INITIATED | SHUTDOWN_DRAINING | SHUTDOWN_FORCE_TIMEOUT | SHUTDOWN_COMPLETE

record graceful_shutdown =
  sd_state :: shutdown_state
  shutdown_started :: time_t
  shutdown_timeout_sec :: int
  session_disconnect_count :: int
  session_closed_count :: int

definition GRACEFUL_SHUTDOWN_TIMEOUT_SEC :: int where [config_defs]: "GRACEFUL_SHUTDOWN_TIMEOUT_SEC = 10"

section \<open>Operations\<close>

definition graceful_shutdown_init :: "int \<Rightarrow> graceful_shutdown" where
  "graceful_shutdown_init timeout_sec =
     \<lparr>sd_state = SHUTDOWN_IDLE, shutdown_started = 0,
      shutdown_timeout_sec = (if timeout_sec > 0 then timeout_sec else GRACEFUL_SHUTDOWN_TIMEOUT_SEC),
      session_disconnect_count = 0, session_closed_count = 0\<rparr>"

definition graceful_shutdown_get_state :: "graceful_shutdown \<Rightarrow> shutdown_state" where
  "graceful_shutdown_get_state g = sd_state g"

definition graceful_shutdown_should_continue :: "graceful_shutdown \<Rightarrow> bool" where
  "graceful_shutdown_should_continue g \<longleftrightarrow> sd_state g = SHUTDOWN_IDLE"

definition graceful_shutdown_initiate :: "time_t \<Rightarrow> graceful_shutdown \<Rightarrow> graceful_shutdown" where
  "graceful_shutdown_initiate now g =
     (if sd_state g = SHUTDOWN_IDLE then g\<lparr>sd_state := SHUTDOWN_INITIATED, shutdown_started := now\<rparr> else g)"

text \<open>The loop over the sessions: how many were notified, the datagrams and the table.\<close>

fun notify_sessions :: "aead_fn \<Rightarrow> bytes \<Rightarrow> session list \<Rightarrow> (nat \<times> datagram list \<times> session list) option" where
  "notify_sessions enc stk [] = Some (0, [], [])"
| "notify_sessions enc stk (s # tbl) =
     (case (if active s
            then map_option (\<lambda>(ds, s1). (1, ds, s1)) (send_control_packet enc stk (ucast PKT_CTRL_DISCONNECT) s)
            else Some (0, [], s)) of
        None \<Rightarrow> None
      | Some (n1, ds1, s1) \<Rightarrow>
          map_option (\<lambda>(n2, ds2, tbl2). (n1 + n2, ds1 @ ds2, s1 # tbl2)) (notify_sessions enc stk tbl))"

definition graceful_shutdown_drain_sessions ::
  "aead_fn \<Rightarrow> bytes \<Rightarrow> server \<Rightarrow> graceful_shutdown \<Rightarrow> (nat \<times> datagram list \<times> server \<times> graceful_shutdown) option" where
  "graceful_shutdown_drain_sessions enc stk st g =
     (let g1 = (if sd_state g \<noteq> SHUTDOWN_DRAINING \<and> sd_state g \<noteq> SHUTDOWN_INITIATED
                then g\<lparr>sd_state := SHUTDOWN_DRAINING\<rparr> else g)
      in map_option (\<lambda>(n, ds, tbl). (n, ds, st\<lparr>sessions := tbl\<rparr>, g1\<lparr>session_disconnect_count := int n\<rparr>))
           (notify_sessions enc stk (sessions st)))"

definition graceful_shutdown_timeout_exceeded :: "time_t \<Rightarrow> graceful_shutdown \<Rightarrow> bool \<times> graceful_shutdown" where
  "graceful_shutdown_timeout_exceeded now g =
     (if shutdown_started g = 0 then (False, g)
      else
        let elapsed = now - shutdown_started g
        in if elapsed > shutdown_timeout_sec g
           then (True, if sd_state g \<noteq> SHUTDOWN_FORCE_TIMEOUT then g\<lparr>sd_state := SHUTDOWN_FORCE_TIMEOUT\<rparr> else g)
           else (False, g))"

definition count_active :: "session list \<Rightarrow> nat" where
  "count_active tbl = length (filter active tbl)"

text \<open>\<open>free_session\<close> on every slot in use, in the order of the table.\<close>

definition close_sessions :: "session list \<Rightarrow> metrics \<Rightarrow> session list \<times> metrics" where
  "close_sessions tbl m =
     fold (\<lambda>i (t, k). if active (t ! i) then free_session i t k else (t, k)) [0..<length tbl] (tbl, m)"

definition graceful_shutdown_cleanup :: "server \<Rightarrow> graceful_shutdown \<Rightarrow> server \<times> graceful_shutdown" where
  "graceful_shutdown_cleanup st g =
     (let still_active = count_active (sessions st);
          st1 = (if still_active > 0
                 then let (t, m) = close_sessions (sessions st) (stats st) in st\<lparr>sessions := t, stats := m\<rparr>
                 else st)
      in (st1, g\<lparr>sd_state := SHUTDOWN_COMPLETE\<rparr>))"

section \<open>Notification\<close>

text \<open>A notified session only loses a sequence number.\<close>

definition notified :: "session \<Rightarrow> session" where
  "notified s = (if active s then s\<lparr>send_seq := send_seq s + 1\<rparr> else s)"

lemma notify_eq:
  assumes "\<And>s. s \<in> set tbl \<Longrightarrow> active s \<Longrightarrow> params_ok s" "aead_len enc" "length stk = 16"
  shows "\<exists>ds. notify_sessions enc stk tbl = Some (count_active tbl, ds, map notified tbl) \<and>
    (\<forall>d\<in>set ds. \<exists>s\<in>set tbl. active s \<and> fst d = client_addr s)"
  using assms(1)
proof (induction tbl)
  case (Cons s tbl)
  obtain ds2 where ih: "notify_sessions enc stk tbl = Some (count_active tbl, ds2, map notified tbl)"
    "\<forall>d\<in>set ds2. \<exists>s\<in>set tbl. active s \<and> fst d = client_addr s" using Cons by auto
  show ?case
  proof (cases "active s")
    case True
    obtain ds where "send_control_packet enc stk (ucast PKT_CTRL_DISCONNECT) s = Some (ds, s\<lparr>send_seq := send_seq s + 1\<rparr>)"
      "\<forall>d\<in>set ds. fst d = client_addr s"
      using send_control_packet_params [OF True Cons.prems [of s] assms(2,3), of "ucast PKT_CTRL_DISCONNECT"] True
      by (simp split: option.splits)
    then show ?thesis using ih True by (auto simp: notified_def count_active_def)
  qed (use ih in \<open>auto simp: notified_def count_active_def\<close>)
qed (simp add: count_active_def)

section \<open>Cleanup\<close>

lemma close_sessions_prefix:
  assumes "n \<le> length tbl"
  shows "\<exists>m'. fold (\<lambda>i (t, k). if active (t ! i) then free_session i t k else (t, k)) [0..<n] (tbl, m) =
    (map (\<lambda>s. if active s then wipe_session (s\<lparr>outq := None\<rparr>) else s) (take n tbl) @ drop n tbl, m')"
  using assms
proof (induction n)
  case (Suc n)
  let ?f = "\<lambda>s. if active s then wipe_session (s\<lparr>outq := None\<rparr>) else s"
  obtain m' where ih: "fold (\<lambda>i (t, k). if active (t ! i) then free_session i t k else (t, k)) [0..<n] (tbl, m) =
    (map ?f (take n tbl) @ drop n tbl, m')" using Suc by auto
  have n: "n < length tbl" using Suc.prems by simp
  have nth: "(map ?f (take n tbl) @ drop n tbl) ! n = tbl ! n" using n by (simp add: nth_append)
  have upd: "(map ?f (take n tbl) @ drop n tbl)[n := x] = map ?f (take n tbl) @ x # drop (Suc n) tbl" for x
    using n by (simp add: list_update_append Cons_nth_drop_Suc [symmetric])
  show ?case
    using n ih by (simp add: nth upd free_session_def take_Suc_conv_app_nth) (simp add: Cons_nth_drop_Suc [symmetric])
qed simp

lemma close_sessions_eq:
  obtains m' where "close_sessions tbl m = (map (\<lambda>s. if active s then wipe_session (s\<lparr>outq := None\<rparr>) else s) tbl, m')"
  using close_sessions_prefix [of "length tbl" tbl m] that by (auto simp: close_sessions_def)

lemma cleanup_closes:
  assumes "graceful_shutdown_cleanup st g = (st', g')" "sessions_ok (sessions st)"
  shows "sessions_ok (sessions st')" "\<forall>s\<in>set (sessions st'). \<not> active s \<and> k_send s = replicate AEAD_KEY_LEN 0 \<and>
    k_recv s = replicate AEAD_KEY_LEN 0" "sd_state g' = SHUTDOWN_COMPLETE"
proof -
  let ?f = "\<lambda>s. if active s then wipe_session (s\<lparr>outq := None\<rparr>) else s"
  obtain m' where c: "close_sessions (sessions st) (stats st) = (map ?f (sessions st), m')" by (rule close_sessions_eq)
  have id: "sessions st = map ?f (sessions st)" if "count_active (sessions st) = 0"
    using that by (auto simp: count_active_def filter_empty_conv intro!: map_idI [symmetric])
  have s: "sessions st' = map ?f (sessions st)" and "sd_state g' = SHUTDOWN_COMPLETE"
    using assms(1) c id by (auto simp: graceful_shutdown_cleanup_def Let_def split: if_splits)
  then show "sd_state g' = SHUTDOWN_COMPLETE" by simp
  have slot: "slot_ok i (?f (sessions st ! i)) \<and> \<not> active (?f (sessions st ! i))" if "i < length (sessions st)" for i
    using sessions_okD [OF assms(2) that] wipe_slot_ok [of i "(sessions st ! i)\<lparr>outq := None\<rparr>"]
    by (auto simp: wipe_session_def)
  then show "sessions_ok (sessions st')" using assms(2) s by (simp add: sessions_ok_def)
  show "\<forall>s\<in>set (sessions st'). \<not> active s \<and> k_send s = replicate AEAD_KEY_LEN 0 \<and> k_recv s = replicate AEAD_KEY_LEN 0"
  proof
    fix x assume "x \<in> set (sessions st')"
    then obtain i where "i < length (sessions st)" "x = ?f (sessions st ! i)" by (auto simp: s in_set_conv_nth)
    then have "slot_ok i x" "\<not> active x" using slot [of i] by simp_all
    then show "\<not> active x \<and> k_send x = replicate AEAD_KEY_LEN 0 \<and> k_recv x = replicate AEAD_KEY_LEN 0"
      by (simp add: slot_ok_def)
  qed
qed

end
