(* ===== verification/Server_Loop.thy ===== *)
theory Server_Loop
  imports Shutdown C_Strings
begin

text \<open>
  The server as a whole, \<open>main\<close> of \<open>chamlon_server/src/vpn_server.c\<close>: the start, the rounds of the
  event loop, and the interleaving of that loop with the workers of the thread pool and of the
  schedulers. A step of the system is one round of one thread, so handlers of different threads
  are interleaved but not overlapped. The job queues are the lists that the linked queues of
  \<open>Thread_Pool\<close> implement.
\<close>

section \<open>State\<close>

record vpn_server =
  vs_core :: server
  vs_jobs :: "job list list"
  vs_shutdown :: graceful_shutdown
  vs_last_cleanup :: time_t
  vs_last_report :: time_t
  vs_sk :: bytes

definition SERVER_MAX_BURST :: nat where [config_defs]: "SERVER_MAX_BURST = 64"

section \<open>Start\<close>

text \<open>The port of the command line; \<open>None\<close> is the refusal.\<close>

definition parse_port :: "string \<Rightarrow> u16 option" where
  "parse_port arg =
     (let (port_val, endptr) = strtol10 arg
      in if \<not> long_range port_val \<or> endptr \<noteq> [] \<or> port_val < 1 \<or> port_val > 65535 then None
         else Some (of_int port_val))"

text \<open>The commands of the TUN and NAT setup with their result; \<open>ok\<close> is the outcome of \<open>system\<close>.\<close>

definition server_setup_interface :: "string \<Rightarrow> string \<Rightarrow> string list" where
  "server_setup_interface ifname ip_cidr =
     (if length ifname \<ge> IFNAMSIZ \<or> length ip_cidr \<ge> 64 then []
      else
        let cmd1 = ''ip addr add '' @ ip_cidr @ '' dev '' @ ifname; cmd2 = ''ip link set '' @ ifname @ '' up''
        in if length cmd1 \<ge> 256 then [] else if length cmd2 \<ge> 256 then [cmd1] else [cmd1, cmd2])"

definition setup_ip_forward :: "bool \<Rightarrow> int \<Rightarrow> string list \<times> int" where
  "setup_ip_forward ok sw =
     (if sw = 1 then ([''sysctl -w net.ipv4.ip_forward=1''], if ok then 0 else -1)
      else if sw = 0 then ([''sysctl -w net.ipv4.ip_forward=0''], if ok then 0 else -1)
      else ([], -2))"

definition setup_nat :: "string option \<Rightarrow> bool \<Rightarrow> string list \<times> int" where
  "setup_nat line ok =
     (case line of
        None \<Rightarrow> ([], -1)
      | Some l \<Rightarrow>
          ([snprintf 256 (''iptables -t nat -A POSTROUTING -s 10.10.0.0/24 -o '' @ first_line 64 l @ '' -j MASQUERADE'')],
           if ok then 0 else -1))"

datatype server_error =
    Sv_usage | Sv_bad_ip | Sv_bad_port | Sv_limiter | Sv_forward | Sv_tun | Sv_key | Sv_socket | Sv_pool | Sv_epoll

text \<open>
  The outcomes of the calls of the start: the table of the rate limiter, the shell commands, the
  interface of the default route, the TUN device, the key file with a fresh key pair and the bytes
  written, the socket with its options and address, the processors, the allocations of the pool,
  the epoll instance, the allocations and threads of the schedulers, and the clock.
\<close>

record boot_env =
  be_limiter :: "ip_rate_limit list option"
  be_sysctl :: bool
  be_iface :: "string option"
  be_iptables :: bool
  be_tun :: bool
  be_file :: "bytes option"
  be_keypair :: "(bytes \<times> bytes) option"
  be_written :: "nat option"
  be_socket :: bool
  be_ncpus :: int
  be_pool :: bool
  be_epoll :: bool
  be_shards :: "(alloc \<times> bool) list"
  be_times :: "time_t \<times> time_t \<times> time_t \<times> time_t"

definition boot_server :: "boot_env \<Rightarrow> rate_limiter \<Rightarrow> server_keys \<Rightarrow> nat \<Rightarrow> vpn_server" where
  "boot_server be rl ks n =
     (let (t1, t2, t3, t4) = be_times be
      in \<lparr>vs_core = \<lparr>sessions = sessions_init, limiter = rl, stats = metrics_init t2,
                     g_shards = init_global_scheduler 1024 (be_shards be), next_packet_id = 1,
                     g_sign_sk = Some (key_sign_sk ks)\<rparr>,
          vs_jobs = replicate n [], vs_shutdown = graceful_shutdown_init GRACEFUL_SHUTDOWN_TIMEOUT_SEC,
          vs_last_cleanup = t3, vs_last_report = t4, vs_sk = key_sk ks\<rparr>)"

text \<open>\<open>main\<close> up to its loop: the commands, and the bound address, the printed key and the state.\<close>

definition server_main ::
  "sodium \<Rightarrow> (string \<Rightarrow> u32 option) \<Rightarrow> boot_env \<Rightarrow> string list \<Rightarrow>
   string list \<times> (server_error + ((u16 \<times> u32) \<times> string \<times> vpn_server))" where
  "server_main so aton be argv =
     (if length argv \<noteq> 3 then ([], Inl Sv_usage)
      else
     (case aton (argv ! 1) of
        None \<Rightarrow> ([], Inl Sv_bad_ip)
      | Some ip \<Rightarrow>
     (case parse_port (argv ! 2) of
        None \<Rightarrow> ([], Inl Sv_bad_port)
      | Some port \<Rightarrow>
     (case rate_limiter_init (fst (be_times be)) (be_limiter be) of
        None \<Rightarrow> ([], Inl Sv_limiter)
      | Some (rl, bp) \<Rightarrow>
     (let (fwd, rc1) = setup_ip_forward (be_sysctl be) 1; (nat_cmds, rc2) = setup_nat (be_iface be) (be_iptables be)
      in if rc1 < 0 then (fwd, Inl Sv_forward)
         else if rc2 < 0 then (fwd @ nat_cmds, Inl Sv_forward)
         else if \<not> be_tun be then (fwd @ nat_cmds, Inl Sv_tun)
         else
     (let cmds = fwd @ nat_cmds @ server_setup_interface ''tun_server'' ''10.10.0.1/24''
      in case load_or_create_server_key so (be_file be) (be_keypair be) (be_written be) of
           (None, _) \<Rightarrow> (cmds, Inl Sv_key)
         | (Some ks, _) \<Rightarrow>
             if \<not> be_socket be then (cmds, Inl Sv_socket)
             else
               (case thread_pool_create (be_pool be) (if be_ncpus be < 2 then 2 else be_ncpus be) of
                  None \<Rightarrow> (cmds, Inl Sv_pool)
                | Some pool \<Rightarrow>
                    if \<not> be_epoll be then (cmds, Inl Sv_epoll)
                    else (cmds, Inr ((htons port, ip), hex_print (key_sign_pk ks),
                                     boot_server be rl ks (thread_pool_num_threads pool))))))))))"

section \<open>Receiving\<close>

text \<open>
  One datagram or one packet of the TUN device, with the outcomes of the allocations of the job and
  of its queue node.
\<close>

record rx_datagram =
  rd_data :: bytes
  rd_addr :: u32
  rd_port :: u16
  rd_mem :: bool
  rd_node :: "addr option"

record tun_read =
  tr_data :: bytes
  tr_mem :: bool
  tr_node :: "addr option"

definition submit_job :: "bool \<Rightarrow> addr option \<Rightarrow> (byte \<times> job) option \<Rightarrow> job list list \<Rightarrow> job list list" where
  "submit_job mem mal kj qs =
     (case kj of None \<Rightarrow> qs | Some (key, jb) \<Rightarrow> if mem then snd (lists_step (Submit mal jb key) qs) else qs)"

definition receive_datagram :: "rx_datagram \<Rightarrow> job list list \<Rightarrow> job list list" where
  "receive_datagram d qs =
     submit_job (rd_mem d) (rd_node d) (dispatch_inbound (take (BUFFER_SIZE - 1) (rd_data d)) (rd_addr d) (rd_port d)) qs"

text \<open>The inner loop over the socket; a datagram without contents ends it like an empty socket.\<close>

fun receive_burst :: "nat \<Rightarrow> rx_datagram list \<Rightarrow> job list list \<Rightarrow> job list list" where
  "receive_burst (Suc b) (d # ds) qs = (if rd_data d = [] then qs else receive_burst b ds (receive_datagram d qs))"
| "receive_burst b ds qs = qs"

fun tun_burst :: "nat \<Rightarrow> server \<Rightarrow> tun_read list \<Rightarrow> job list list \<Rightarrow> job list list" where
  "tun_burst (Suc b) st (r # rs) qs =
     tun_burst b st rs (submit_job (tr_mem r) (tr_node r) (handle_outbound_tun (take BUFFER_SIZE (tr_data r)) st) qs)"
| "tun_burst b st rs qs = qs"

datatype loop_event = Udp_event "rx_datagram list" | Tun_event "tun_read list"

fun loop_events :: "loop_event list \<Rightarrow> server \<Rightarrow> job list list \<Rightarrow> job list list" where
  "loop_events [] st qs = qs"
| "loop_events (Udp_event ds # es) st qs = loop_events es st (receive_burst SERVER_MAX_BURST ds qs)"
| "loop_events (Tun_event rs # es) st qs = loop_events es st (tun_burst SERVER_MAX_BURST st rs qs)"

section \<open>Rounds\<close>

text \<open>
  What one round of the event loop gets from outside: the clock as the loop, the maintenance and
  the rate limiter read it, the uninitialised session identifier of the control packets, and the
  outcome of the allocations for keepalives.
\<close>

record loop_env =
  le_now :: time_t
  le_maint :: time_t
  le_limiter :: time_t
  le_sid :: bytes
  le_mem :: bool

definition periodic :: "aead_fn \<Rightarrow> loop_env \<Rightarrow> vpn_server \<Rightarrow> (datagram list \<times> vpn_server) option" where
  "periodic enc le vs =
     (if le_now le - vs_last_cleanup vs \<ge> 5
      then (case perform_maintenance enc (le_sid le) (le_mem le) (le_maint le) (vs_core vs) of
              None \<Rightarrow> None
            | Some (ds, st1) \<Rightarrow>
                let st2 = st1\<lparr>limiter := rate_limiter_cleanup (le_limiter le) (limiter st1)\<rparr>;
                    st3 = st2\<lparr>stats := metrics_set_active_connections (int (count_active (sessions st2))) (stats st2)\<rparr>
                in Some (ds, vs\<lparr>vs_core := st3, vs_last_cleanup := le_now le\<rparr>))
      else Some ([], vs))"

definition main_round :: "sodium \<Rightarrow> loop_env \<Rightarrow> loop_event list \<Rightarrow> vpn_server \<Rightarrow> (datagram list \<times> vpn_server) option" where
  "main_round so le es vs =
     (case periodic (aead_enc so) le vs of
        None \<Rightarrow> None
      | Some (ds, vs1) \<Rightarrow>
          let vs2 = (if le_now le - vs_last_report vs1 \<ge> 30 then vs1\<lparr>vs_last_report := le_now le\<rparr> else vs1)
          in Some (ds, vs2\<lparr>vs_jobs := loop_events es (vs_core vs2) (vs_jobs vs2)\<rparr>))"

text \<open>One round of worker \<open>i\<close> of the pool: the job it takes and what it sends and writes.\<close>

definition work_round ::
  "sodium \<Rightarrow> nat \<Rightarrow> call_env \<Rightarrow> (nat \<Rightarrow> bool \<times> bool) \<Rightarrow> bytes \<Rightarrow> vpn_server \<Rightarrow>
   (datagram list \<times> bytes list \<times> vpn_server) option" where
  "work_round so i env mem stk vs =
     (case lists_step (Take i) (vs_jobs vs) of
        (Taken (Some jb), qs) \<Rightarrow>
          map_option (\<lambda>(ds, out, st). (ds, out, vs\<lparr>vs_core := st, vs_jobs := qs\<rparr>))
            (run_job so env mem stk (vs_sk vs) jb (vs_core vs))
      | _ \<Rightarrow> Some ([], [], vs))"

text \<open>One round of the worker of scheduler shard \<open>k\<close>, with three readings of the clocks.\<close>

definition sched_round ::
  "aead_fn \<Rightarrow> nat \<Rightarrow> time_t \<Rightarrow> timespec \<Rightarrow> timespec \<Rightarrow> alloc \<Rightarrow> bytes \<Rightarrow> vpn_server \<Rightarrow>
   (datagram list \<times> vpn_server) option" where
  "sched_round enc k now now1 now2 grow stk vs =
     (let st = vs_core vs; sh = g_shards st ! k
      in case sh_pq sh of
           None \<Rightarrow> None
         | Some pq \<Rightarrow>
             (case worker_round enc stk now now1 now2 grow pq (sessions st) of
                None \<Rightarrow> None
              | Some (t, ds, pq1, tbl1) \<Rightarrow>
                  Some (ds, vs\<lparr>vs_core := st\<lparr>sessions := tbl1, g_shards := (g_shards st)[k := sh\<lparr>sh_pq := Some pq1\<rparr>]\<rparr>\<rparr>)))"

datatype vpn_label =
    Main_round loop_env "loop_event list"
  | Work_round nat call_env "nat \<Rightarrow> bool \<times> bool" bytes
  | Sched_round nat time_t timespec timespec alloc bytes

fun vpn_step :: "sodium \<Rightarrow> vpn_label \<Rightarrow> vpn_server \<Rightarrow> (datagram list \<times> bytes list \<times> vpn_server) option" where
  "vpn_step so (Main_round le es) vs = map_option (\<lambda>(ds, vs1). (ds, [], vs1)) (main_round so le es vs)"
| "vpn_step so (Work_round i env mem stk) vs = work_round so i env mem stk vs"
| "vpn_step so (Sched_round k now now1 now2 grow stk) vs =
     map_option (\<lambda>(ds, vs1). (ds, [], vs1)) (sched_round (aead_enc so) k now now1 now2 grow stk vs)"

section \<open>Invariant\<close>

text \<open>
  What reaches a worker from the network: a full data header, and under every key a plaintext with
  a tunnel header that announces at most \<open>MAX_PACKET_SIZE\<close> bytes, if any.
\<close>

definition wire_ok :: "sodium \<Rightarrow> bytes \<Rightarrow> bool" where
  "wire_ok so buf \<longleftrightarrow> DATA_HEADER_LEN \<le> length buf \<and>
     (\<forall>k sid q pl. aead_decrypt (aead_dec so) k sid q (drop DATA_HEADER_LEN buf) = Some pl \<longrightarrow>
        sizeof_tunnel_header \<le> length pl \<and> unat (total_ip_len (tunnel_header_of pl)) \<le> MAX_PACKET_SIZE)"

text \<open>A job in queue \<open>i\<close> of \<open>n\<close>: the queue is chosen by the session identifier or the tunnel address.\<close>

fun job_ok :: "sodium \<Rightarrow> nat \<Rightarrow> nat \<Rightarrow> job \<Rightarrow> bool" where
  "job_ok so n i (JOB_TYPE_INBOUND_CRYPTO buf ip port) \<longleftrightarrow>
     length buf < BUFFER_SIZE \<and> wire_ok so buf \<and>
     (ptype (proto_header_of buf) = PKT_TYPE_DATA \<longrightarrow> unat (packet_sid buf ! 0) mod n = i)"
| "job_ok so n i (JOB_TYPE_OUTBOUND_CRYPTO buf) \<longleftrightarrow>
     20 \<le> length buf \<and> length buf \<le> BUFFER_SIZE \<and> unat (buf ! 19) mod n = i"
| "job_ok so n i JOB_TYPE_SHUTDOWN \<longleftrightarrow> False"

definition jobs_ok :: "sodium \<Rightarrow> job list list \<Rightarrow> bool" where
  "jobs_ok so qs \<longleftrightarrow> qs \<noteq> [] \<and> (\<forall>i<length qs. length (qs ! i) \<le> SHARD_MAX_SIZE \<and> (\<forall>jb\<in>set (qs ! i). job_ok so (length qs) i jb))"

definition vpn_ok :: "sodium \<Rightarrow> vpn_server \<Rightarrow> bool" where
  "vpn_ok so vs \<longleftrightarrow> server_ok (vs_core vs) \<and> outqs_present (sessions (vs_core vs)) \<and> jobs_ok so (vs_jobs vs)"

text \<open>What a label may carry: honest datagrams, stack contents of the right size, existing threads.\<close>

definition rx_ok :: "sodium \<Rightarrow> rx_datagram \<Rightarrow> bool" where
  "rx_ok so d \<longleftrightarrow> wire_ok so (take (BUFFER_SIZE - 1) (rd_data d))"

fun event_ok :: "sodium \<Rightarrow> loop_event \<Rightarrow> bool" where
  "event_ok so (Udp_event ds) \<longleftrightarrow> (\<forall>d\<in>set ds. rx_ok so d)"
| "event_ok so (Tun_event rs) \<longleftrightarrow> True"

fun label_ok :: "sodium \<Rightarrow> vpn_server \<Rightarrow> vpn_label \<Rightarrow> bool" where
  "label_ok so vs (Main_round le es) \<longleftrightarrow>
     graceful_shutdown_get_state (vs_shutdown vs) = SHUTDOWN_IDLE \<and> length (le_sid le) = SESSION_ID_LEN \<and> (\<forall>e\<in>set es. event_ok so e)"
| "label_ok so vs (Work_round i env mem stk) \<longleftrightarrow> i < length (vs_jobs vs) \<and> env_outq env \<and> length stk = BUFFER_SIZE"
| "label_ok so vs (Sched_round k now now1 now2 grow stk) \<longleftrightarrow> k < NUM_SHARDS \<and> length stk = SESSION_ID_LEN"

section \<open>Queues\<close>

lemma submit_job_ok:
  assumes "jobs_ok so qs" "\<And>key jb. kj = Some (key, jb) \<Longrightarrow> job_ok so (length qs) (unat key mod length qs) jb"
  shows "jobs_ok so (submit_job mem mal kj qs) \<and> length (submit_job mem mal kj qs) = length qs"
proof (cases kj)
  case (Some p)
  obtain key jb where p: "p = (key, jb)" by fastforce
  let ?i = "unat key mod length qs"
  have ok: "job_ok so (length qs) ?i jb" using assms(2) Some p by blast
  have i: "?i < length qs" using assms(1) by (simp add: jobs_ok_def)
  have "jobs_ok so (qs[?i := qs ! ?i @ [jb]])" if "length (qs ! ?i) < SHARD_MAX_SIZE"
    using assms(1) ok i that by (auto simp: jobs_ok_def nth_list_update)
  then show ?thesis using assms(1) Some p by (auto simp: submit_job_def Let_def not_le)
qed (use assms in \<open>simp add: submit_job_def\<close>)

lemma dispatch_ok:
  assumes "dispatch_inbound buf ip port = Some (key, jb)" "length buf < BUFFER_SIZE" "wire_ok so buf"
  shows "job_ok so n (unat key mod n) jb"
proof -
  have "30 \<le> length buf" using assms(3) by (simp add: wire_ok_def config_defs)
  then have "packet_sid buf ! 0 = buf ! 6" by (simp add: packet_sid_def slice_def config_defs)
  then show ?thesis
    using assms \<open>30 \<le> length buf\<close> by (auto simp: dispatch_inbound_def Let_def config_defs split: if_splits)
qed

lemma receive_burst_ok:
  "jobs_ok so qs \<Longrightarrow> \<forall>d\<in>set ds. rx_ok so d \<Longrightarrow>
   jobs_ok so (receive_burst b ds qs) \<and> length (receive_burst b ds qs) = length qs"
proof (induction b ds qs rule: receive_burst.induct)
  case (1 b d ds qs)
  have "jobs_ok so (receive_datagram d qs) \<and> length (receive_datagram d qs) = length qs"
    unfolding receive_datagram_def
    by (rule submit_job_ok [OF "1.prems"(1)], rule dispatch_ok) (use "1.prems"(2) in \<open>auto simp: rx_ok_def config_defs\<close>)
  then show ?case using 1 by simp
qed simp_all

lemma tun_burst_ok:
  "jobs_ok so qs \<Longrightarrow> jobs_ok so (tun_burst b st rs qs) \<and> length (tun_burst b st rs qs) = length qs"
proof (induction b st rs qs rule: tun_burst.induct)
  case (1 b st r rs qs)
  have "jobs_ok so (submit_job (tr_mem r) (tr_node r) (handle_outbound_tun (take BUFFER_SIZE (tr_data r)) st) qs) \<and>
      length (submit_job (tr_mem r) (tr_node r) (handle_outbound_tun (take BUFFER_SIZE (tr_data r)) st) qs) = length qs"
    by (rule submit_job_ok [OF "1.prems"]) (auto simp: handle_outbound_tun_def not_less split: if_splits)
  then show ?case using 1 by simp
qed simp_all

lemma loop_events_ok:
  "jobs_ok so qs \<Longrightarrow> \<forall>e\<in>set es. event_ok so e \<Longrightarrow>
   jobs_ok so (loop_events es st qs) \<and> length (loop_events es st qs) = length qs"
proof (induction es st qs rule: loop_events.induct)
  case (2 ds es st qs)
  then show ?case using receive_burst_ok [of so qs ds SERVER_MAX_BURST] by simp
next
  case (3 rs es st qs)
  then show ?case using tun_burst_ok [of so qs SERVER_MAX_BURST st rs] by simp
qed simp

section \<open>Handlers keep the queues of the sessions\<close>

lemma outqs_present_nth: "outqs_present tbl \<longleftrightarrow> (\<forall>i<length tbl. active (tbl ! i) \<longrightarrow> outq (tbl ! i) \<noteq> None)"
  unfolding outqs_present_def by (simp add: all_set_conv_all_nth)

lemma others_kept_outqs:
  assumes "others_kept I tbl tbl'" "outqs_present tbl" "length tbl' = length tbl"
    "\<And>i. i \<in> I \<Longrightarrow> i < length tbl' \<Longrightarrow> outq (tbl' ! i) \<noteq> None"
  shows "outqs_present tbl'"
  unfolding outqs_present_nth
proof (intro allI impI)
  fix j assume j: "j < length tbl'" "active (tbl' ! j)"
  show "outq (tbl' ! j) \<noteq> None"
  proof (cases "j \<in> I")
    case False
    then have "tbl' ! j = tbl ! j" using assms(1) j by (simp add: others_kept_def)
    then show ?thesis using assms(2,3) j by (simp add: outqs_present_nth)
  qed (use assms(4) j in blast)
qed

lemma server_ok_length: "server_ok st \<Longrightarrow> length (sessions st) = MAX_CLIENTS"
  by (simp add: server_ok_def sessions_ok_def)

lemma msg1_outqs:
  assumes "server_ok st" "sodium_lens so" "outqs_present (sessions st)"
  shows "\<exists>rc ds st'. handle_msg1 so env msg1 src server_sk st = Some (rc, ds, st') \<and> server_ok st' \<and>
    outqs_present (sessions st')"
proof (cases "\<exists>i. admitted env msg1 src st i")
  case False
  obtain st' where "handle_msg1 so env msg1 src server_sk st = Some (-1, [], st')"
    "sessions st' = sessions st" "g_shards st' = g_shards st"
    by (rule msg1_refused [of env msg1 src st so server_sk]) (use False in auto)
  then show ?thesis using assms by (simp add: server_ok_def)
next
  case True
  then obtain i where "admitted env msg1 src st i" by blast
  from admitted_outcome [OF assms(1,2) this, of server_sk] obtain rc ds st' where
    r: "handle_msg1 so env msg1 src server_sk st = Some (rc, ds, st')" "server_ok st'" and
    c: "(\<exists>i dh1 dh2. session_installed so env msg1 src dh1 dh2 i (sessions st' ! i) \<and>
        others_kept {i} (sessions st) (sessions st')) \<or> others_kept {} (sessions st) (sessions st')"
    by (simp split: if_splits) blast+
  have len: "length (sessions st') = length (sessions st)" using r(2) assms(1) by (simp add: server_ok_length)
  have "outqs_present (sessions st')"
    using c others_kept_outqs [OF _ assms(3) len] by (fastforce simp: session_installed_def)
  then show ?thesis using r by blast
qed

lemma rehandshake_outqs:
  assumes "server_ok st" "sodium_lens so" "outqs_present (sessions st)" "env_outq env"
  shows "\<exists>rc ds st'. handle_rehandshake_msg1 so env msg1 src server_sk st = Some (rc, ds, st') \<and> server_ok st' \<and>
    outqs_present (sessions st')"
proof -
  note m = msg1_outqs [OF assms(1-3), of env msg1 src server_sk]
  obtain rc ds st' where r: "handle_rehandshake_msg1 so env msg1 src server_sk st = Some (rc, ds, st')" "server_ok st'"
    by (rule rehandshake_ok [OF assms(1,2)])
  consider "handle_rehandshake_msg1 so env msg1 src server_sk st = handle_msg1 so env msg1 src server_sk st"
    | "st' = st"
    | i dh1 dh2 where "sessions st' = (sessions st)[i := rekeyed_slot so env msg1 dh1 dh2 (sessions st ! i)]"
  proof (cases "length msg1 = 56 \<and> session_by_addr src (sessions st) \<noteq> None")
    case False
    have lens: "sizeof_proto_header + MSG1_LEN + PARAMS = 56" by (simp add: config_defs)
    show ?thesis using that False r(1) unfolding handle_rehandshake_msg1_def lens by (auto split: if_splits)
  next
    case True
    then obtain i where i: "session_by_addr src (sessions st) = Some i" "length msg1 = 56" by auto
    show ?thesis using that r(1) unfolding rehandshake_eq [OF i] by (auto simp: Let_def split: option.splits)
  qed
  then show ?thesis
  proof cases
    case 1
    then show ?thesis using m by simp
  next
    case 2
    then show ?thesis using r assms(1,3) by blast
  next
    case 3
    then have "outqs_present (sessions st')"
      using assms(3,4) by (auto simp: rekeyed_slot_fields intro!: outqs_present_update)
    then show ?thesis using r by blast
  qed
qed

lemma inbound_session_outqs:
  assumes st: "server_ok st" "outqs_present (sessions st)" and i: "i < length (sessions st)" "active (sessions st ! i)"
    and so: "sodium_lens so" and buf: "30 \<le> length buf" "length buf \<le> 1600" and stk: "length stk = 1600"
    and hon: "honest_peer so (sessions st ! i) buf"
    and r: "inbound_session so now stk buf i st = Some (out, st')"
  shows "outqs_present (sessions st')"
proof -
  have slot: "slot_ok i (sessions st ! i)" using st i by (simp add: server_ok_def sessions_ok_def)
  have o: "outq (sessions st ! i) \<noteq> None" using st(2) i by (simp add: outqs_present_nth)
  show ?thesis
    by (rule inbound_session_cases [OF slot i(2,1) so buf stk hon, where now = now])
      (use r o i in \<open>auto simp: free_session_def wipe_session_def intro!: outqs_present_update [OF st(2)] split: if_splits\<close>)
qed

section \<open>Every step succeeds\<close>

lemma inbound_job_ok:
  assumes st: "server_ok st" "outqs_present (sessions st)" and so: "sodium_lens so" and env: "env_outq env"
    and buf: "length buf \<le> BUFFER_SIZE" "wire_ok so buf" and stk: "length stk = BUFFER_SIZE"
  shows "\<exists>ds out st'. handle_inbound_udp so env stk buf src server_sk st = Some (ds, out, st') \<and> server_ok st' \<and>
    outqs_present (sessions st') \<and> (\<forall>p\<in>set out. length p \<le> MAX_PACKET_SIZE)"
proof -
  have len: "30 \<le> length buf" "length stk = 1600" using buf(2) stk by (simp_all add: wire_ok_def config_defs)
  have hon: "honest_peer so s buf" for s using buf(2) by (auto simp: wire_ok_def honest_peer_def)
  note ok = inbound_udp_ok [OF st(1) so len(2,1) hon, of env src server_sk]
  show ?thesis
    using len(1)
  proof (cases rule: inbound_udp_cases [where so = so and env = env and stk = stk and src = src and
        server_sk = server_sk and st = st])
    case (ignored rl m)
    then show ?thesis using st by simp
  next
    case (handshake r)
    then show ?thesis
      using msg1_outqs [OF st(1) so st(2), of env buf src server_sk]
        rehandshake_outqs [OF st(1) so st(2) env, of buf src server_sk] by auto
  next
    case (data i rl m)
    note i = session_by_id_Some [OF data(3)]
    let ?st = "st\<lparr>limiter := rl, stats := m\<rparr>"
    obtain ds out st' where r: "handle_inbound_udp so env stk buf src server_sk st = Some (ds, out, st')" "server_ok st'"
      "\<forall>p\<in>set out. length p \<le> MAX_PACKET_SIZE" using ok by blast
    then have "inbound_session so (env_now env) stk buf i ?st = Some (out, st')" using data(4) by auto
    then have "outqs_present (sessions st')"
      by (rule inbound_session_outqs [rotated -1]) (use st i so len data(2) hon in auto)
    then show ?thesis using r by blast
  qed
qed

lemma run_job_ok:
  assumes st: "server_ok st" "outqs_present (sessions st)" and so: "sodium_lens so" and env: "env_outq env"
    and jb: "job_ok so n i jb" and stk: "length stk = BUFFER_SIZE"
  shows "\<exists>ds out st'. run_job so env mem stk server_sk jb st = Some (ds, out, st') \<and> server_ok st' \<and>
    outqs_present (sessions st') \<and> (\<forall>p\<in>set out. length p \<le> MAX_PACKET_SIZE)"
proof (cases jb)
  case (JOB_TYPE_INBOUND_CRYPTO buf ip port)
  then show ?thesis
    using inbound_job_ok [OF st so env _ _ stk, of buf] jb by (simp add: run_job_def)
next
  case (JOB_TYPE_OUTBOUND_CRYPTO buf)
  have "aead_len (aead_enc so)" "length stk = MAX_FRAG" using so stk by (simp_all add: sodium_lens_def config_defs)
  from outbound_tun_ok [OF st(1) this, of mem buf] st(2) JOB_TYPE_OUTBOUND_CRYPTO show ?thesis by (auto simp: run_job_def)
qed (use jb in simp)

lemma maintenance_outqs:
  assumes "outqs_present tbl"
  shows "outqs_present (map (maintained now) tbl)"
proof -
  have "active (maintained now s) \<Longrightarrow> active s \<and> outq (maintained now s) = outq s" for s
    by (cases "expired now s") (simp_all add: maintained_def after_keepalive_def wipe_session_def Let_def split: if_splits)
  then show ?thesis using assms by (fastforce simp: outqs_present_def)
qed

lemma periodic_ok:
  assumes "vpn_ok so vs" "aead_len enc" "length (le_sid le) = 16"
  obtains ds vs' where "periodic enc le vs = Some (ds, vs')" "vpn_ok so vs'" "vs_jobs vs' = vs_jobs vs"
    "vs_shutdown vs' = vs_shutdown vs"
proof (cases "5 \<le> le_now le - vs_last_cleanup vs")
  case True
  have st: "server_ok (vs_core vs)" "outqs_present (sessions (vs_core vs))" "jobs_ok so (vs_jobs vs)"
    using assms(1) by (simp_all add: vpn_ok_def)
  let ?tbl = "map (maintained (le_maint le)) (sessions (vs_core vs))"
  obtain ds m where p: "perform_maintenance enc (le_sid le) (le_mem le) (le_maint le) (vs_core vs) =
      Some (ds, (vs_core vs)\<lparr>sessions := ?tbl, stats := m\<rparr>)" "server_ok ((vs_core vs)\<lparr>sessions := ?tbl, stats := m\<rparr>)"
    using maintenance_eq [OF st(1) assms(2,3)] by blast
  define st3 where "st3 = (vs_core vs)\<lparr>sessions := ?tbl, limiter := rate_limiter_cleanup (le_limiter le) (limiter (vs_core vs)),
    stats := metrics_set_active_connections (int (count_active ?tbl)) m\<rparr>"
  have "periodic enc le vs = Some (ds, vs\<lparr>vs_core := st3, vs_last_cleanup := le_now le\<rparr>)"
    using True p(1) by (simp add: periodic_def Let_def st3_def)
  moreover have "server_ok st3" using p(2) by (simp add: st3_def server_ok_def)
  moreover have "outqs_present (sessions st3)" using maintenance_outqs [OF st(2)] by (simp add: st3_def)
  ultimately show ?thesis using that st(3) by (simp add: vpn_ok_def)
next
  case False
  then show ?thesis using that assms(1) by (simp add: periodic_def)
qed

lemma main_round_ok:
  assumes "vpn_ok so vs" "sodium_lens so" "length (le_sid le) = SESSION_ID_LEN" "\<forall>e\<in>set es. event_ok so e"
  obtains ds vs' where "main_round so le es vs = Some (ds, vs')" "vpn_ok so vs'"
    "length (vs_jobs vs') = length (vs_jobs vs)" "vs_shutdown vs' = vs_shutdown vs"
proof -
  have enc: "aead_len (aead_enc so)" "length (le_sid le) = 16" using assms(2,3) by (simp_all add: sodium_lens_def config_defs)
  obtain ds vs1 where p: "periodic (aead_enc so) le vs = Some (ds, vs1)" "vpn_ok so vs1" "vs_jobs vs1 = vs_jobs vs"
    "vs_shutdown vs1 = vs_shutdown vs"
    by (rule periodic_ok [OF assms(1) enc])
  define vs2 where "vs2 = (if le_now le - vs_last_report vs1 \<ge> 30 then vs1\<lparr>vs_last_report := le_now le\<rparr> else vs1)"
  have vs2: "vs_core vs2 = vs_core vs1" "vs_jobs vs2 = vs_jobs vs" "vs_shutdown vs2 = vs_shutdown vs"
    using p(3,4) by (simp_all add: vs2_def)
  have "jobs_ok so (vs_jobs vs)" using assms(1) by (simp add: vpn_ok_def)
  note q = loop_events_ok [OF this assms(4), of "vs_core vs1"]
  have "main_round so le es vs = Some (ds, vs2\<lparr>vs_jobs := loop_events es (vs_core vs1) (vs_jobs vs)\<rparr>)"
    using p(1) vs2 by (simp add: main_round_def Let_def flip: vs2_def)
  then show ?thesis using that q p(2) vs2 by (simp add: vpn_ok_def)
qed

lemma work_round_ok:
  assumes "vpn_ok so vs" "sodium_lens so" "i < length (vs_jobs vs)" "env_outq env" "length stk = BUFFER_SIZE"
  shows "\<exists>ds out vs'. work_round so i env mem stk vs = Some (ds, out, vs') \<and> vpn_ok so vs' \<and>
    length (vs_jobs vs') = length (vs_jobs vs) \<and> vs_shutdown vs' = vs_shutdown vs \<and> (\<forall>p\<in>set out. length p \<le> MAX_PACKET_SIZE)"
proof (cases "vs_jobs vs ! i")
  case Nil
  then show ?thesis using assms(1) by (simp add: work_round_def)
next
  case (Cons jb js)
  have st: "server_ok (vs_core vs)" "outqs_present (sessions (vs_core vs))" "jobs_ok so (vs_jobs vs)"
    using assms(1) by (simp_all add: vpn_ok_def)
  have jb: "job_ok so (length (vs_jobs vs)) i jb" "jobs_ok so ((vs_jobs vs)[i := js])"
    using st(3) assms(3) Cons by (fastforce simp: jobs_ok_def nth_list_update)+
  from run_job_ok [OF st(1,2) assms(2,4) jb(1) assms(5), of mem "vs_sk vs"] jb(2) Cons show ?thesis
    by (fastforce simp: work_round_def vpn_ok_def)
qed

lemma sched_round_ok:
  assumes "vpn_ok so vs" "sodium_lens so" "k < NUM_SHARDS" "length stk = SESSION_ID_LEN"
  shows "\<exists>ds vs'. sched_round (aead_enc so) k now now1 now2 grow stk vs = Some (ds, vs') \<and> vpn_ok so vs' \<and>
    vs_jobs vs' = vs_jobs vs \<and> vs_shutdown vs' = vs_shutdown vs"
proof -
  let ?st = "vs_core vs"
  have st: "sessions_ok (sessions ?st)" "queues_ok (sessions ?st)" "outqs_present (sessions ?st)" "shards_ok (g_shards ?st)"
    "jobs_ok so (vs_jobs vs)"
    using assms(1) by (simp_all add: vpn_ok_def server_ok_def)
  have enc: "aead_len (aead_enc so)" "length stk = 16" using assms(2,4) by (simp_all add: sodium_lens_def config_defs)
  obtain pq where pq: "sh_pq (g_shards ?st ! k) = Some pq" "pq_inv pq"
    using st(4) assms(3) unfolding shards_ok_def by (metis nth_mem)
  obtain t ds pq' tbl' where w: "worker_round (aead_enc so) stk now now1 now2 grow pq (sessions ?st) = Some (t, ds, pq', tbl')"
    "pq_inv pq'" "sessions_ok tbl'" "queues_ok tbl'" "outqs_present tbl'"
    using worker_round_spec [OF pq(2) st(1-3) enc, of now now1 now2 grow] by blast
  have "shards_ok ((g_shards ?st)[k := (g_shards ?st ! k)\<lparr>sh_pq := Some pq'\<rparr>])"
    unfolding shards_ok_def
    by (intro conjI, use st(4) in \<open>simp add: shards_ok_def\<close>)
      (rule set_update_ball, use st(4) w(2) in \<open>auto simp: shards_ok_def\<close>)
  then have "vpn_ok so (vs\<lparr>vs_core := ?st\<lparr>sessions := tbl', g_shards := (g_shards ?st)[k := (g_shards ?st ! k)\<lparr>sh_pq := Some pq'\<rparr>]\<rparr>\<rparr>)"
    using w st(5) by (simp add: vpn_ok_def server_ok_def)
  then show ?thesis using w(1) pq(1) by (simp add: sched_round_def Let_def)
qed

lemma vpn_step_ok:
  assumes "vpn_ok so vs" "sodium_lens so" "label_ok so vs lab"
  obtains ds out vs' where "vpn_step so lab vs = Some (ds, out, vs')" "vpn_ok so vs'"
    "length (vs_jobs vs') = length (vs_jobs vs)" "vs_shutdown vs' = vs_shutdown vs" "\<forall>p\<in>set out. length p \<le> MAX_PACKET_SIZE"
proof (cases lab)
  case (Main_round le es)
  obtain ds vs' where "main_round so le es vs = Some (ds, vs')" "vpn_ok so vs'"
    "length (vs_jobs vs') = length (vs_jobs vs)" "vs_shutdown vs' = vs_shutdown vs"
    by (rule main_round_ok [OF assms(1,2), of le es]) (use assms(3) Main_round in auto)
  then show ?thesis using that [of ds "[]" vs'] Main_round by simp
next
  case (Work_round i env mem stk)
  then show ?thesis using work_round_ok [OF assms(1,2), of i env stk mem] assms(3) that by auto
next
  case (Sched_round k now now1 now2 grow stk)
  obtain ds vs' where "sched_round (aead_enc so) k now now1 now2 grow stk vs = Some (ds, vs')" "vpn_ok so vs'"
    "vs_jobs vs' = vs_jobs vs" "vs_shutdown vs' = vs_shutdown vs"
    using sched_round_ok [OF assms(1,2), of k stk now now1 now2 grow] assms(3) Sched_round by auto
  then show ?thesis using that [of ds "[]" vs'] Sched_round by simp
qed

section \<open>Runs\<close>

inductive vpn_reach :: "sodium \<Rightarrow> vpn_server \<Rightarrow> vpn_server \<Rightarrow> bool" for so vs0 where
  start: "vpn_reach so vs0 vs0"
| step: "vpn_reach so vs0 vs \<Longrightarrow> label_ok so vs lab \<Longrightarrow> vpn_step so lab vs = Some (ds, out, vs') \<Longrightarrow> vpn_reach so vs0 vs'"

lemma reach_ok:
  assumes "vpn_reach so vs0 vs" "vpn_ok so vs0" "sodium_lens so"
  shows "vpn_ok so vs \<and> length (vs_jobs vs) = length (vs_jobs vs0) \<and> vs_shutdown vs = vs_shutdown vs0"
  using assms(1)
proof induction
  case (step vs lab ds out vs')
  then have ok: "vpn_ok so vs" by blast
  show ?case by (rule vpn_step_ok [OF ok assms(3) step.hyps(2)]) (use step in simp)
qed (use assms(2) in simp)

text \<open>The allocations and threads of the schedulers, whose failures \<open>main\<close> does not look at.\<close>

definition boot_ok :: "boot_env \<Rightarrow> bool" where
  "boot_ok be \<longleftrightarrow> length (be_shards be) = NUM_SHARDS \<and> (\<forall>(mem, thr)\<in>set (be_shards be). mem \<noteq> None \<and> thr)"

lemma init_shards_ok:
  "length outs = length shs \<Longrightarrow> \<forall>(mem, thr)\<in>set outs. mem \<noteq> None \<and> thr \<Longrightarrow> 0 < cap \<Longrightarrow>
   length (init_shards cap outs shs) = length shs \<and>
   (\<forall>sh\<in>set (init_shards cap outs shs). \<exists>pq. sh_pq sh = Some pq \<and> pq_inv pq)"
proof (induction cap outs shs rule: init_shards.induct)
  case (1 cap mem thr outs sh shs)
  then obtain blk where mem: "mem = Some blk" "thr" by auto
  obtain pq where pq: "pq_create cap (Some blk) = Some pq" by (simp add: pq_create_def)
  have "pq_inv pq" using pq_create_inv [OF "1.prems"(3) pq] by simp
  moreover have "length (init_shards cap outs shs) = length shs \<and>
      (\<forall>sh\<in>set (init_shards cap outs shs). \<exists>pq. sh_pq sh = Some pq \<and> pq_inv pq)"
    by (rule "1.IH" [OF _ mem(2)]) (use 1 mem pq in auto)
  ultimately show ?case using mem pq by simp
qed simp_all

lemma boot_server_ok:
  assumes "boot_ok be" "0 < n"
  shows "vpn_ok so (boot_server be rl ks n)"
proof -
  have inactive: "\<forall>s\<in>set sessions_init. \<not> active s" by (simp add: sessions_init_def zero_session_def)
  have "shards_ok (init_global_scheduler 1024 (be_shards be))"
    using init_shards_ok [of "be_shards be" "replicate NUM_SHARDS \<lparr>sh_pq = None, running = False\<rparr>" 1024] assms(1)
    by (auto simp: shards_ok_def init_global_scheduler_def boot_ok_def)
  then show ?thesis
    using assms(2) sessions_ok_init inactive
    by (simp add: vpn_ok_def boot_server_def server_ok_def queues_ok_def outqs_present_def jobs_ok_def split: prod.split)
qed

lemma server_main_boots:
  assumes "server_main so aton be argv = (cmds, Inr (bound, key, vs))" "boot_ok be"
  shows "vpn_ok so vs" "2 \<le> length (vs_jobs vs)" "graceful_shutdown_get_state (vs_shutdown vs) = SHUTDOWN_IDLE"
proof -
  obtain rl ks pool where p: "thread_pool_create (be_pool be) (if be_ncpus be < 2 then 2 else be_ncpus be) = Some pool"
    and vs: "vs = boot_server be rl ks (thread_pool_num_threads pool)"
    using assms(1) by (auto simp: server_main_def Let_def split: if_splits option.splits prod.splits)
  have n: "2 \<le> thread_pool_num_threads pool"
    using p by (auto simp: thread_pool_create_def thread_pool_num_threads_def Let_def split: if_splits)
  then show "vpn_ok so vs" unfolding vs by (intro boot_server_ok assms(2)) simp
  show "2 \<le> length (vs_jobs vs)" "graceful_shutdown_get_state (vs_shutdown vs) = SHUTDOWN_IDLE"
    using n by (simp_all add: vs boot_server_def graceful_shutdown_get_state_def graceful_shutdown_init_def split: prod.split)
qed


text \<open>A start with the sample parameters, and a round in which a datagram arrives.\<close>

definition sample_boot :: boot_env where
  "sample_boot =
     \<lparr>be_limiter = Some (replicate MAX_RATE_LIMIT_ENTRIES (fresh_entry 0 0)), be_sysctl = True, be_iface = Some ''eth0'',
      be_iptables = True, be_tun = True, be_file = None, be_keypair = Some (replicate 32 5, replicate 64 5),
      be_written = Some 128, be_socket = True, be_ncpus = 4, be_pool = True, be_epoll = True,
      be_shards = replicate NUM_SHARDS (Some (\<lambda>_. \<lparr>next_run = Timespec 0 0, task_session_id = []\<rparr>), True),
      be_times = (1000, 1000, 1000, 1000)\<rparr>"

definition sample_round :: vpn_label where
  "sample_round =
     Main_round \<lparr>le_now = 1005, le_maint = 1005, le_limiter = 1005, le_sid = replicate 16 0, le_mem = True\<rparr>
       [Udp_event [\<lparr>rd_data = sample_data 1, rd_addr = 7, rd_port = 5, rd_mem = True, rd_node = Some 1\<rparr>]]"

lemma sample_booted:
  obtains cmds bound key vs where
    "server_main sample_sodium (\<lambda>_. Some 7) sample_boot [''server'', ''0.0.0.0'', ''5555''] = (cmds, Inr (bound, key, vs))"
    "graceful_shutdown_get_state (vs_shutdown vs) = SHUTDOWN_IDLE"
proof -
  have port: "parse_port ''5555'' = Some 5555" by code_simp
  have "load_or_create_server_key sample_sodium None (Some (replicate 32 5, replicate 64 5)) (Some 128) =
      (Some \<lparr>key_sk = replicate 32 6, key_pk = replicate 32 6, key_sign_pk = replicate 32 5, key_sign_sk = replicate 64 5\<rparr>,
       Some (replicate 96 5 @ replicate 32 6))"
    by code_simp
  then show ?thesis
    using that by (simp add: server_main_def port sample_boot_def rate_limiter_init_def setup_ip_forward_def setup_nat_def
        thread_pool_create_def boot_server_def graceful_shutdown_get_state_def graceful_shutdown_init_def Let_def)
qed


end
