(* ===== verification/Server_End.thy ===== *)
theory Server_End
  imports Server_Loop
begin

text \<open>
  The end of \<open>main\<close> of \<open>chamlon_server/src/vpn_server.c\<close>, after its event loop: the notification of
  the clients, the loop that waits for them, and the cleanup. The workers go on while the loop
  waits; what they do in a round of it is part of that round.
\<close>

section \<open>Waiting for the clients\<close>

text \<open>
  One round: the clock of the timeout check, the datagrams that are ready, and the rounds of the
  other threads until the sessions are counted.
\<close>

record drain_round =
  dr_time :: time_t
  dr_events :: "rx_datagram list list"
  dr_others :: "vpn_label list"

fun vpn_run :: "sodium \<Rightarrow> vpn_label list \<Rightarrow> vpn_server \<Rightarrow> (datagram list \<times> bytes list \<times> vpn_server) option" where
  "vpn_run so [] vs = Some ([], [], vs)"
| "vpn_run so (l # ls) vs =
     (case vpn_step so l vs of
        None \<Rightarrow> None
      | Some (ds1, out1, vs1) \<Rightarrow> map_option (\<lambda>(ds2, out2, vs2). (ds1 @ ds2, out1 @ out2, vs2)) (vpn_run so ls vs1))"

definition drain_step :: "sodium \<Rightarrow> drain_round \<Rightarrow> vpn_server \<Rightarrow> (datagram list \<times> bytes list \<times> vpn_server) option" where
  "drain_step so dr vs =
     vpn_run so (dr_others dr)
       (vs\<lparr>vs_jobs := fold (\<lambda>ds qs. receive_burst SERVER_MAX_BURST ds qs) (dr_events dr) (vs_jobs vs)\<rparr>)"

text \<open>The loop, which may run forever; then its value is \<open>None\<close>.\<close>

partial_function (option) drain_loop ::
  "sodium \<Rightarrow> (nat \<Rightarrow> drain_round) \<Rightarrow> nat \<Rightarrow> nat \<Rightarrow> vpn_server \<Rightarrow> (datagram list \<times> bytes list \<times> vpn_server) option" where
  "drain_loop so rounds n outstanding vs =
     (if outstanding > 0 then
        (let tg = graceful_shutdown_timeout_exceeded (dr_time (rounds n)) (vs_shutdown vs)
         in if fst tg then Some ([], [], vs\<lparr>vs_shutdown := snd tg\<rparr>)
            else Option.bind (drain_step so (rounds n) (vs\<lparr>vs_shutdown := snd tg\<rparr>))
                   (\<lambda>r. Option.bind (drain_loop so rounds (Suc n) (count_active (sessions (vs_core (snd (snd r))))) (snd (snd r)))
                          (\<lambda>r2. Some (fst r @ fst r2, fst (snd r) @ fst (snd r2), snd (snd r2)))))
      else Some ([], [], vs))"

definition notify_and_drain ::
  "sodium \<Rightarrow> bytes \<Rightarrow> (nat \<Rightarrow> drain_round) \<Rightarrow> vpn_server \<Rightarrow> (datagram list \<times> bytes list \<times> vpn_server) option" where
  "notify_and_drain so stk rounds vs =
     (let active_sessions = count_active (sessions (vs_core vs))
      in if active_sessions > 0
         then (case graceful_shutdown_drain_sessions (aead_enc so) stk (vs_core vs) (vs_shutdown vs) of
                 None \<Rightarrow> None
               | Some (n, ds, st, g) \<Rightarrow>
                   map_option (\<lambda>(ds2, out, vs2). (ds @ ds2, out, vs2))
                     (drain_loop so rounds 0 active_sessions (vs\<lparr>vs_core := st, vs_shutdown := g\<rparr>)))
         else Some ([], [], vs))"

text \<open>
  The whole phase. \<open>flush\<close> are the rounds of the workers while \<open>thread_pool_destroy\<close> waits for them.
\<close>

definition server_end ::
  "sodium \<Rightarrow> bytes \<Rightarrow> (nat \<Rightarrow> drain_round) \<Rightarrow> vpn_label list \<Rightarrow> vpn_server \<Rightarrow> (datagram list \<times> bytes list \<times> vpn_server) option" where
  "server_end so stk rounds flush vs =
     (case notify_and_drain so stk rounds vs of
        None \<Rightarrow> None
      | Some (ds1, out1, vs1) \<Rightarrow>
          (case vpn_run so flush vs1 of
             None \<Rightarrow> None
           | Some (ds2, out2, vs2) \<Rightarrow>
               let (st, g) = graceful_shutdown_cleanup (vs_core vs2) (vs_shutdown vs2)
               in Some (ds1 @ ds2, out1 @ out2, vs2\<lparr>vs_core := st, vs_shutdown := g\<rparr>)))"

section \<open>Invariant\<close>

text \<open>
  The rounds of the other threads: workers of the pool, by number up to \<open>n\<close>, and of the schedulers.
\<close>

fun other_ok :: "nat \<Rightarrow> vpn_label \<Rightarrow> bool" where
  "other_ok n (Main_round le es) \<longleftrightarrow> False"
| "other_ok n (Work_round i env mem stk) \<longleftrightarrow> i < n \<and> env_outq env \<and> length stk = BUFFER_SIZE"
| "other_ok n (Sched_round k now now1 now2 grow stk) \<longleftrightarrow> k < NUM_SHARDS \<and> length stk = SESSION_ID_LEN"

definition dr_ok :: "sodium \<Rightarrow> nat \<Rightarrow> drain_round \<Rightarrow> bool" where
  "dr_ok so n dr \<longleftrightarrow> (\<forall>ds\<in>set (dr_events dr). \<forall>d\<in>set ds. rx_ok so d) \<and> (\<forall>l\<in>set (dr_others dr). other_ok n l)"

lemma other_label: "other_ok (length (vs_jobs vs)) l \<Longrightarrow> label_ok so vs l"
  by (cases l) simp_all

lemma vpn_run_ok:
  assumes "sodium_lens so" "vpn_ok so vs" "\<forall>l\<in>set ls. other_ok (length (vs_jobs vs)) l"
  obtains ds out vs' where "vpn_run so ls vs = Some (ds, out, vs')" "vpn_ok so vs'"
    "length (vs_jobs vs') = length (vs_jobs vs)" "vs_shutdown vs' = vs_shutdown vs"
proof -
  have "\<exists>ds out vs'. vpn_run so ls vs = Some (ds, out, vs') \<and> vpn_ok so vs' \<and>
      length (vs_jobs vs') = length (vs_jobs vs) \<and> vs_shutdown vs' = vs_shutdown vs"
    using assms(2,3)
  proof (induction ls arbitrary: vs)
    case (Cons l ls)
    obtain ds out vs1 where s: "vpn_step so l vs = Some (ds, out, vs1)" "vpn_ok so vs1"
      "length (vs_jobs vs1) = length (vs_jobs vs)" "vs_shutdown vs1 = vs_shutdown vs"
      by (rule vpn_step_ok [OF Cons.prems(1) assms(1) other_label]) (use Cons.prems(2) in auto)
    from Cons.IH [OF s(2)] Cons.prems(2) s show ?case by fastforce
  qed simp
  then show ?thesis using that by blast
qed

lemma drain_step_ok:
  assumes "sodium_lens so" "vpn_ok so vs" "dr_ok so (length (vs_jobs vs)) dr"
  obtains ds out vs' where "drain_step so dr vs = Some (ds, out, vs')" "vpn_ok so vs'"
    "length (vs_jobs vs') = length (vs_jobs vs)" "vs_shutdown vs' = vs_shutdown vs"
proof -
  let ?f = "fold (\<lambda>ds qs. receive_burst SERVER_MAX_BURST ds qs)"
  have "jobs_ok so (?f es qs) \<and> length (?f es qs) = length qs"
    if "jobs_ok so qs" "\<forall>ds\<in>set es. \<forall>d\<in>set ds. rx_ok so d" for es qs
    using that
  proof (induction es arbitrary: qs)
    case (Cons ds es)
    then show ?case using receive_burst_ok [of so qs ds SERVER_MAX_BURST] by simp
  qed simp
  then have q: "jobs_ok so (?f (dr_events dr) (vs_jobs vs))" "length (?f (dr_events dr) (vs_jobs vs)) = length (vs_jobs vs)"
    using assms(2,3) by (simp_all add: vpn_ok_def dr_ok_def)
  let ?vs = "vs\<lparr>vs_jobs := ?f (dr_events dr) (vs_jobs vs)\<rparr>"
  have "vpn_ok so ?vs" using assms(2) q(1) by (simp add: vpn_ok_def)
  from vpn_run_ok [OF assms(1) this, of "dr_others dr"] that q(2) assms(3) show ?thesis
    by (auto simp: drain_step_def dr_ok_def)
qed

section \<open>The loop returns\<close>

text \<open>Some round from the \<open>n\<close>-th on reads a time behind the timeout.\<close>

definition time_passes :: "(nat \<Rightarrow> drain_round) \<Rightarrow> graceful_shutdown \<Rightarrow> bool" where
  "time_passes rounds g \<longleftrightarrow> (\<exists>N. shutdown_timeout_sec g < dr_time (rounds N) - shutdown_started g)"

lemma drain_loop_returns:
  assumes so: "sodium_lens so" and vs: "vpn_ok so vs" "shutdown_started (vs_shutdown vs) \<noteq> 0"
    and r: "\<And>n. dr_ok so (length (vs_jobs vs)) (rounds n)"
    and N: "n \<le> N" "shutdown_timeout_sec (vs_shutdown vs) < dr_time (rounds N) - shutdown_started (vs_shutdown vs)"
  shows "\<exists>ds out vs'. drain_loop so rounds n outstanding vs = Some (ds, out, vs') \<and> vpn_ok so vs' \<and>
    length (vs_jobs vs') = length (vs_jobs vs)"
  using vs r N
proof (induction "N - n" arbitrary: n outstanding vs rule: less_induct)
  case less
  let ?g = "vs_shutdown vs"
  let ?late = "shutdown_timeout_sec ?g < dr_time (rounds n) - shutdown_started ?g"
  show ?case
  proof (cases "outstanding = 0 \<or> ?late")
    case True
    then show ?thesis
      using less.prems(1,2) by (subst drain_loop.simps) (auto simp: graceful_shutdown_timeout_exceeded_def vpn_ok_def Let_def)
  next
    case False
    have t: "graceful_shutdown_timeout_exceeded (dr_time (rounds n)) ?g = (False, ?g)"
      using False less.prems(2) by (simp add: graceful_shutdown_timeout_exceeded_def)
    obtain ds out vs1 where st: "drain_step so (rounds n) vs = Some (ds, out, vs1)" "vpn_ok so vs1"
      "length (vs_jobs vs1) = length (vs_jobs vs)" "vs_shutdown vs1 = ?g"
      by (rule drain_step_ok [OF so less.prems(1) less.prems(3)])
    have "n \<noteq> N" using False less.prems(5) by auto
    then have n: "N - Suc n < N - n" "Suc n \<le> N" using less.prems(4) by auto
    obtain ds2 out2 vs2 where
      "drain_loop so rounds (Suc n) (count_active (sessions (vs_core vs1))) vs1 = Some (ds2, out2, vs2)"
      "vpn_ok so vs2" "length (vs_jobs vs2) = length (vs_jobs vs1)"
      using less.hyps [OF n(1) st(2) _ _ n(2), of "count_active (sessions (vs_core vs1))"] less.prems st(3,4) by auto
    then show ?thesis using False t st(1,3) by (subst drain_loop.simps) simp
  qed
qed

lemma notified_ok:
  assumes "vpn_ok so vs"
  shows "vpn_ok so (vs\<lparr>vs_core := (vs_core vs)\<lparr>sessions := map notified (sessions (vs_core vs))\<rparr>, vs_shutdown := g\<rparr>)"
proof -
  have "slot_ok i s \<Longrightarrow> slot_ok i (notified s)" "cbr_queue s \<Longrightarrow> cbr_queue (notified s)" "active (notified s) = active s"
    "outq (notified s) = outq s" for i s
    by (simp_all add: notified_def)
  then show ?thesis
    using assms by (simp add: vpn_ok_def server_ok_def sessions_ok_def queues_ok_def outqs_present_def)
qed

lemma drain_sessions_eq:
  assumes "vpn_ok so vs" "aead_len enc" "length stk = 16"
  obtains ds g' where "graceful_shutdown_drain_sessions enc stk (vs_core vs) g =
      Some (count_active (sessions (vs_core vs)), ds, (vs_core vs)\<lparr>sessions := map notified (sessions (vs_core vs))\<rparr>, g')"
    "shutdown_started g' = shutdown_started g" "shutdown_timeout_sec g' = shutdown_timeout_sec g"
proof -
  let ?tbl = "sessions (vs_core vs)"
  have "params_ok s" if "s \<in> set ?tbl" "active s" for s
    using assms(1) that by (auto simp: vpn_ok_def server_ok_def sessions_ok_def slot_ok_def in_set_conv_nth)
  then obtain ds where "notify_sessions enc stk ?tbl = Some (count_active ?tbl, ds, map notified ?tbl)"
    using notify_eq [OF _ assms(2,3)] by blast
  then show ?thesis using that by (simp add: graceful_shutdown_drain_sessions_def Let_def)
qed

lemma notify_and_drain_returns:
  assumes so: "sodium_lens so" and vs: "vpn_ok so vs" "shutdown_started (vs_shutdown vs) \<noteq> 0" and stk: "length stk = 16"
    and r: "\<And>n. dr_ok so (length (vs_jobs vs)) (rounds n)" and t: "time_passes rounds (vs_shutdown vs)"
  shows "\<exists>ds out vs'. notify_and_drain so stk rounds vs = Some (ds, out, vs') \<and> vpn_ok so vs' \<and>
    length (vs_jobs vs') = length (vs_jobs vs)"
proof (cases "count_active (sessions (vs_core vs)) = 0")
  case True
  then show ?thesis using vs(1) by (simp add: notify_and_drain_def)
next
  case False
  have enc: "aead_len (aead_enc so)" using so by (simp add: sodium_lens_def)
  obtain ds g' where d: "graceful_shutdown_drain_sessions (aead_enc so) stk (vs_core vs) (vs_shutdown vs) =
      Some (count_active (sessions (vs_core vs)), ds, (vs_core vs)\<lparr>sessions := map notified (sessions (vs_core vs))\<rparr>, g')"
    "shutdown_started g' = shutdown_started (vs_shutdown vs)" "shutdown_timeout_sec g' = shutdown_timeout_sec (vs_shutdown vs)"
    by (rule drain_sessions_eq [OF vs(1) enc stk])
  let ?vs = "vs\<lparr>vs_core := (vs_core vs)\<lparr>sessions := map notified (sessions (vs_core vs))\<rparr>, vs_shutdown := g'\<rparr>"
  obtain N where "shutdown_timeout_sec g' < dr_time (rounds N) - shutdown_started g'"
    using t d(2,3) by (auto simp: time_passes_def)
  then have "\<exists>ds out vs'. drain_loop so rounds 0 (count_active (sessions (vs_core vs))) ?vs = Some (ds, out, vs') \<and>
      vpn_ok so vs' \<and> length (vs_jobs vs') = length (vs_jobs ?vs)"
    by (intro drain_loop_returns [OF so notified_ok [OF vs(1)], where N = N]) (use vs(2) d r in auto)
  then show ?thesis using False d(1) by (auto simp: notify_and_drain_def)
qed


section \<open>The loop does not return\<close>

lemma drain_forever:
  assumes ret: "drain_loop so rounds n outstanding vs = Some y"
    and S: "\<And>n vs ds out vs'. vs \<in> S \<Longrightarrow> drain_step so (rounds n) vs = Some (ds, out, vs') \<Longrightarrow> vs' \<in> S"
      "\<And>vs. vs \<in> S \<Longrightarrow> shutdown_started (vs_shutdown vs) = 0 \<and> count_active (sessions (vs_core vs)) > 0"
    and init: "vs \<in> S" "outstanding > 0"
  shows False
proof -
  define P where "P so1 rounds1 (n1 :: nat) o1 vs1 (y1 :: datagram list \<times> bytes list \<times> vpn_server) \<longleftrightarrow>
    \<not> (so1 = so \<and> rounds1 = rounds \<and> vs1 \<in> S \<and> (0 :: nat) < o1)" for so1 rounds1 n1 o1 vs1 y1
  have "P so rounds n outstanding vs y"
    using ret
  proof (rule drain_loop.raw_induct [rotated])
    fix self so1 rounds1 n1 and o1 :: nat and vs1 y1
    assume ih: "\<And>a b c d e y. self a b c d e = Some y \<Longrightarrow> P a b c d e y"
      and eq: "(if 0 < o1 then
         (let tg = graceful_shutdown_timeout_exceeded (dr_time (rounds1 n1)) (vs_shutdown vs1)
          in if fst tg then Some ([], [], vs1\<lparr>vs_shutdown := snd tg\<rparr>)
             else Option.bind (drain_step so1 (rounds1 n1) (vs1\<lparr>vs_shutdown := snd tg\<rparr>))
                    (\<lambda>r. Option.bind (self so1 rounds1 (Suc n1) (count_active (sessions (vs_core (snd (snd r))))) (snd (snd r)))
                           (\<lambda>r2. Some (fst r @ fst r2, fst (snd r) @ fst (snd r2), snd (snd r2)))))
         else Some ([], [], vs1)) = Some y1"
    show "P so1 rounds1 n1 o1 vs1 y1"
      unfolding P_def
    proof
      assume a: "so1 = so \<and> rounds1 = rounds \<and> vs1 \<in> S \<and> 0 < o1"
      then have "graceful_shutdown_timeout_exceeded (dr_time (rounds n1)) (vs_shutdown vs1) = (False, vs_shutdown vs1)"
        using S(2) by (simp add: graceful_shutdown_timeout_exceeded_def)
      then obtain ds out vs' y2 where st: "drain_step so (rounds n1) vs1 = Some (ds, out, vs')"
        "self so rounds (Suc n1) (count_active (sessions (vs_core vs'))) vs' = Some y2"
        using eq a by (auto simp: bind_eq_Some_conv Let_def)
      then have "vs' \<in> S" using S(1) a by blast
      then show False using ih [OF st(2)] S(2) by (auto simp: P_def)
    qed
  qed
  then show False using init by (simp add: P_def)
qed

text \<open>Nothing is queued, some session is in use, and no start of the shutdown is recorded.\<close>

definition silent :: "sodium \<Rightarrow> nat \<Rightarrow> vpn_server set" where
  "silent so n = {vs. vpn_ok so vs \<and> vs_jobs vs = replicate n [] \<and> shutdown_started (vs_shutdown vs) = 0 \<and>
     count_active (sessions (vs_core vs)) > 0}"

lemma count_active_map: "count_active tbl = length (filter id (map active tbl))"
  by (simp add: count_active_def filter_map comp_def)

lemma count_active_same: "map active tbl' = map active tbl \<Longrightarrow> count_active tbl' = count_active tbl"
  by (simp add: count_active_map)

lemma sched_round_active:
  assumes "vpn_ok so vs" "aead_len enc" "length stk = 16" "sched_round enc k now now1 now2 grow stk vs = Some (ds, vs')"
  shows "map active (sessions (vs_core vs')) = map active (sessions (vs_core vs))"
proof -
  let ?tbl = "sessions (vs_core vs)"
  have ok: "sessions_ok ?tbl" "queues_ok ?tbl" "outqs_present ?tbl" using assms(1) by (simp_all add: vpn_ok_def server_ok_def)
  have ex: "map active tbl1 = map active ?tbl" if "execute_send enc stk now sid ?tbl = Some (r, ds1, tbl1)" for sid r ds1 tbl1
    by (rule execute_send_ok [OF ok assms(2,3), where now = now and sid = sid]) (use that in simp)
  show ?thesis
    using assms(4) ex by (auto simp: sched_round_def worker_round_def Let_def split: option.splits prod.splits)
qed

lemma silent_step:
  assumes "sodium_lens so" "vs \<in> silent so n" "other_ok n l" "vpn_step so l vs = Some (ds, out, vs')"
  shows "vs' \<in> silent so n"
proof -
  have vs: "vpn_ok so vs" "vs_jobs vs = replicate n []" using assms(2) by (simp_all add: silent_def)
  show ?thesis
  proof (cases l)
    case (Work_round i env mem stk)
    then have "vs' = vs" using assms(3,4) vs(2) by (simp add: work_round_def)
    then show ?thesis using assms(2) by simp
  next
    case (Sched_round k now now1 now2 grow stk)
    then have r: "sched_round (aead_enc so) k now now1 now2 grow stk vs = Some (ds, vs')" using assms(4) by auto
    have l: "k < NUM_SHARDS" "length stk = SESSION_ID_LEN" using assms(3) Sched_round by simp_all
    have "aead_len (aead_enc so)" "length stk = 16" using assms(1) l(2) by (simp_all add: sodium_lens_def config_defs)
    from count_active_same [OF sched_round_active [OF vs(1) this r]] show ?thesis
      using sched_round_ok [OF vs(1) assms(1) l, of now now1 now2 grow] r assms(2) by (simp add: silent_def)
  qed (use assms(3) in simp)
qed

lemma silent_run:
  "sodium_lens so \<Longrightarrow> vs \<in> silent so n \<Longrightarrow> \<forall>l\<in>set ls. other_ok n l \<Longrightarrow> vpn_run so ls vs = Some (ds, out, vs') \<Longrightarrow>
   vs' \<in> silent so n"
proof (induction ls arbitrary: vs ds out)
  case (Cons l ls)
  obtain ds1 out1 vs1 ds2 out2 where st: "vpn_step so l vs = Some (ds1, out1, vs1)" "vpn_run so ls vs1 = Some (ds2, out2, vs')"
    using Cons.prems(4) by (auto split: option.splits)
  have "vs1 \<in> silent so n" using silent_step [OF Cons.prems(1,2) _ st(1)] Cons.prems(3) by simp
  then show ?case using Cons.IH [OF Cons.prems(1) _ _ st(2)] Cons.prems(3) by simp
qed simp

text \<open>
  C36. Without a recorded start the shutdown never ends. The only way out of the event loop that
  the program has is a failing \<open>epoll_wait\<close>, which leaves the start of the shutdown at 0. If then a
  session is in use, nothing is queued and no datagram arrives any more, because the client has
  vanished, the loop that waits for the clients never returns: the timeout is not in force and the
  loop does no maintenance that would expire the session.
\<close>

theorem drain_hangs:
  assumes "sodium_lens so" "vpn_ok so vs" "vs_shutdown vs = graceful_shutdown_init t" "vs_jobs vs = replicate n []"
    "count_active (sessions (vs_core vs)) > 0" "length stk = SESSION_ID_LEN"
    "\<And>k. dr_events (rounds k) = []" "\<And>k. \<forall>l\<in>set (dr_others (rounds k)). other_ok n l"
  shows "notify_and_drain so stk rounds vs = None"
proof -
  have enc: "aead_len (aead_enc so)" "length stk = 16" using assms(1,6) by (simp_all add: sodium_lens_def config_defs)
  obtain ds g' where d: "graceful_shutdown_drain_sessions (aead_enc so) stk (vs_core vs) (vs_shutdown vs) =
      Some (count_active (sessions (vs_core vs)), ds, (vs_core vs)\<lparr>sessions := map notified (sessions (vs_core vs))\<rparr>, g')"
    "shutdown_started g' = shutdown_started (vs_shutdown vs)"
    by (rule drain_sessions_eq [OF assms(2) enc])
  let ?vs = "vs\<lparr>vs_core := (vs_core vs)\<lparr>sessions := map notified (sessions (vs_core vs))\<rparr>, vs_shutdown := g'\<rparr>"
  have "count_active (map notified tbl) = count_active tbl" for tbl
    by (rule count_active_same) (simp add: notified_def)
  then have s: "?vs \<in> silent so n"
    using notified_ok [OF assms(2)] assms(3-5) d(2) by (simp add: silent_def graceful_shutdown_init_def)
  have step: "vs2 \<in> silent so n" if "vs1 \<in> silent so n" "drain_step so (rounds k) vs1 = Some (ds1, out1, vs2)" for k vs1 ds1 out1 vs2
    using silent_run [OF assms(1) that(1) assms(8) [of k]] that(2) assms(7) [of k] by (simp add: drain_step_def)
  have "drain_loop so rounds 0 (count_active (sessions (vs_core vs))) ?vs = None"
  proof (cases "drain_loop so rounds 0 (count_active (sessions (vs_core vs))) ?vs")
    case (Some y)
    have waits: "shutdown_started (vs_shutdown v) = 0 \<and> count_active (sessions (vs_core v)) > 0" if "v \<in> silent so n" for v
      using that by (simp add: silent_def)
    have False
      by (rule drain_forever [OF Some _ _ s assms(5)], (erule (1) step), (erule waits))
    then show ?thesis ..
  qed
  then show ?thesis using assms(5) d(1) by (simp add: notify_and_drain_def)
qed

text \<open>The sample server with one session, two idle workers and a clock that shows each second.\<close>

definition sample_vpn :: "graceful_shutdown \<Rightarrow> vpn_server" where
  "sample_vpn g =
     \<lparr>vs_core = sample_server\<lparr>sessions := sample_cbr_table\<rparr>, vs_jobs = replicate 2 [], vs_shutdown = g, vs_last_cleanup = 1000,
      vs_last_report = 1000, vs_sk = replicate 32 6\<rparr>"

definition sample_rounds :: "nat \<Rightarrow> drain_round" where
  "sample_rounds n = \<lparr>dr_time = 1000 + int n, dr_events = [], dr_others = []\<rparr>"

lemma sample_vpn_ok: "vpn_ok sample_sodium (sample_vpn g)"
proof -
  have "shards_ok (g_shards sample_server)" using sample_server_ok by (simp add: server_ok_def)
  then show ?thesis
    using sample_cbr_table_ok by (simp add: vpn_ok_def sample_vpn_def server_ok_def jobs_ok_def)
qed

lemma sample_vpn_active: "count_active (sessions (vs_core (sample_vpn g))) > 0"
proof -
  have "sample_cbr_table ! 3 \<in> set sample_cbr_table" "active (sample_cbr_table ! 3)"
    using session_by_id_Some [OF sample_cbr_table_ok(5)] by auto
  then have "filter active sample_cbr_table \<noteq> []" by (auto simp: filter_empty_conv)
  then show ?thesis by (simp add: count_active_def sample_vpn_def)
qed


theorem drain_hangs_witness:
  "count_active (sessions (vs_core (sample_vpn (graceful_shutdown_init 10)))) > 0 \<and>
   notify_and_drain sample_sodium (replicate 16 0) sample_rounds (sample_vpn (graceful_shutdown_init 10)) = None"
  using drain_hangs [OF sample_sodium_lens sample_vpn_ok _ _ sample_vpn_active, of "graceful_shutdown_init 10" 10 2
      "replicate 16 0" sample_rounds] sample_vpn_active
  by (simp add: sample_vpn_def sample_rounds_def config_defs)

end
