(* ===== verification/Pool_Shutdown.thy ===== *)
theory Pool_Shutdown
  imports Thread_Pool
begin

text \<open>
  The workers of \<open>chamlon_server/src/thread_pool.c\<close> against \<open>thread_pool_destroy\<close>, as an interleaving
  of single steps. The mutex of a queue protects its lists and the wait on its condition, but
  \<open>pool->shutdown\<close> is written and broadcast without it. So the test of a worker that finds nothing
  to do and its falling asleep are two steps, between which the destroying thread can act. The
  queues are the lists that the linked queues implement.
\<close>

section \<open>State\<close>

text \<open>
  A worker is before its test, between the test and the wait (with the mutex), asleep, running a
  job, or gone. The event thread is working, or in \<open>thread_pool_destroy\<close> at the broadcast or the
  join of some worker, or back.
\<close>

datatype worker_pc = W_check | W_about_to_wait | W_waiting | W_running job | W_exited

datatype destroy_pc = D_none | D_broadcast nat | D_join nat | D_returned

record pool_run =
  pr_queues :: "job list list"
  pr_pc :: "worker_pc list"
  pr_shutdown :: bool
  pr_destroy :: destroy_pc
  pr_accepted :: "job list list"
  pr_ran :: "job list list"
  pr_freed :: "job list"

definition pool_run_init :: "nat \<Rightarrow> pool_run" where
  "pool_run_init n =
     \<lparr>pr_queues = replicate n [], pr_pc = replicate n W_check, pr_shutdown = False, pr_destroy = D_none,
      pr_accepted = replicate n [], pr_ran = replicate n [], pr_freed = []\<rparr>"

section \<open>Steps\<close>

definition wake :: "nat \<Rightarrow> pool_run \<Rightarrow> pool_run" where
  "wake i p = (if pr_pc p ! i = W_waiting then p\<lparr>pr_pc := (pr_pc p)[i := W_check]\<rparr> else p)"

text \<open>One step of \<open>worker_thread\<close>; \<open>None\<close> when it is asleep or gone.\<close>

definition worker_thread :: "nat \<Rightarrow> pool_run \<Rightarrow> pool_run option" where
  "worker_thread i p =
     (case pr_pc p ! i of
        W_check \<Rightarrow>
          (case lists_step (Take i) (pr_queues p) of
             (Taken (Some jb), qs) \<Rightarrow> Some (p\<lparr>pr_queues := qs, pr_pc := (pr_pc p)[i := W_running jb]\<rparr>)
           | _ \<Rightarrow> Some (p\<lparr>pr_pc := (pr_pc p)[i := if pr_shutdown p then W_exited else W_about_to_wait]\<rparr>))
      | W_about_to_wait \<Rightarrow> Some (p\<lparr>pr_pc := (pr_pc p)[i := W_waiting]\<rparr>)
      | W_running jb \<Rightarrow>
          Some (p\<lparr>pr_pc := (pr_pc p)[i := if jb = JOB_TYPE_SHUTDOWN then W_exited else W_check],
                  pr_ran := (pr_ran p)[i := pr_ran p ! i @ [jb]]\<rparr>)
      | _ \<Rightarrow> None)"

text \<open>A submission of the event thread, which needs the mutex and signals the worker.\<close>

definition pool_submit :: "addr option \<Rightarrow> job \<Rightarrow> byte \<Rightarrow> pool_run \<Rightarrow> pool_run option" where
  "pool_submit mal jb key p =
     (let i = unat key mod length (pr_queues p)
      in if pr_destroy p \<noteq> D_none \<or> pr_pc p ! i = W_about_to_wait then None
         else
           (case lists_step (Submit mal jb key) (pr_queues p) of
              (Submitted rc, qs) \<Rightarrow>
                if rc = 0
                then Some (wake i (p\<lparr>pr_queues := qs, pr_accepted := (pr_accepted p)[i := pr_accepted p ! i @ [jb]]\<rparr>))
                else Some p
            | _ \<Rightarrow> None))"

text \<open>One step of \<open>thread_pool_destroy\<close>; a join waits until the worker is gone.\<close>

definition thread_pool_destroy :: "pool_run \<Rightarrow> pool_run option" where
  "thread_pool_destroy p =
     (case pr_destroy p of
        D_none \<Rightarrow> Some (p\<lparr>pr_shutdown := True, pr_destroy := D_broadcast 0\<rparr>)
      | D_broadcast i \<Rightarrow>
          if i < length (pr_pc p) then Some ((wake i p)\<lparr>pr_destroy := D_broadcast (Suc i)\<rparr>)
          else Some (p\<lparr>pr_destroy := D_join 0\<rparr>)
      | D_join i \<Rightarrow>
          if i < length (pr_pc p) then
            if pr_pc p ! i = W_exited
            then Some (p\<lparr>pr_freed := pr_freed p @ pr_queues p ! i, pr_queues := (pr_queues p)[i := []],
                         pr_destroy := D_join (Suc i)\<rparr>)
            else None
          else Some (p\<lparr>pr_destroy := D_returned\<rparr>)
      | D_returned \<Rightarrow> None)"

text \<open>POSIX lets \<open>pthread_cond_wait\<close> return without a signal.\<close>

datatype run_label = Run_worker nat | Run_submit "addr option" job byte | Run_destroy | Run_spurious nat

fun run_step :: "run_label \<Rightarrow> pool_run \<Rightarrow> pool_run option" where
  "run_step (Run_worker i) p = (if i < length (pr_pc p) then worker_thread i p else None)"
| "run_step (Run_submit mal jb key) p = (if jb = JOB_TYPE_SHUTDOWN then None else pool_submit mal jb key p)"
| "run_step Run_destroy p = thread_pool_destroy p"
| "run_step (Run_spurious i) p = (if i < length (pr_pc p) \<and> pr_pc p ! i = W_waiting then Some (wake i p) else None)"

inductive run_reach :: "nat \<Rightarrow> pool_run \<Rightarrow> bool" for n where
  created: "run_reach n (pool_run_init n)"
| progress: "run_reach n p \<Longrightarrow> run_step l p = Some p' \<Longrightarrow> run_reach n p'"

section \<open>Invariant\<close>

definition running_job :: "worker_pc \<Rightarrow> job list" where
  "running_job pc = (case pc of W_running jb \<Rightarrow> [jb] | _ \<Rightarrow> [])"

definition slot_inv :: "bool \<Rightarrow> worker_pc \<Rightarrow> job list \<Rightarrow> job list \<Rightarrow> job list \<Rightarrow> bool" where
  "slot_inv sd pc q acc done_js \<longleftrightarrow> acc = done_js @ running_job pc @ q \<and> JOB_TYPE_SHUTDOWN \<notin> set acc \<and>
     (pc = W_exited \<longrightarrow> sd \<and> q = [])"

definition joined :: "destroy_pc \<Rightarrow> nat \<Rightarrow> bool" where
  "joined d i = (case d of D_join k \<Rightarrow> i < k | D_returned \<Rightarrow> True | _ \<Rightarrow> False)"

definition run_inv :: "nat \<Rightarrow> pool_run \<Rightarrow> bool" where
  "run_inv n p \<longleftrightarrow>
     length (pr_queues p) = n \<and> length (pr_pc p) = n \<and> length (pr_accepted p) = n \<and> length (pr_ran p) = n \<and>
     pr_freed p = [] \<and> (pr_destroy p = D_none \<longleftrightarrow> \<not> pr_shutdown p) \<and>
     (\<forall>i<n. slot_inv (pr_shutdown p) (pr_pc p ! i) (pr_queues p ! i) (pr_accepted p ! i) (pr_ran p ! i)) \<and>
     (\<forall>i<n. joined (pr_destroy p) i \<longrightarrow> pr_pc p ! i = W_exited)"

lemma run_inv_init: "run_inv n (pool_run_init n)"
  by (simp add: run_inv_def pool_run_init_def slot_inv_def running_job_def joined_def)

lemma run_inv_slot:
  "run_inv n p \<Longrightarrow> i < n \<Longrightarrow> slot_inv (pr_shutdown p) (pr_pc p ! i) (pr_queues p ! i) (pr_accepted p ! i) (pr_ran p ! i)"
  by (simp add: run_inv_def)

text \<open>Replacing what belongs to one worker.\<close>

definition set_slot :: "nat \<Rightarrow> worker_pc \<Rightarrow> job list \<Rightarrow> job list \<Rightarrow> job list \<Rightarrow> pool_run \<Rightarrow> pool_run" where
  "set_slot i pc q acc done_js p =
     p\<lparr>pr_queues := (pr_queues p)[i := q], pr_pc := (pr_pc p)[i := pc], pr_accepted := (pr_accepted p)[i := acc],
       pr_ran := (pr_ran p)[i := done_js]\<rparr>"

lemma set_slot_inv:
  assumes "run_inv n p" "i < n" "slot_inv (pr_shutdown p) pc q acc done_js" "pr_pc p ! i = W_exited \<Longrightarrow> pc = W_exited"
  shows "run_inv n (set_slot i pc q acc done_js p)"
proof -
  have len: "length (pr_queues p) = n" "length (pr_pc p) = n" "length (pr_accepted p) = n" "length (pr_ran p) = n"
    using assms(1) by (simp_all add: run_inv_def)
  have "slot_inv (pr_shutdown p) ((pr_pc p)[i := pc] ! j) ((pr_queues p)[i := q] ! j) ((pr_accepted p)[i := acc] ! j)
      ((pr_ran p)[i := done_js] ! j)" if "j < n" for j
    using run_inv_slot [OF assms(1) that] assms(3) len that by (cases "j = i") simp_all
  moreover have "(pr_pc p)[i := pc] ! j = W_exited" if "j < n" "joined (pr_destroy p) j" for j
    using assms(1,4) len that by (cases "j = i") (simp_all add: run_inv_def)
  ultimately show ?thesis using assms(1) by (simp add: run_inv_def set_slot_def)
qed

lemma wake_inv:
  assumes "run_inv n p" "i < n"
  shows "run_inv n (wake i p)"
proof (cases "pr_pc p ! i = W_waiting")
  case True
  have "run_inv n (set_slot i W_check (pr_queues p ! i) (pr_accepted p ! i) (pr_ran p ! i) p)"
    by (rule set_slot_inv [OF assms]) (use run_inv_slot [OF assms] True in \<open>auto simp: slot_inv_def running_job_def\<close>)
  then show ?thesis using True by (simp add: set_slot_def wake_def)
qed (use assms in \<open>simp add: wake_def\<close>)

lemma worker_step_cases:
  assumes "worker_thread i p = Some p'"
  obtains (taken_job) jb js where "pr_pc p ! i = W_check" "pr_queues p ! i = jb # js"
      "p' = set_slot i (W_running jb) js (pr_accepted p ! i) (pr_ran p ! i) p"
  | (idle) "pr_pc p ! i = W_check" "pr_queues p ! i = []"
      "p' = set_slot i (if pr_shutdown p then W_exited else W_about_to_wait) [] (pr_accepted p ! i) (pr_ran p ! i) p"
  | (sleep) "pr_pc p ! i = W_about_to_wait" "p' = set_slot i W_waiting (pr_queues p ! i) (pr_accepted p ! i) (pr_ran p ! i) p"
  | (ran_job) jb where "pr_pc p ! i = W_running jb"
      "p' = set_slot i (if jb = JOB_TYPE_SHUTDOWN then W_exited else W_check) (pr_queues p ! i) (pr_accepted p ! i)
         (pr_ran p ! i @ [jb]) p"
proof (cases "pr_pc p ! i")
  case W_check
  show ?thesis
  proof (cases "pr_queues p ! i")
    case Nil
    then have "(pr_queues p)[i := []] = pr_queues p" using list_update_id [of "pr_queues p" i] by simp
    then show ?thesis using assms W_check Nil by (intro idle) (auto simp: worker_thread_def set_slot_def)
  next
    case (Cons jb js)
    then show ?thesis using assms W_check by (intro taken_job [of jb js]) (auto simp: worker_thread_def set_slot_def)
  qed
next
  case W_about_to_wait
  then show ?thesis using assms by (intro sleep) (auto simp: worker_thread_def set_slot_def)
next
  case (W_running jb)
  then show ?thesis using assms by (intro ran_job [of jb]) (auto simp: worker_thread_def set_slot_def)
qed (use assms in \<open>simp_all add: worker_thread_def\<close>)

lemma worker_inv:
  assumes "run_inv n p" "i < n" "worker_thread i p = Some p'"
  shows "run_inv n p'"
proof -
  note slot = run_inv_slot [OF assms(1,2)]
  show ?thesis
    using assms(3)
  proof (cases rule: worker_step_cases)
    case (taken_job jb js)
    show ?thesis
      unfolding taken_job(3)
      by (rule set_slot_inv [OF assms(1,2)]) (use slot taken_job in \<open>auto simp: slot_inv_def running_job_def\<close>)
  next
    case idle
    show ?thesis
      unfolding idle(3)
      by (rule set_slot_inv [OF assms(1,2)]) (use slot idle in \<open>auto simp: slot_inv_def running_job_def\<close>)
  next
    case sleep
    show ?thesis
      unfolding sleep(2)
      by (rule set_slot_inv [OF assms(1,2)]) (use slot sleep in \<open>auto simp: slot_inv_def running_job_def\<close>)
  next
    case (ran_job jb)
    then have "jb \<noteq> JOB_TYPE_SHUTDOWN" using slot by (auto simp: slot_inv_def running_job_def)
    then show ?thesis
      unfolding ran_job(2)
      by (intro set_slot_inv [OF assms(1,2)]) (use slot ran_job in \<open>auto simp: slot_inv_def running_job_def\<close>)
  qed
qed

lemma submit_inv:
  assumes "run_inv n p" "0 < n" "jb \<noteq> JOB_TYPE_SHUTDOWN" "pool_submit mal jb key p = Some p'"
  shows "run_inv n p'"
proof -
  let ?i = "unat key mod n"
  have i: "?i < n" using assms(2) by simp
  have len: "length (pr_queues p) = n" using assms(1) by (simp add: run_inv_def)
  have d: "\<not> pr_shutdown p"
    using assms(1,4) by (auto simp: pool_submit_def Let_def run_inv_def split: if_splits)
  let ?p = "set_slot ?i (pr_pc p ! ?i) (pr_queues p ! ?i @ [jb]) (pr_accepted p ! ?i @ [jb]) (pr_ran p ! ?i) p"
  have "p' = p \<or> p' = wake ?i ?p"
    using assms(4) by (auto simp: pool_submit_def len Let_def set_slot_def split: if_splits)
  moreover have "run_inv n ?p"
    by (rule set_slot_inv [OF assms(1) i]) (use run_inv_slot [OF assms(1) i] assms(3) d in \<open>auto simp: slot_inv_def\<close>)
  ultimately show ?thesis using wake_inv [OF _ i] assms(1) by blast
qed

lemma destroy_inv:
  assumes "run_inv n p" "thread_pool_destroy p = Some p'"
  shows "run_inv n p'"
proof (cases "pr_destroy p")
  case D_none
  then show ?thesis using assms by (auto simp: thread_pool_destroy_def run_inv_def slot_inv_def joined_def)
next
  case (D_broadcast i)
  show ?thesis
  proof (cases "i < n")
    case True
    have "run_inv n (wake i p)" "pr_destroy (wake i p) = D_broadcast i"
      using wake_inv [OF assms(1) True] D_broadcast by (simp_all add: wake_def)
    then show ?thesis using assms D_broadcast True by (auto simp: thread_pool_destroy_def run_inv_def joined_def wake_def)
  qed (use assms D_broadcast in \<open>auto simp: thread_pool_destroy_def run_inv_def joined_def\<close>)
next
  case (D_join i)
  show ?thesis
  proof (cases "i < n")
    case True
    then have e: "pr_pc p ! i = W_exited" "p' = p\<lparr>pr_freed := pr_freed p @ pr_queues p ! i, pr_queues := (pr_queues p)[i := []],
        pr_destroy := D_join (Suc i)\<rparr>"
      using assms D_join by (auto simp: thread_pool_destroy_def run_inv_def split: if_splits)
    have "pr_queues p ! i = []" using run_inv_slot [OF assms(1) True] e(1) by (simp add: slot_inv_def)
    then have "p' = p\<lparr>pr_destroy := D_join (Suc i)\<rparr>" using e(2) list_update_id [of "pr_queues p" i] by simp
    then show ?thesis using assms(1) D_join e(1) by (auto simp: run_inv_def joined_def less_Suc_eq)
  qed (use assms D_join in \<open>auto simp: thread_pool_destroy_def run_inv_def joined_def\<close>)
qed (use assms in \<open>simp add: thread_pool_destroy_def\<close>)

lemma reach_inv: "run_reach n p \<Longrightarrow> 0 < n \<Longrightarrow> run_inv n p"
proof (induction rule: run_reach.induct)
  case (progress p l p')
  have len: "length (pr_pc p) = n" using progress by (simp add: run_inv_def)
  show ?case
    using progress len worker_inv [of n p _ p'] submit_inv [of n p _ _ _ p'] destroy_inv [of n p p'] wake_inv [of n p]
    by (cases l) (auto split: if_splits)
qed (simp add: run_inv_init)

section \<open>All jobs are run\<close>

text \<open>
  C21. When \<open>thread_pool_destroy\<close> returns, every job that was ever accepted has been run, once, by
  the worker of its queue and in the order of submission; no job is left to be freed without
  being run, and every worker is gone. This holds for every interleaving of the workers, the
  submissions and the destroying thread, with spurious wake-ups.
\<close>

theorem destroy_runs_all:
  assumes "run_reach n p" "0 < n" "pr_destroy p = D_returned" "i < n"
  shows "pr_ran p ! i = pr_accepted p ! i \<and> pr_queues p ! i = [] \<and> pr_pc p ! i = W_exited \<and> pr_freed p = []"
  using reach_inv [OF assms(1,2)] assms(3,4) by (auto simp: run_inv_def slot_inv_def running_job_def joined_def)

fun run_labels :: "run_label list \<Rightarrow> pool_run \<Rightarrow> pool_run option" where
  "run_labels [] p = Some p"
| "run_labels (l # ls) p = (case run_step l p of None \<Rightarrow> None | Some p1 \<Rightarrow> run_labels ls p1)"

lemma run_labels_reach: "run_reach n p \<Longrightarrow> run_labels ls p = Some p' \<Longrightarrow> run_reach n p'"
  by (induction ls arbitrary: p) (auto split: option.splits intro: run_reach.progress)

definition sample_destroy :: "run_label list" where
  "sample_destroy =
     [Run_submit (Some 1) (JOB_TYPE_OUTBOUND_CRYPTO [1]) 3, Run_worker 0, Run_worker 0, Run_destroy, Run_destroy, Run_destroy,
      Run_destroy, Run_worker 0, Run_worker 1, Run_worker 1, Run_worker 1, Run_destroy, Run_destroy, Run_destroy]"

lemma init_two:
  "pool_run_init 2 =
     \<lparr>pr_queues = [[], []], pr_pc = [W_check, W_check], pr_shutdown = False, pr_destroy = D_none,
      pr_accepted = [[], []], pr_ran = [[], []], pr_freed = []\<rparr>"
  by (simp add: pool_run_init_def numeral_2_eq_2)

theorem destroy_runs_all_witness:
  "\<exists>p. run_labels sample_destroy (pool_run_init 2) = Some p \<and> pr_destroy p = D_returned \<and>
     pr_ran p ! 1 = [JOB_TYPE_OUTBOUND_CRYPTO [1]]"
proof -
  let ?p = "the (run_labels sample_destroy (pool_run_init 2))"
  have one: "3 mod Suc (Suc 0) = Suc 0" by presburger
  have r: "run_labels sample_destroy (pool_run_init 2) \<noteq> None" "pr_destroy ?p = D_returned"
    "pr_accepted ?p ! 1 = [JOB_TYPE_OUTBOUND_CRYPTO [1]]"
    by (simp_all add: sample_destroy_def init_two pool_submit_def worker_thread_def thread_pool_destroy_def wake_def
        SHARD_MAX_SIZE_def Let_def one)
  then have p: "run_labels sample_destroy (pool_run_init 2) = Some ?p" by simp
  have "run_reach 2 ?p" by (rule run_labels_reach [OF run_reach.created p])
  from destroy_runs_all [OF this _ r(2), of 1] r p show ?thesis by auto
qed

section \<open>A lost wake-up\<close>

text \<open>Only a spurious wake-up is possible.\<close>

definition run_stuck :: "pool_run \<Rightarrow> bool" where
  "run_stuck p \<longleftrightarrow> (\<forall>l. (\<exists>i. l = Run_spurious i) \<or> run_step l p = None)"

definition lost_wakeup_run :: "run_label list" where
  "lost_wakeup_run =
     [Run_worker 0, Run_destroy, Run_destroy, Run_destroy, Run_destroy, Run_worker 1, Run_worker 0]"

lemma stuckI:
  assumes "pr_pc p = [W_waiting, W_exited]" "pr_destroy p = D_join 0"
  shows "run_stuck p"
  unfolding run_stuck_def
proof
  fix l
  show "(\<exists>i. l = Run_spurious i) \<or> run_step l p = None"
  proof (cases l)
    case (Run_worker i)
    then show ?thesis using assms by (auto simp: worker_thread_def nth_Cons' less_Suc_eq numeral_2_eq_2)
  qed (use assms in \<open>auto simp: pool_submit_def thread_pool_destroy_def Let_def\<close>)
qed

text \<open>
  C37. \<open>thread_pool_destroy\<close> can wait for ever. If it sets the flag and broadcasts after a worker has
  tested the flag and before that worker sleeps, the wake-up is lost: a state is reachable in
  which the worker sleeps, the destroying thread waits for it, and no thread can go on unless the
  worker wakes up without being signalled.
\<close>

theorem lost_wakeup:
  "\<exists>p. run_reach 2 p \<and> pr_shutdown p \<and> pr_destroy p = D_join 0 \<and> pr_pc p ! 0 = W_waiting \<and> run_stuck p"
proof -
  let ?p = "the (run_labels lost_wakeup_run (pool_run_init 2))"
  have r: "run_labels lost_wakeup_run (pool_run_init 2) \<noteq> None" "pr_pc ?p = [W_waiting, W_exited]"
    "pr_destroy ?p = D_join 0" "pr_shutdown ?p"
    by (simp_all add: lost_wakeup_run_def init_two worker_thread_def thread_pool_destroy_def wake_def)
  then have p: "run_labels lost_wakeup_run (pool_run_init 2) = Some ?p" by simp
  have "run_reach 2 ?p" by (rule run_labels_reach [OF run_reach.created p])
  with r(2-4) stuckI [OF r(2,3)] show ?thesis by auto
qed

end
