(* ===== verification/Client_Queue.thy ===== *)
theory Client_Queue
  imports Out_Queue
begin

text \<open>
  The packet queue of the client, \<open>chamlon_client/src/vpn_queue.c\<close>, with its own layout: three arrays
  indexed by the priority, with sizes of type \<open>size_t\<close>, and loops over the priorities. The server
  has a second copy of the queue (\<open>Out_Queue\<close>); the last section shows that the two are equivalent,
  so that what is proved of one holds of the other.
\<close>

section \<open>Classifier\<close>

text \<open>The buffer and the length the caller passes; a read outside the buffer is \<open>None\<close>.\<close>

definition client_classify :: "bytes option \<Rightarrow> nat \<Rightarrow> pkt_priority option" where
  "client_classify ipo len =
     (case ipo of
        None \<Rightarrow> Some PKT_PRIO_NORMAL
      | Some ip \<Rightarrow>
          if len < 20 then Some PKT_PRIO_NORMAL
          else do {
            b0 \<leftarrow> rd ip 0;
            let version = drop_bit 4 b0;
            if version = 4 then do {
              total_len \<leftarrow> rd16 ip 2;
              protocol \<leftarrow> rd ip 9;
              let ihl = (b0 AND 0x0F) * 4;
              if total_len \<le> 128 then Some PKT_PRIO_HIGH
              else if protocol = 1 then Some PKT_PRIO_HIGH
              else do {
                dns \<leftarrow> (if protocol = 17 \<and> len \<ge> unat ihl + 4 then do {
                          sport \<leftarrow> rd16 ip (unat ihl);
                          dport \<leftarrow> rd16 ip (unat ihl + 2);
                          Some (sport = 53 \<or> dport = 53) }
                        else Some False);
                if dns then Some PKT_PRIO_HIGH
                else do {
                  pure_ack \<leftarrow> (if protocol = 6 \<and> len \<ge> unat ihl + 20 then do {
                          off \<leftarrow> rd ip (unat ihl + 12);
                          let tcp_off = drop_bit 4 off * 4;
                          tcp_flags \<leftarrow> rd ip (unat ihl + 13);
                          let tcp_payload = total_len - ucast ihl - ucast tcp_off;
                          Some (tcp_flags AND 0x10 \<noteq> 0 \<and> tcp_payload = (0 :: u16)) }
                        else Some False);
                  Some (if pure_ack then PKT_PRIO_HIGH else PKT_PRIO_NORMAL) } } }
            else if version = 6 then do {
              icmp6 \<leftarrow> (if len \<ge> 40 then do { nh \<leftarrow> rd ip 6; Some (nh = 58) } else Some False);
              Some (if icmp6 then PKT_PRIO_HIGH
                    else if len \<le> 128 then PKT_PRIO_HIGH
                    else PKT_PRIO_NORMAL) }
            else Some PKT_PRIO_NORMAL })"

lemma rd_take: "i < n \<Longrightarrow> rd (take n ip) i = rd ip i"
  by (simp add: rd_def)

lemma rd16_take: "i + 1 < n \<Longrightarrow> rd16 (take n ip) i = rd16 ip i"
  by (simp add: rd16_def rd_take)

text \<open>The length decides, not the buffer behind it: bytes after \<open>len\<close> are never looked at.\<close>

lemma client_classify_take:
  assumes "len \<le> length ip"
  shows "client_classify (Some ip) len = classify_packet (Some (take len ip))"
proof (cases "len < 20")
  case False
  define ihl where "ihl = (ip ! 0 AND 0x0F) * 4"
  have len [simp]: "min (length ip) len = len" using assms by simp
  have head: "rd ip 0 = Some (ip ! 0)" "rd ip 9 = Some (ip ! 9)"
    "rd16 ip 2 = Some (push_bit 8 (ucast (ip ! 2)) OR ucast (ip ! 3))"
    using False assms by (auto simp: rd_def rd16_def)
  note defs = client_classify_def classify_packet_def Let_def ihl_def [symmetric] head rd_take rd16_take
  consider (v4) "drop_bit 4 (ip ! 0) = 4" | (v6) "drop_bit 4 (ip ! 0) = 6"
    | (other) "drop_bit 4 (ip ! 0) \<noteq> 4" "drop_bit 4 (ip ! 0) \<noteq> 6" by blast
  then show ?thesis
  proof cases
    case v4
    then show ?thesis
      using False assms
      by (cases "ip ! 9 = 17 \<and> unat ihl + 4 \<le> len"; cases "ip ! 9 = 6 \<and> unat ihl + 20 \<le> len")
        (auto simp: defs)
  next
    case v6
    then show ?thesis using False assms by (cases "40 \<le> len") (simp_all add: defs)
  qed (use False in \<open>simp add: defs\<close>)
qed (simp add: client_classify_def classify_packet_def)

lemma client_classify_interactive:
  "client_classify (Some ip) (length ip) = Some (if interactive ip then PKT_PRIO_HIGH else PKT_PRIO_NORMAL)"
  by (simp add: client_classify_take classify_interactive)

section \<open>Queue\<close>

record client_queue =
  cq_head :: "addr option list"
  cq_tail :: "addr option list"
  cq_size :: "u64 list"

definition PKT_PRIO_LEVELS :: nat where [config_defs]: "PKT_PRIO_LEVELS = 2"

primrec prio_index :: "pkt_priority \<Rightarrow> nat" where
  "prio_index PKT_PRIO_HIGH = 0"
| "prio_index PKT_PRIO_NORMAL = 1"

definition client_queue_init :: client_queue where
  "client_queue_init =
     \<lparr>cq_head = replicate PKT_PRIO_LEVELS None, cq_tail = replicate PKT_PRIO_LEVELS None, cq_size = replicate PKT_PRIO_LEVELS 0\<rparr>"

text \<open>Unlinking the head of a level, as in \<open>packet_queue_push\<close> and \<open>out_queue_pop\<close>.\<close>

definition client_unlink :: "nat \<Rightarrow> out_node store \<Rightarrow> client_queue \<Rightarrow> (addr \<times> client_queue) option" where
  "client_unlink p h q =
     (case cq_head q ! p of
        None \<Rightarrow> None
      | Some old \<Rightarrow>
          (case h old of
             None \<Rightarrow> None
           | Some c \<Rightarrow>
               Some (old, \<lparr>cq_head = (cq_head q)[p := nxt c],
                           cq_tail = (if nxt c = None then (cq_tail q)[p := None] else cq_tail q),
                           cq_size = (cq_size q)[p := cq_size q ! p - 1]\<rparr>)))"

definition client_append :: "nat \<Rightarrow> addr \<Rightarrow> out_node store \<Rightarrow> client_queue \<Rightarrow> (out_node store \<times> client_queue) option" where
  "client_append p n h q =
     (let sz = (cq_size q)[p := cq_size q ! p + 1]
      in case cq_tail q ! p of
           None \<Rightarrow> Some (h, \<lparr>cq_head = (cq_head q)[p := Some n], cq_tail = (cq_tail q)[p := Some n], cq_size = sz\<rparr>)
         | Some t \<Rightarrow>
             (case h t of
                None \<Rightarrow> None
              | Some c \<Rightarrow> Some (h(t \<mapsto> c\<lparr>nxt := Some n\<rparr>), q\<lparr>cq_tail := (cq_tail q)[p := Some n], cq_size := sz\<rparr>)))"

definition client_queue_push ::
  "addr option \<Rightarrow> bytes option \<Rightarrow> u64 \<Rightarrow> bytes option \<Rightarrow> nat \<Rightarrow> out_node store \<Rightarrow> client_queue option \<Rightarrow>
   (out_node store \<times> client_queue option) option" where
  "client_queue_push mal pk sq ip_buf ip_len h qo =
     (case (qo, pk) of
        (Some q, Some p) \<Rightarrow>
          (case client_classify ip_buf ip_len of
             None \<Rightarrow> None
           | Some prio \<Rightarrow>
               let cap = queue_cap prio; i = prio_index prio
               in case mal of
                    None \<Rightarrow> Some (h, qo)
                  | Some n \<Rightarrow>
                      let h1 = h(n \<mapsto> \<lparr>nxt = None, item = \<lparr>pkt = p, seq = sq, priority = prio\<rparr>\<rparr>)
                      in (case (if cq_size q ! i \<ge> of_nat cap
                                then map_option (\<lambda>(old, q1). (h1(old := None), q1)) (client_unlink i h1 q)
                                else Some (h1, q)) of
                            None \<Rightarrow> None
                          | Some (h2, q2) \<Rightarrow> map_option (\<lambda>(h3, q3). (h3, Some q3)) (client_append i n h2 q2)))
      | _ \<Rightarrow> Some (h, qo))"

fun client_pop_levels :: "nat list \<Rightarrow> out_node store \<Rightarrow> client_queue \<Rightarrow> (addr option \<times> client_queue) option" where
  "client_pop_levels [] h q = Some (None, q)"
| "client_pop_levels (p # ps) h q =
     (if cq_head q ! p \<noteq> None then map_option (\<lambda>(n, q1). (Some n, q1)) (client_unlink p h q)
      else client_pop_levels ps h q)"

definition client_queue_pop :: "out_node store \<Rightarrow> client_queue \<Rightarrow> (addr option \<times> client_queue) option" where
  "client_queue_pop h q = client_pop_levels [0..<PKT_PRIO_LEVELS] h q"

definition client_queue_size :: "client_queue \<Rightarrow> u64" where
  "client_queue_size q = fold (\<lambda>p total. total + cq_size q ! p) [0..<PKT_PRIO_LEVELS] 0"

text \<open>The sizes bound the freeing loops.\<close>

fun client_destroy_levels :: "nat list \<Rightarrow> out_node store \<Rightarrow> client_queue \<Rightarrow> (out_node store \<times> client_queue) option" where
  "client_destroy_levels [] h q = Some (h, q)"
| "client_destroy_levels (p # ps) h q =
     (case free_chain (unat (cq_size q ! p)) (cq_head q ! p) h of
        None \<Rightarrow> None
      | Some h1 \<Rightarrow>
          client_destroy_levels ps h1
            \<lparr>cq_head = (cq_head q)[p := None], cq_tail = (cq_tail q)[p := None], cq_size = (cq_size q)[p := 0]\<rparr>)"

definition client_queue_destroy :: "out_node store \<Rightarrow> client_queue \<Rightarrow> (out_node store \<times> client_queue) option" where
  "client_queue_destroy h q = client_destroy_levels [0..<PKT_PRIO_LEVELS] h q"

text \<open>The operations as steps, with the freeing of a popped node as the sender thread does it.\<close>

fun client_step ::
  "queue_op \<Rightarrow> out_node store \<times> client_queue \<Rightarrow> (queue_result \<times> out_node store \<times> client_queue) option" where
  "client_step (Enqueue mal p sq ip) (h, q) =
     (case client_queue_push mal (Some p) sq (Some ip) (length ip) h (Some q) of
        Some (h', Some q') \<Rightarrow> Some (Enqueued False, h', q') | _ \<Rightarrow> None)"
| "client_step Dequeue (h, q) =
     (case client_queue_pop h q of
        None \<Rightarrow> None
      | Some (None, q') \<Rightarrow> Some (Dequeued None, h, q')
      | Some (Some n, q') \<Rightarrow>
          (case h n of None \<Rightarrow> None | Some c \<Rightarrow> Some (Dequeued (Some (item c)), h(n := None), q')))"
| "client_step Size (h, q) = Some (Sized (unat (client_queue_size q)), h, q)"

section \<open>The queue of the server, seen through the arrays\<close>

definition cq_wf :: "client_queue \<Rightarrow> bool" where
  "cq_wf q \<longleftrightarrow> length (cq_head q) = PKT_PRIO_LEVELS \<and> length (cq_tail q) = PKT_PRIO_LEVELS \<and>
     length (cq_size q) = PKT_PRIO_LEVELS"

definition lane_at :: "client_queue \<Rightarrow> nat \<Rightarrow> lane" where
  "lane_at q p = \<lparr>head = cq_head q ! p, tail = cq_tail q ! p, size_of = unat (cq_size q ! p)\<rparr>"

definition server_view :: "client_queue \<Rightarrow> out_queue" where
  "server_view q = \<lparr>lane_high = lane_at q 0, lane_normal = lane_at q 1\<rparr>"

definition put_lane :: "nat \<Rightarrow> lane \<Rightarrow> client_queue \<Rightarrow> client_queue" where
  "put_lane p l q = \<lparr>cq_head = (cq_head q)[p := head l], cq_tail = (cq_tail q)[p := tail l],
     cq_size = (cq_size q)[p := of_nat (size_of l)]\<rparr>"

lemma lane_at_index [simp]: "lane_at q (prio_index prio) = get_lane prio (server_view q)"
  by (cases prio) (simp_all add: server_view_def)

lemma put_lane_wf [simp]: "cq_wf (put_lane p l q) = cq_wf q"
  by (simp add: cq_wf_def put_lane_def)

lemma put_lane_twice [simp]: "put_lane p l (put_lane p k q) = put_lane p l q"
  by (simp add: put_lane_def)

lemma server_view_put:
  assumes "cq_wf q" and "size_of l < 2 ^ 64"
  shows "server_view (put_lane (prio_index prio) l q) = set_lane prio l (server_view q)"
  using assms
  by (cases prio) (simp_all add: server_view_def put_lane_def lane_at_def cq_wf_def config_defs unat_of_nat)

lemma get_set_lane [simp]: "get_lane prio (set_lane prio l q) = l"
  by (cases prio) simp_all

lemma client_unlink_lane:
  assumes "0 < size_of (lane_at q p)"
  shows "client_unlink p h q = map_option (\<lambda>(n, l). (n, put_lane p l q)) (unlink_head h (lane_at q p))"
proof -
  have "of_nat (unat (cq_size q ! p) - 1) = cq_size q ! p - 1"
    using assms by (simp add: lane_at_def of_nat_diff)
  then show ?thesis
    by (simp add: client_unlink_def unlink_head_def lane_at_def put_lane_def split: option.split)
qed

lemma client_append_lane:
  "client_append p n h q = map_option (\<lambda>(h', l). (h', put_lane p l q)) (append_node n h (lane_at q p))"
  by (cases q) (simp add: client_append_def append_node_def lane_at_def put_lane_def Let_def add.commute split: option.split)

section \<open>Equivalence of the operations\<close>

lemma queue_rel_lane:
  assumes "queue_rel (h, q) fq"
  shows "size_of (get_lane prio q) \<le> queue_cap prio"
    and "head (get_lane prio q) \<noteq> None \<Longrightarrow> 0 < size_of (get_lane prio q)"
proof -
  obtain as bs where r: "lane_rel h (lane_high q) as" "lane_rel h (lane_normal q) bs"
    "length as \<le> QUEUE_CAP_HIGH" "length bs \<le> QUEUE_CAP_NORMAL"
    using assms by (auto simp: queue_rel_def lanes_rel_def)
  note heads = lane_empty_head [OF r(1)] lane_empty_head [OF r(2)]
  show "size_of (get_lane prio q) \<le> queue_cap prio" using r by (cases prio) (auto simp: lane_rel_def)
  show "0 < size_of (get_lane prio q)" if "head (get_lane prio q) \<noteq> None"
    using that r(1,2) heads by (cases prio) (auto simp: lane_rel_def)
qed

lemma queue_cap_bounds [simp]: "0 < queue_cap prio" "queue_cap prio < 2 ^ 64"
  by (cases prio; simp add: config_defs)+

lemma queue_rel_small: "queue_rel (h, q) fq \<Longrightarrow> size_of (get_lane prio q) < 2 ^ 64"
  using queue_rel_lane(1) queue_cap_bounds(2) by (rule le_less_trans)

lemma lane_at_put:
  assumes "cq_wf q" and "size_of l < 2 ^ 64"
  shows "lane_at (put_lane (prio_index prio) l q) (prio_index prio) = l"
  by (simp add: server_view_put [OF assms])

lemma unlink_head_size: "unlink_head h l = Some (n, l') \<Longrightarrow> size_of l' = size_of l - 1"
  by (auto simp: unlink_head_def split: option.splits)

text \<open>A push is \<open>push_lane\<close> on the level of the packet.\<close>

lemma client_queue_push_lane:
  fixes prio :: pkt_priority
  defines "i \<equiv> prio_index prio"
  assumes wf: "cq_wf q" and cl: "client_classify (Some ip) len = Some prio"
  shows "client_queue_push (Some n) (Some p) sq (Some ip) len h (Some q) =
     push_lane (queue_cap prio) n
       (h(n \<mapsto> \<lparr>nxt = None, item = \<lparr>pkt = p, seq = sq, priority = prio\<rparr>\<rparr>)) (lane_at q i)
     \<bind> (\<lambda>(dropped, h3, l3). Some (h3, Some (put_lane i l3 q)))"
proof -
  define h1 where "h1 = h(n \<mapsto> \<lparr>nxt = None, item = \<lparr>pkt = p, seq = sq, priority = prio\<rparr>\<rparr>)"
  have full: "of_nat (queue_cap prio) \<le> cq_size q ! i \<longleftrightarrow> queue_cap prio \<le> size_of (lane_at q i)"
    by (cases prio) (simp_all add: word_le_nat_alt unat_of_nat lane_at_def config_defs)
  have small: "size_of (lane_at q i) < 2 ^ 64" using unsigned_less [of "cq_size q ! i", where 'a = nat] by (simp add: lane_at_def)
  show ?thesis
  proof (cases "queue_cap prio \<le> size_of (lane_at q i)")
    case False
    then show ?thesis
      by (simp add: client_queue_push_def cl i_def [symmetric] Let_def full push_lane_def h1_def [symmetric]
          client_append_lane option.map_comp split: option.split)
  next
    case True
    then have pos: "0 < size_of (lane_at q i)" using queue_cap_bounds(1) less_le_trans by blast
    have at: "lane_at (put_lane i l q) i = l" if "unlink_head h1 (lane_at q i) = Some (m, l)" for m l
      unfolding i_def by (rule lane_at_put [OF wf]) (use unlink_head_size [OF that] small in simp)
    show ?thesis
      using True
      by (auto simp: client_queue_push_def cl i_def [symmetric] Let_def full push_lane_def h1_def [symmetric]
          client_append_lane client_unlink_lane [OF pos] at split: option.split bind_splits)
  qed
qed

lemma client_pop_view:
  assumes wf: "cq_wf q" and rel: "queue_rel (h, server_view q) fq"
    and pop: "out_queue_pop h (server_view q) = Some (n, sq')"
  shows "\<exists>q'. client_queue_pop h q = Some (n, q') \<and> cq_wf q' \<and> server_view q' = sq'"
proof -
  have level: "\<exists>q'. map_option (\<lambda>(n, q1). (Some n, q1)) (client_unlink (prio_index prio) h q) = Some (n, q') \<and>
      cq_wf q' \<and> server_view q' = sq'"
    if hd: "head (get_lane prio (server_view q)) \<noteq> None"
      and u: "map_option (\<lambda>(n, l). (Some n, set_lane prio l (server_view q)))
        (unlink_head h (get_lane prio (server_view q))) = Some (n, sq')" for prio
  proof -
    obtain m l where ul: "unlink_head h (get_lane prio (server_view q)) = Some (m, l)"
      and n: "n = Some m" and sq': "sq' = set_lane prio l (server_view q)" using u by auto
    have "size_of l < 2 ^ 64" using unlink_head_size [OF ul] queue_rel_small [OF rel, of prio] by simp
    then have "server_view (put_lane (prio_index prio) l q) = sq'" using server_view_put [OF wf] sq' by simp
    then show ?thesis
      using client_unlink_lane [of q "prio_index prio" h] queue_rel_lane(2) [OF rel hd] ul n wf by auto
  qed
  have two: "client_queue_pop h q =
      (if head (lane_high (server_view q)) \<noteq> None
       then map_option (\<lambda>(n, q1). (Some n, q1)) (client_unlink 0 h q)
       else if head (lane_normal (server_view q)) \<noteq> None
       then map_option (\<lambda>(n, q1). (Some n, q1)) (client_unlink 1 h q)
       else Some (None, q))"
    by (simp add: client_queue_pop_def PKT_PRIO_LEVELS_def upt_rec server_view_def lane_at_def)
  consider (h) "head (lane_high (server_view q)) \<noteq> None"
    | (l) "head (lane_high (server_view q)) = None" "head (lane_normal (server_view q)) \<noteq> None"
    | (e) "head (lane_high (server_view q)) = None" "head (lane_normal (server_view q)) = None" by blast
  then show ?thesis
  proof cases
    case h
    then show ?thesis
      using level [of PKT_PRIO_HIGH] pop by (auto simp: two out_queue_pop_def split: option.splits)
  next
    case l
    then show ?thesis
      using level [of PKT_PRIO_NORMAL] pop by (auto simp: two out_queue_pop_def split: option.splits)
  next
    case e
    then show ?thesis using pop wf by (simp add: two out_queue_pop_def)
  qed
qed

lemma client_size_view:
  assumes rel: "queue_rel (h, server_view q) fq"
  shows "unat (client_queue_size q) = out_queue_size (server_view q)"
proof -
  have "unat (cq_size q ! 0) \<le> 64" "unat (cq_size q ! 1) \<le> 256"
    using queue_rel_lane(1) [OF rel, of PKT_PRIO_HIGH] queue_rel_lane(1) [OF rel, of PKT_PRIO_NORMAL]
    by (simp_all add: server_view_def lane_at_def config_defs)
  then have "unat (cq_size q ! 0 + cq_size q ! 1) = unat (cq_size q ! 0) + unat (cq_size q ! 1)"
    by (simp add: unat_word_ariths)
  then show ?thesis
    by (simp add: client_queue_size_def out_queue_size_def PKT_PRIO_LEVELS_def upt_rec server_view_def
        lane_at_def)
qed

lemma client_destroy_view:
  assumes "cq_wf q"
  shows "client_queue_destroy h q =
    map_option (\<lambda>(h', sq). (h', client_queue_init)) (out_queue_destroy h (server_view q))"
proof -
  obtain a b c d x y where q: "q = \<lparr>cq_head = [a, b], cq_tail = [c, d], cq_size = [x, y]\<rparr>"
    using assms by (cases q) (auto simp: cq_wf_def PKT_PRIO_LEVELS_def numeral_2_eq_2 length_Suc_conv)
  show ?thesis
    by (simp add: q client_queue_destroy_def out_queue_destroy_def server_view_def lane_at_def upt_rec
        client_queue_init_def PKT_PRIO_LEVELS_def numeral_2_eq_2 split: option.split bind_splits)
qed

section \<open>Equivalence of the runs\<close>

text \<open>The client does not count the packets it drops.\<close>

primrec hide_drop :: "queue_result \<Rightarrow> queue_result" where
  "hide_drop (Enqueued d) = Enqueued False"
| "hide_drop (Dequeued x) = Dequeued x"
| "hide_drop (Sized n) = Sized n"

lemma client_step_view:
  assumes wf: "cq_wf q" and rel: "queue_rel (h, server_view q) fq" and rel': "queue_rel (h', sq') fq'"
    and step: "queue_step op (h, server_view q) = Some (r, h', sq')"
  shows "\<exists>q'. client_step op (h, q) = Some (hide_drop r, h', q') \<and> cq_wf q' \<and> server_view q' = sq'"
proof (cases op)
  case (Enqueue mal p sq ip)
  let ?prio = "if interactive ip then PKT_PRIO_HIGH else PKT_PRIO_NORMAL"
  show ?thesis
  proof (cases mal)
    case None
    then show ?thesis
      using step Enqueue wf
      by (auto simp: packet_queue_push_def client_queue_push_def client_classify_interactive
          classify_interactive Let_def)
  next
    case (Some n)
    obtain d l3 where pl: "push_lane (queue_cap ?prio) n
        (h(n \<mapsto> \<lparr>nxt = None, item = \<lparr>pkt = p, seq = sq, priority = ?prio\<rparr>\<rparr>)) (get_lane ?prio (server_view q)) =
          Some (d, h', l3)" and r: "r = Enqueued d" and sq': "sq' = set_lane ?prio l3 (server_view q)"
      using step unfolding Enqueue Some queue_step.simps packet_queue_push_lane [OF classify_interactive]
      by (auto split: option.splits bind_splits)
    have "size_of l3 < 2 ^ 64" using queue_rel_small [OF rel', of ?prio] by (simp add: sq')
    then have "server_view (put_lane (prio_index ?prio) l3 q) = sq'" using server_view_put [OF wf] sq' by simp
    moreover have "client_step op (h, q) = Some (hide_drop r, h', put_lane (prio_index ?prio) l3 q)"
      unfolding Enqueue Some client_step.simps client_queue_push_lane [OF wf client_classify_interactive]
        lane_at_index pl by (simp add: r)
    ultimately show ?thesis using wf by (intro exI conjI) simp_all
  qed
next
  case Dequeue
  obtain n where pop: "out_queue_pop h (server_view q) = Some (n, sq')"
    using step Dequeue by (auto split: option.splits)
  obtain q' where "client_queue_pop h q = Some (n, q')" "cq_wf q'" "server_view q' = sq'"
    using client_pop_view [OF wf rel pop] by auto
  then show ?thesis using step pop Dequeue by (auto split: option.splits)
next
  case Size
  then show ?thesis using step wf client_size_view [OF rel] by auto
qed

definition client_rel :: "out_node store \<times> client_queue \<Rightarrow> packet_lanes \<Rightarrow> bool" where
  "client_rel c fq \<longleftrightarrow> cq_wf (snd c) \<and> queue_rel (fst c, server_view (snd c)) fq"

definition client_fresh :: "queue_op \<Rightarrow> out_node store \<times> client_queue \<Rightarrow> bool" where
  "client_fresh op c \<longleftrightarrow> malloc_fresh op (fst c, server_view (snd c))"

interpretation client_lanes: simulation client_rel client_fresh client_step
  "\<lambda>op fq. apfst hide_drop (lanes_step op fq)"
proof
  fix c fq op r fq'
  assume rel: "client_rel c fq" and legal: "client_fresh op c" and st: "apfst hide_drop (lanes_step op fq) = (r, fq')"
  obtain h q where c: "c = (h, q)" by fastforce
  obtain r0 where r0: "lanes_step op fq = (r0, fq')" "r = hide_drop r0" using st by (cases "lanes_step op fq") auto
  have wf: "cq_wf q" and qr: "queue_rel (h, server_view q) fq" and fr: "malloc_fresh op (h, server_view q)"
    using rel legal by (simp_all add: c client_rel_def client_fresh_def)
  obtain h' sq' where s: "queue_step op (h, server_view q) = Some (r0, h', sq')" "queue_rel (h', sq') fq'"
    using server_queue.step [OF qr fr r0(1)] by auto
  from client_step_view [OF wf qr s(2,1)]
  show "\<exists>c'. client_step op c = Some (r, c') \<and> client_rel c' fq'" using s(2) c r0(2) by (auto simp: client_rel_def)
qed

text \<open>So the client's queue is the same pair of bounded lists.\<close>

lemma client_queue_fifo:
  assumes "client_rel (h, q) fq" and "run_legal client_fresh client_step ops (h, q)"
  shows "\<exists>h' q'. let (rs, fq') = run_spec (\<lambda>op fq. apfst hide_drop (lanes_step op fq)) ops fq in
    run_ops client_step ops (h, q) = Some (rs, h', q') \<and> card (dom h') = lanes_size fq' \<and>
    length (high fq') \<le> QUEUE_CAP_HIGH \<and> length (normal fq') \<le> QUEUE_CAP_NORMAL"
  using client_lanes.run_sim [OF assms] by (auto simp: client_rel_def case_prod_beta Let_def dest: queue_rel_bounds)

lemma client_run_view:
  assumes "cq_wf q" and "queue_rel (h, server_view q) fq"
    and "run_legal malloc_fresh queue_step ops (h, server_view q)"
  shows "\<exists>rs h' q'. run_ops queue_step ops (h, server_view q) = Some (rs, h', server_view q') \<and>
    run_ops client_step ops (h, q) = Some (map hide_drop rs, h', q') \<and>
    cq_wf q' \<and> queue_rel (h', server_view q') (snd (run_spec lanes_step ops fq))"
  using assms
proof (induction ops arbitrary: h q fq)
  case (Cons op ops)
  obtain r fq1 where a: "lanes_step op fq = (r, fq1)" by fastforce
  obtain h1 sq1 where s: "queue_step op (h, server_view q) = Some (r, h1, sq1)" "queue_rel (h1, sq1) fq1"
    using server_queue.step [OF Cons.prems(2) _ a] Cons.prems(3) by auto
  obtain q1 where c: "client_step op (h, q) = Some (hide_drop r, h1, q1)" "cq_wf q1" and v: "server_view q1 = sq1"
    using client_step_view [OF Cons.prems(1,2) s(2,1)] by auto
  have "run_legal malloc_fresh queue_step ops (h1, server_view q1)" using Cons.prems(3) s(1) v by simp
  from Cons.IH [OF c(2) s(2) [folded v] this] show ?case
    using s(1) c(1) v by (auto simp: a Let_def case_prod_beta)
qed auto

lemma client_init_view: "cq_wf client_queue_init" "server_view client_queue_init = out_queue_init"
  by (simp_all add: cq_wf_def client_queue_init_def server_view_def lane_at_def out_queue_init_def
      empty_lane_def config_defs numeral_2_eq_2)

text \<open>
  C26. The client's queue and the server's queue are equivalent. Whatever sequence of pushes, pops
  and size requests runs on both, with the same answers of \<open>malloc\<close>, every operation of the
  client's array code gives what the server's gives, apart from the drop count the client does
  not keep; both link the same nodes in the same order in memory, the client's \<open>size_t\<close> counters
  never wrap, and \<open>out_queue_destroy\<close> of either returns its queue to the initial state with no
  node left allocated.
\<close>

theorem client_queue_equivalent:
  assumes "run_legal malloc_fresh queue_step ops (Map.empty, out_queue_init)"
  shows "\<exists>rs h q. run_ops queue_step ops (Map.empty, out_queue_init) = Some (rs, h, server_view q) \<and>
    run_ops client_step ops (Map.empty, client_queue_init) = Some (map hide_drop rs, h, q) \<and>
    unat (client_queue_size q) = unat (cq_size q ! 0) + unat (cq_size q ! 1) \<and>
    out_queue_destroy h (server_view q) = Some (Map.empty, out_queue_init) \<and>
    client_queue_destroy h q = Some (Map.empty, client_queue_init)"
proof -
  obtain rs h q where run: "run_ops queue_step ops (Map.empty, out_queue_init) = Some (rs, h, server_view q)"
    "run_ops client_step ops (Map.empty, client_queue_init) = Some (map hide_drop rs, h, q)"
    and wf: "cq_wf q" and rel: "queue_rel (h, server_view q) (snd (run_spec lanes_step ops lanes_empty))"
    using client_run_view [of client_queue_init Map.empty lanes_empty ops] assms queue_rel_init
    by (auto simp: client_init_view)
  have "unat (client_queue_size q) = unat (cq_size q ! 0) + unat (cq_size q ! 1)"
    using client_size_view [OF rel] by (simp add: out_queue_size_def server_view_def lane_at_def)
  with run show ?thesis
    using out_queue_destroy_rel [OF rel] client_destroy_view [OF wf, of h] by (intro exI conjI) simp_all
qed

theorem client_queue_equivalent_witness:
  "\<exists>rs h q. let ops = [Enqueue (Some 5) [1] 0 (replicate 20 0x40), Enqueue None [2] 1 [],
                        Enqueue (Some 3) [3] 2 [], Dequeue, Size] in
    run_ops queue_step ops (Map.empty, out_queue_init) = Some (rs, h, server_view q) \<and>
    run_ops client_step ops (Map.empty, client_queue_init) = Some (map hide_drop rs, h, q) \<and>
    unat (client_queue_size q) = unat (cq_size q ! 0) + unat (cq_size q ! 1) \<and>
    out_queue_destroy h (server_view q) = Some (Map.empty, out_queue_init) \<and>
    client_queue_destroy h q = Some (Map.empty, client_queue_init)"
proof -
  let ?ops = "[Enqueue (Some 5) [1] 0 (replicate 20 0x40), Enqueue None [2] 1 [],
    Enqueue (Some 3) [3] 2 [], Dequeue, Size]"
  have "run_legal malloc_fresh queue_step ?ops (Map.empty, out_queue_init)" by code_simp
  from client_queue_equivalent [OF this] show ?thesis by (simp only: Let_def)
qed

end
