(* ===== verification/Client_Copies.thy ===== *)
theory Client_Copies
  imports Reassembly
begin

text \<open>
  The client's own copies of the cryptographic wrappers (\<open>chamlon_client/src/vpn_crypto.c\<close>) and of the
  reassembly table (\<open>chamlon_client/src/vpn_reassembly.c\<close>), with their loops over bytes and entries
  written as loops. Each copy is proved equal to the definition the other theories use, so that
  what they show of one end holds of the other.
\<close>

section \<open>Cryptographic wrappers\<close>

text \<open>\<open>for (int i = 0; i < 8; ++i) dst[off + i] = (seq >> (56 - 8*i)) & 0xFF;\<close>\<close>

fun put_seq :: "nat \<Rightarrow> nat \<Rightarrow> u64 \<Rightarrow> bytes \<Rightarrow> bytes" where
  "put_seq 0 off seq dst = dst"
| "put_seq (Suc n) off seq dst =
     (let i = 8 - Suc n in put_seq n off seq (dst[off + i := ucast (drop_bit (56 - 8 * i) seq AND 0xFF)]))"

definition client_build_nonce :: "bytes \<Rightarrow> bytes \<Rightarrow> u64 \<Rightarrow> bytes" where
  "client_build_nonce nonce0 key seq = put_seq 8 4 seq (memcpy_at nonce0 0 (take 4 key))"

definition client_ad :: "bytes \<Rightarrow> bytes \<Rightarrow> u64 \<Rightarrow> bytes" where
  "client_ad ad0 session_id seq = put_seq 8 SESSION_ID_LEN seq (memcpy_at ad0 0 (take SESSION_ID_LEN session_id))"

text \<open>\<open>nonce0\<close> and \<open>ad0\<close> are the two buffers on the stack before they are filled.\<close>

definition client_aead_encrypt :: "aead_fn \<Rightarrow> bytes \<Rightarrow> bytes \<Rightarrow> bytes \<Rightarrow> bytes \<Rightarrow> u64 \<Rightarrow> bytes \<Rightarrow> bytes option" where
  "client_aead_encrypt enc nonce0 ad0 key session_id seq pt =
     enc key (client_build_nonce nonce0 key seq) (client_ad ad0 session_id seq) pt"

definition client_aead_decrypt :: "aead_fn \<Rightarrow> bytes \<Rightarrow> bytes \<Rightarrow> bytes \<Rightarrow> bytes \<Rightarrow> u64 \<Rightarrow> bytes \<Rightarrow> bytes option" where
  "client_aead_decrypt dec nonce0 ad0 key session_id seq ct =
     dec key (client_build_nonce nonce0 key seq) (client_ad ad0 session_id seq) ct"

text \<open>
  The streaming hash: the updates are collected, and \<open>crypto_generichash_final\<close> hashes them. \<open>tmp\<close> is
  the buffer both hashes are written to and the second one is read from.
\<close>

definition hash_updates :: "hash_fn \<Rightarrow> bytes list \<Rightarrow> bytes" where
  "hash_updates generichash chunks = generichash 64 (fold (\<lambda>chunk st. st @ chunk) chunks [])"

definition client_derive_two_keys :: "hash_fn \<Rightarrow> bytes \<Rightarrow> bytes \<Rightarrow> bytes \<times> bytes" where
  "client_derive_two_keys generichash shared context1 =
     (let tmp = hash_updates generichash [shared, [1], context1];
          out1 = take AEAD_KEY_LEN tmp;
          tmp1 = hash_updates generichash [take AEAD_KEY_LEN tmp, [2], context1];
          out2 = take AEAD_KEY_LEN tmp1
      in (out1, out2))"

lemma put_seq_be64: "length dst = off + 8 \<Longrightarrow> put_seq 8 off seq dst = take off dst @ be64 seq"
proof -
  assume len: "length dst = off + 8"
  have ff: "ucast (x AND 0xFF) = (ucast x :: byte)" for x :: u64
  proof -
    have "x AND 0xFF = take_bit 8 x" by (simp add: take_bit_eq_mask mask_eq_exp_minus_1)
    then show ?thesis by (auto intro!: bit_word_eqI simp: bit_simps)
  qed
  obtain a b where ab: "dst = a @ b" "length a = off" "length b = 8"
    using len by (metis append_take_drop_id length_take length_drop add_diff_cancel_left' min.absorb2 le_add1)
  obtain b0 b1 b2 b3 b4 b5 b6 b7 where b: "b = [b0, b1, b2, b3, b4, b5, b6, b7]"
    using ab(3) by (auto simp: numeral_eq_Suc length_Suc_conv)
  show ?thesis
    using ab(2) by (simp add: ab(1) b eval_nat_numeral Let_def list_update_append ff be64_def upt_rec)
qed

lemma client_build_nonce_same:
  assumes "length nonce0 = AEAD_NONCE_LEN" "4 \<le> length key"
  shows "client_build_nonce nonce0 key seq = build_nonce key seq"
  using assms by (simp add: client_build_nonce_def build_nonce_def put_seq_be64 AEAD_NONCE_LEN_def)

lemma client_ad_same:
  assumes "length ad0 = SESSION_ID_LEN + 8" "SESSION_ID_LEN \<le> length session_id"
  shows "client_ad ad0 session_id seq = take SESSION_ID_LEN session_id @ be64 seq"
  using assms by (simp add: client_ad_def put_seq_be64)

text \<open>Both ends encrypt and decrypt alike, and derive the same keys.\<close>

lemma client_crypto_same:
  assumes "length nonce0 = AEAD_NONCE_LEN" "length ad0 = SESSION_ID_LEN + 8" "4 \<le> length key" "SESSION_ID_LEN \<le> length sid"
  shows "client_aead_encrypt enc nonce0 ad0 key sid seq pt = aead_encrypt enc key sid seq pt"
    and "client_aead_decrypt dec nonce0 ad0 key sid seq ct = aead_decrypt dec key sid seq ct"
    and "client_derive_two_keys generichash shared context1 = derive_two_keys generichash shared context1"
  using assms
  by (simp_all add: client_aead_encrypt_def client_aead_decrypt_def client_build_nonce_same client_ad_same
      aead_encrypt_def aead_decrypt_def client_derive_two_keys_def derive_two_keys_def hash_updates_def Let_def)

section \<open>Reassembly table\<close>

text \<open>The loops over the table, from entry \<open>i\<close> on.\<close>

function scan_table :: "(reassembly_entry \<Rightarrow> bool) \<Rightarrow> nat \<Rightarrow> reassembly_entry list \<Rightarrow> nat option" where
  "scan_table P i tbl =
     (if i < MAX_REASSEMBLY_ENTRIES then if P (tbl ! i) then Some i else scan_table P (i + 1) tbl else None)"
  by pat_completeness auto
termination by (relation "measure (\<lambda>(P, i, tbl). MAX_REASSEMBLY_ENTRIES - i)") auto

declare scan_table.simps [simp del]

definition client_find_or_create_entry ::
  "time_t \<Rightarrow> u16 \<Rightarrow> reassembly_entry list \<Rightarrow> nat option \<times> reassembly_entry list" where
  "client_find_or_create_entry now ident tbl =
     (case scan_table (\<lambda>e. is_active e \<and> re_packet_id e = ident) 0 tbl of
        Some i \<Rightarrow> (Some i, tbl[i := (tbl ! i)\<lparr>re_last_activity := now\<rparr>])
      | None \<Rightarrow>
          (case scan_table (\<lambda>e. \<not> is_active e) 0 tbl of
             Some i \<Rightarrow>
               let tbl1 = tbl[i := zero_entry];
                   tbl2 = tbl1[i := (tbl1 ! i)\<lparr>is_active := True\<rparr>];
                   tbl3 = tbl2[i := (tbl2 ! i)\<lparr>re_packet_id := ident\<rparr>]
               in (Some i, tbl3[i := (tbl3 ! i)\<lparr>re_last_activity := now\<rparr>])
           | None \<Rightarrow> (None, tbl)))"

lemma scan_table_find:
  assumes "length tbl = MAX_REASSEMBLY_ENTRIES" "i \<le> MAX_REASSEMBLY_ENTRIES"
  shows "scan_table P i tbl = map_option ((+) i) (find_index P (drop i tbl))"
  using assms
proof (induction P i tbl rule: scan_table.induct)
  case (1 P i tbl)
  show ?case
  proof (cases "i < MAX_REASSEMBLY_ENTRIES")
    case True
    then have "drop i tbl = tbl ! i # drop (Suc i) tbl" using "1.prems"(1) by (simp add: Cons_nth_drop_Suc)
    then show ?thesis
      using True 1 by (subst scan_table.simps) (auto simp: option.map_comp comp_def)
  qed (use "1.prems" in \<open>subst scan_table.simps; simp\<close>)
qed

lemma client_find_or_create_same:
  assumes "length tbl = MAX_REASSEMBLY_ENTRIES"
  shows "client_find_or_create_entry now ident tbl = find_or_create_entry now ident tbl"
proof -
  have scan: "scan_table P 0 tbl = find_index P tbl" for P
    using scan_table_find [OF assms, of 0 P] by (cases "find_index P tbl") simp_all
  have "find_index P tbl = Some i \<Longrightarrow> i < length tbl" for P i by (simp add: find_index_Some_iff)
  then show ?thesis
    unfolding client_find_or_create_entry_def find_or_create_entry_def scan
    by (auto simp: Let_def split: option.split)
qed

end
