(* ===== verification/Epoll_Handler.thy ===== *)
theory Epoll_Handler
  imports Chamlon_Prelude
begin

text \<open>
  The wrapper around \<open>epoll\<close>, \<open>chamlon_server/src/epoll_handler.c\<close>, which the server is built with but
  does not call. The kernel is an argument: what \<open>malloc\<close>, \<open>epoll_create1\<close>, \<open>epoll_ctl\<close> and
  \<open>epoll_wait\<close> return. The descriptors and heap blocks the wrapper holds are counted.
\<close>

section \<open>Handler\<close>

text \<open>\<open>ev_buf\<close> is the number of events the buffer has room for, \<open>ev_list\<close> what was last stored in it.\<close>

record 'e epoll_handler =
  epfd :: int
  ev_buf :: int
  ev_list :: "'e list"
  max_events :: int
  num_events :: int

record resources =
  fds_open :: "int set"
  blocks :: int

text \<open>The outcomes of the first \<open>malloc\<close>, of \<open>epoll_create1\<close> and of the second \<open>malloc\<close>.\<close>

definition epoll_handler_create ::
  "bool \<Rightarrow> int \<Rightarrow> bool \<Rightarrow> int \<Rightarrow> resources \<Rightarrow> 'e epoll_handler option \<times> resources" where
  "epoll_handler_create mal1 fd mal2 max0 rs =
     (let mx = (if max0 \<le> 0 then 100 else max0)
      in if \<not> mal1 then (None, rs)
         else
           let rs1 = rs\<lparr>blocks := blocks rs + 1\<rparr>
           in if fd < 0 then (None, rs1\<lparr>blocks := blocks rs1 - 1\<rparr>)
              else
                let rs2 = rs1\<lparr>fds_open := insert fd (fds_open rs1)\<rparr>
                in if \<not> mal2
                   then (None, rs2\<lparr>fds_open := fds_open rs2 - {fd}, blocks := blocks rs2 - 1\<rparr>)
                   else (Some \<lparr>epfd = fd, ev_buf = mx, ev_list = [], max_events = mx, num_events = 0\<rparr>,
                         rs2\<lparr>blocks := blocks rs2 + 1\<rparr>))"

definition epoll_handler_destroy :: "'e epoll_handler option \<Rightarrow> resources \<Rightarrow> resources" where
  "epoll_handler_destroy ho rs =
     (case ho of
        None \<Rightarrow> rs
      | Some h \<Rightarrow>
          let rs1 = (if epfd h \<ge> 0 then rs\<lparr>fds_open := fds_open rs - {epfd h}\<rparr> else rs)
          in rs1\<lparr>blocks := blocks rs1 - 2\<rparr>)"

text \<open>\<open>ctl\<close> is the return code of \<open>epoll_ctl\<close>; the interest list is a map from descriptors.\<close>

definition epoll_handler_add ::
  "int \<Rightarrow> 'e epoll_handler option \<Rightarrow> int \<Rightarrow> 'e \<Rightarrow> (int \<rightharpoonup> 'e) \<Rightarrow> int \<times> (int \<rightharpoonup> 'e)" where
  "epoll_handler_add ctl ho fd ev interest =
     (if ho = None \<or> fd < 0 then (-1, interest) else if ctl < 0 then (-1, interest) else (0, interest(fd \<mapsto> ev)))"

definition epoll_handler_mod ::
  "int \<Rightarrow> 'e epoll_handler option \<Rightarrow> int \<Rightarrow> 'e \<Rightarrow> (int \<rightharpoonup> 'e) \<Rightarrow> int \<times> (int \<rightharpoonup> 'e)" where
  "epoll_handler_mod ctl ho fd ev interest =
     (if ho = None \<or> fd < 0 then (-1, interest) else if ctl < 0 then (-1, interest) else (0, interest(fd \<mapsto> ev)))"

definition epoll_handler_del ::
  "int \<Rightarrow> 'e epoll_handler option \<Rightarrow> int \<Rightarrow> (int \<rightharpoonup> 'e) \<Rightarrow> int \<times> (int \<rightharpoonup> 'e)" where
  "epoll_handler_del ctl ho fd interest =
     (if ho = None \<or> fd < 0 then (-1, interest) else if ctl < 0 then (-1, interest) else (0, interest(fd := None)))"

text \<open>
  \<open>nfds\<close> and \<open>evs\<close> are the return code and the events of \<open>epoll_wait\<close>, \<open>eintr\<close> whether \<open>errno\<close> is
  \<open>EINTR\<close>. The result is the return code, the buffer if \<open>events_out\<close> was set, and the handler.
\<close>

definition epoll_handler_wait ::
  "int \<Rightarrow> 'e list \<Rightarrow> bool \<Rightarrow> bool \<Rightarrow> 'e epoll_handler option \<Rightarrow> int \<times> 'e list option \<times> 'e epoll_handler option" where
  "epoll_handler_wait nfds evs eintr out_ok ho =
     (case ho of
        None \<Rightarrow> (-1, None, None)
      | Some h \<Rightarrow>
          if \<not> out_ok then (-1, None, ho)
          else if nfds < 0 then
            if eintr then (0, Some (ev_list h), Some (h\<lparr>num_events := 0\<rparr>))
            else (-1, None, ho)
          else (nfds, Some evs, Some (h\<lparr>ev_list := evs, num_events := nfds\<rparr>)))"

definition epoll_handler_event_count :: "'e epoll_handler option \<Rightarrow> int" where
  "epoll_handler_event_count ho = (case ho of None \<Rightarrow> 0 | Some h \<Rightarrow> num_events h)"

section \<open>What the wrapper keeps\<close>

definition handler_ok :: "'e epoll_handler \<Rightarrow> bool" where
  "handler_ok h \<longleftrightarrow> 0 \<le> epfd h \<and> 0 < max_events h \<and> max_events h = ev_buf h \<and>
     0 \<le> num_events h \<and> num_events h \<le> int (length (ev_list h)) \<and> int (length (ev_list h)) \<le> ev_buf h"

text \<open>No path of the creation leaks, and the destruction gives back all it took.\<close>

lemma epoll_handler_create_balanced:
  assumes "epoll_handler_create mal1 fd mal2 max0 rs = (ho, rs')" "fd \<notin> fds_open rs"
  shows "epoll_handler_destroy ho rs' = rs" "ho = None \<Longrightarrow> rs' = rs" "\<And>h. ho = Some h \<Longrightarrow> handler_ok h"
  using assms
  by (auto simp: epoll_handler_create_def epoll_handler_destroy_def handler_ok_def Let_def split: if_splits)

text \<open>
  A wait never reports more events than the buffer holds, given that the kernel stores as many as
  it says and not more than it was asked for.
\<close>

lemma epoll_handler_wait_ok:
  assumes "handler_ok h" "epoll_handler_wait nfds evs eintr out_ok (Some h) = (r, bufr, Some h')"
    and "0 \<le> nfds \<Longrightarrow> nfds = int (length evs) \<and> nfds \<le> max_events h"
  shows "handler_ok h'" "0 \<le> r \<Longrightarrow> epoll_handler_event_count (Some h') = r \<and> (\<exists>es. bufr = Some es \<and> r \<le> int (length es))"
    "r < 0 \<Longrightarrow> h' = h \<and> bufr = None"
  using assms by (auto simp: epoll_handler_wait_def handler_ok_def epoll_handler_event_count_def split: if_splits)

end
