(* ===== verification/Gui_Options.thy ===== *)
theory Gui_Options
  imports Client_Main
begin

text \<open>
  The part of the graphical front end \<open>chamlon.py\<close> that decides what the client is started with:
  the options page with its presets, the checks of the address, the port and the key, and the
  argument list of \<open>MainWindow._start_vpn\<close>. A text is a list of characters up to code 255. The
  last section relates the argument list to \<open>parse_arguments\<close> of the client.
\<close>

section \<open>Python strings\<close>

definition py_isspace :: "char \<Rightarrow> bool" where
  "py_isspace c \<longleftrightarrow> 9 \<le> code c \<and> code c \<le> 13 \<or> 28 \<le> code c \<and> code c \<le> 32 \<or> code c = 133 \<or> code c = 160"

definition strip :: "string \<Rightarrow> string" where
  "strip s = rev (dropWhile py_isspace (rev (dropWhile py_isspace s)))"

text \<open>\<open>str.isdigit\<close> also holds of the three superscript digits.\<close>

definition str_isdigit :: "string \<Rightarrow> bool" where
  "str_isdigit s \<longleftrightarrow> s \<noteq> [] \<and> list_all (\<lambda>c. isdigit c \<or> code c = 178 \<or> code c = 179 \<or> code c = 185) s"

text \<open>
  \<open>int(s)\<close> of a text for which \<open>str.isdigit\<close> holds; \<open>None\<close> is \<open>ValueError\<close>, raised for a
  superscript digit and for more than 4300 digits.
\<close>

definition py_int :: "string \<Rightarrow> nat option" where
  "py_int s = (if list_all isdigit s \<and> length s \<le> 4300 then Some (digits_value s) else None)"

fun split_on :: "char \<Rightarrow> string \<Rightarrow> string list" where
  "split_on x [] = [[]]"
| "split_on x (c # s) = (if c = x then [] # split_on x s else (c # hd (split_on x s)) # tl (split_on x s))"

section \<open>Checks of the input\<close>

text \<open>The group \<open>25[0-5]|2[0-4]\d|1\d\d|[1-9]?\d\<close>.\<close>

fun octet_re :: "string \<Rightarrow> bool" where
  "octet_re [d] \<longleftrightarrow> isdigit d"
| "octet_re [c, d] \<longleftrightarrow> isdigit c \<and> c \<noteq> CHR ''0'' \<and> isdigit d"
| "octet_re [c, d, e] \<longleftrightarrow>
     c = CHR ''2'' \<and> d = CHR ''5'' \<and> isdigit e \<and> code e \<le> 53
     \<or> c = CHR ''2'' \<and> isdigit d \<and> code d \<le> 52 \<and> isdigit e
     \<or> c = CHR ''1'' \<and> isdigit d \<and> isdigit e"
| "octet_re _ \<longleftrightarrow> False"

definition quad_re :: "string \<Rightarrow> bool" where
  "quad_re s \<longleftrightarrow> (let ps = split_on CHR ''.'' s in length ps = 4 \<and> list_all octet_re ps)"

text \<open>The \<open>$\<close> of the pattern also matches before a final newline.\<close>

definition valid_ip :: "string \<Rightarrow> bool" where
  "valid_ip ip \<longleftrightarrow> quad_re ip \<or> ip \<noteq> [] \<and> code (last ip) = 10 \<and> quad_re (butlast ip)"

text \<open>\<open>None\<close> when \<open>int\<close> raises.\<close>

definition valid_port :: "string \<Rightarrow> bool option" where
  "valid_port port = (if str_isdigit port then map_option (\<lambda>n. 1 \<le> n \<and> n \<le> 65535) (py_int port) else Some False)"

definition valid_key :: "string \<Rightarrow> bool" where
  "valid_key key \<longleftrightarrow> length key = 64 \<and>
     list_all (\<lambda>c. 48 \<le> code c \<and> code c \<le> 57 \<or> 97 \<le> code c \<and> code c \<le> 102 \<or> 65 \<le> code c \<and> code c \<le> 70) key"

section \<open>Options page\<close>

datatype preset = Basic | Custom | Best

text \<open>
  The checked buttons, the positions of the sliders and the texts. Of the exclusive pair
  \<open>btn_frag_off\<close> and \<open>btn_frag_mtu\<close> the second is checked when \<open>frag_mtu\<close> holds.
\<close>

record options_page =
  slider_mbps :: nat
  frag_mtu :: bool
  slider_mtu :: nat
  mtu_visible :: bool
  check_padding :: bool
  check_cbr :: bool
  rehandshake_value :: nat
  public_key_input :: string
  tun_input :: string
  checked_preset :: preset

definition init_options :: options_page where
  "init_options = \<lparr>slider_mbps = 5, frag_mtu = False, slider_mtu = 1200, mtu_visible = False,
     check_padding = False, check_cbr = False, rehandshake_value = 60, public_key_input = [],
     tun_input = ''tun0'', checked_preset = Basic\<rparr>"

definition check_custom :: "options_page \<Rightarrow> options_page" where
  "check_custom op =
     (let is_best = (frag_mtu op \<and> slider_mtu op = 1024 \<and> check_padding op \<and> check_cbr op);
          is_basic = (\<not> frag_mtu op \<and> \<not> check_padding op \<and> \<not> check_cbr op)
      in if is_best then op\<lparr>checked_preset := Best\<rparr>
         else if is_basic then op\<lparr>checked_preset := Basic\<rparr>
         else op\<lparr>checked_preset := Custom\<rparr>)"

text \<open>While it runs, the signals of the other widgets are disconnected from \<open>_check_custom\<close>.\<close>

definition apply_preset :: "bool \<Rightarrow> options_page \<Rightarrow> options_page" where
  "apply_preset best op =
     (if best
      then op\<lparr>frag_mtu := True, mtu_visible := True, slider_mtu := 1024, check_padding := True, check_cbr := True,
              checked_preset := Best\<rparr>
      else op\<lparr>frag_mtu := False, mtu_visible := False, check_padding := False, check_cbr := False,
              checked_preset := Basic\<rparr>)"

text \<open>
  A click checks the button before the handler runs; the checked button of an exclusive group
  cannot be unchecked, so \<open>setChecked(False)\<close> has no effect.
\<close>

definition on_preset_clicked :: "preset \<Rightarrow> options_page \<Rightarrow> options_page" where
  "on_preset_clicked btn op =
     (let op1 = op\<lparr>checked_preset := btn\<rparr>
      in if btn = Custom then check_custom op1 else apply_preset (btn = Best) op1)"

definition increase_rehandshake :: "options_page \<Rightarrow> options_page" where
  "increase_rehandshake op = op\<lparr>rehandshake_value := min (rehandshake_value op + 10) 9999\<rparr>"

definition decrease_rehandshake :: "options_page \<Rightarrow> options_page" where
  "decrease_rehandshake op = op\<lparr>rehandshake_value := max (rehandshake_value op - 10) 10\<rparr>"

text \<open>A slider keeps its value inside its range and signals only a change.\<close>

definition slide :: "nat \<Rightarrow> nat \<Rightarrow> int \<Rightarrow> nat" where
  "slide lo hi v = nat (min (int hi) (max (int lo) v))"

datatype options_event =
  Click_preset preset | Click_frag bool | Slide_mtu int | Click_padding | Click_cbr | Slide_mbps int
  | Click_more | Click_less | Edit_key string | Edit_tun string

fun options_step :: "options_event \<Rightarrow> options_page \<Rightarrow> options_page" where
  "options_step (Click_preset btn) op = on_preset_clicked btn op"
| "options_step (Click_frag b) op = check_custom (op\<lparr>frag_mtu := b, mtu_visible := b\<rparr>)"
| "options_step (Slide_mtu v) op =
     (let v' = slide 300 1200 v in if v' = slider_mtu op then op else check_custom (op\<lparr>slider_mtu := v'\<rparr>))"
| "options_step Click_padding op = check_custom (op\<lparr>check_padding := \<not> check_padding op\<rparr>)"
| "options_step Click_cbr op = check_custom (op\<lparr>check_cbr := \<not> check_cbr op\<rparr>)"
| "options_step (Slide_mbps v) op =
     (let v' = slide 1 15 v in if v' = slider_mbps op then op else check_custom (op\<lparr>slider_mbps := v'\<rparr>))"
| "options_step Click_more op = increase_rehandshake op"
| "options_step Click_less op = decrease_rehandshake op"
| "options_step (Edit_key s) op = op\<lparr>public_key_input := s\<rparr>"
| "options_step (Edit_tun s) op = op\<lparr>tun_input := s\<rparr>"

text \<open>The preset the settings make up.\<close>

definition settings_preset :: "options_page \<Rightarrow> preset" where
  "settings_preset op =
     (if frag_mtu op \<and> slider_mtu op = 1024 \<and> check_padding op \<and> check_cbr op then Best
      else if \<not> frag_mtu op \<and> \<not> check_padding op \<and> \<not> check_cbr op then Basic
      else Custom)"

definition options_ok :: "options_page \<Rightarrow> bool" where
  "options_ok op \<longleftrightarrow> slider_mbps op \<in> {1..15} \<and> slider_mtu op \<in> {300..1200} \<and>
     rehandshake_value op \<in> {10..9999} \<and> mtu_visible op = frag_mtu op \<and> checked_preset op = settings_preset op"

lemma slide_range: "lo \<le> hi \<Longrightarrow> slide lo hi v \<in> {lo..hi}"
  by (auto simp: slide_def)

lemma check_custom_preset: "check_custom op = op\<lparr>checked_preset := settings_preset op\<rparr>"
  by (simp add: check_custom_def settings_preset_def Let_def)

lemma options_ok_init: "options_ok init_options"
  by (simp add: options_ok_def init_options_def settings_preset_def)

text \<open>
  Every event keeps the values in their ranges and the shown preset equal to the one the settings
  make up, so that the page never shows a preset that is not in force.
\<close>

lemma options_step_ok:
  assumes "options_ok op"
  shows "options_ok (options_step ev op)"
proof (cases ev)
  case (Click_preset btn)
  then show ?thesis
    using assms
    by (cases btn) (simp_all add: options_ok_def on_preset_clicked_def apply_preset_def check_custom_preset settings_preset_def Let_def)
next
  case (Slide_mtu v)
  then show ?thesis
    using assms slide_range [of 300 1200 v] by (simp add: options_ok_def Let_def check_custom_preset settings_preset_def)
next
  case (Slide_mbps v)
  then show ?thesis
    using assms slide_range [of 1 15 v] by (simp add: options_ok_def Let_def check_custom_preset settings_preset_def)
next
  case Click_less
  have "settings_preset (op\<lparr>rehandshake_value := n\<rparr>) = settings_preset op" for n by (simp add: settings_preset_def)
  then show ?thesis using assms Click_less by (auto simp: options_ok_def decrease_rehandshake_def)
qed (use assms in \<open>simp_all add: options_ok_def check_custom_preset settings_preset_def increase_rehandshake_def\<close>)

lemma options_ok_run: "options_ok op \<Longrightarrow> options_ok (fold options_step evs op)"
  by (induction evs arbitrary: op) (simp_all add: options_step_ok)

section \<open>Starting the client\<close>

datatype gui_error = Invalid_ip | Invalid_port | Pubkey_not_set | Invalid_key

text \<open>
  The checks of \<open>_start_vpn\<close> and the arguments for \<open>sudo\<close>; \<open>Inl\<close> is what \<open>show_error\<close> shows and
  \<open>None\<close> an exception. \<open>binary\<close> is the path of the client.
\<close>

definition start_arguments :: "string \<Rightarrow> string \<Rightarrow> string \<Rightarrow> options_page \<Rightarrow> (gui_error + string list) option" where
  "start_arguments binary ip port op =
     (if \<not> valid_ip ip then Some (Inl Invalid_ip)
      else
        (case valid_port port of
           None \<Rightarrow> None
         | Some False \<Rightarrow> Some (Inl Invalid_port)
         | Some True \<Rightarrow>
             let public_key = strip (public_key_input op)
             in if public_key = [] then Some (Inl Pubkey_not_set)
                else if \<not> valid_key public_key then Some (Inl Invalid_key)
                else
                  let mbps = ''MBPS:'' @ decimal (slider_mbps op);
                      frag = (if frag_mtu op then ''FRAG:Y:'' @ decimal (slider_mtu op) else ''FRAG:N'');
                      cbr = (if check_cbr op then ''CBR:Y'' else ''CBR:N'');
                      pad = (if check_padding op then ''PAD:Y'' else ''PAD:N'');
                      rehandshake = ''REHANDSHAKE:'' @ decimal (rehandshake_value op);
                      tun_name = ''TUN:'' @ (if strip (tun_input op) = [] then ''tun_vpnC'' else strip (tun_input op))
                  in Some (Inr [''-n'', binary, ip, port, public_key, mbps, frag, cbr, pad, rehandshake, tun_name])))"

section \<open>What the checks accept\<close>

text \<open>A text without white space at its ends.\<close>

lemma strip_last: "strip s \<noteq> [] \<Longrightarrow> \<not> py_isspace (last (strip s))"
proof -
  assume "strip s \<noteq> []"
  then have "dropWhile py_isspace (rev (dropWhile py_isspace s)) \<noteq> []" by (simp add: strip_def)
  then show ?thesis using hd_dropWhile [of py_isspace] by (simp add: strip_def last_rev)
qed

lemma digit_of_code: "isdigit c \<Longrightarrow> char_of (48 + (code c - 48)) = c"
  by (simp add: isdigit_def)

lemma decimal_snoc: "0 < n \<Longrightarrow> d < 10 \<Longrightarrow> decimal (10 * n + d) = decimal n @ [char_of (48 + d)]"
  by (subst decimal.simps) (simp add: div_mult_self1)

lemma digits_value_snoc: "digits_value (s @ [c]) = 10 * digits_value s + (code c - 48)"
  by (simp add: digits_value_def)

lemma code_digits:
  "c = CHR ''0'' \<longleftrightarrow> code c = 48" "c = CHR ''1'' \<longleftrightarrow> code c = 49" "c = CHR ''2'' \<longleftrightarrow> code c = 50"
  "c = CHR ''5'' \<longleftrightarrow> code c = 53"
  using of_char_eq_iff [of c "CHR ''0''", where 'a = nat] of_char_eq_iff [of c "CHR ''1''", where 'a = nat]
    of_char_eq_iff [of c "CHR ''2''", where 'a = nat] of_char_eq_iff [of c "CHR ''5''", where 'a = nat]
  by simp_all

lemma digits_value_pos: "s \<noteq> [] \<Longrightarrow> list_all isdigit s \<Longrightarrow> hd s \<noteq> CHR ''0'' \<Longrightarrow> 0 < digits_value s"
proof (induction s rule: rev_induct)
  case (snoc c s)
  show ?case
  proof (cases "s = []")
    case True
    then show ?thesis using snoc.prems code_digits(1) [of c] by (simp add: digits_value_def isdigit_def)
  qed (use snoc in \<open>simp add: digits_value_snoc\<close>)
qed simp

text \<open>A number without a leading zero is the text of its value.\<close>

lemma decimal_value:
  "s \<noteq> [] \<Longrightarrow> list_all isdigit s \<Longrightarrow> length s = 1 \<or> hd s \<noteq> CHR ''0'' \<Longrightarrow> decimal (digits_value s) = s"
proof (induction s rule: rev_induct)
  case (snoc c s)
  have c: "code c - 48 < 10" "char_of (48 + (code c - 48)) = c" using snoc.prems(2) by (auto simp: isdigit_def)
  show ?case
  proof (cases "s = []")
    case True
    then show ?thesis using c by (subst decimal.simps) (simp add: digits_value_def)
  next
    case False
    then have "0 < digits_value s" "decimal (digits_value s) = s"
      using snoc digits_value_pos [of s] by auto
    then show ?thesis using decimal_snoc c by (simp add: digits_value_snoc)
  qed
qed simp

lemma digits_value_simps:
  "digits_value [d] = code d - 48" "digits_value [c, d] = 10 * (code c - 48) + (code d - 48)"
  "digits_value [c, d, e] = 100 * (code c - 48) + 10 * (code d - 48) + (code e - 48)"
  by (simp_all add: digits_value_def)

lemma octet_decimal:
  assumes "octet_re s"
  obtains b :: byte where "s = decimal (unat b)"
proof -
  have "s \<noteq> []" "list_all isdigit s" "length s = 1 \<or> hd s \<noteq> CHR ''0''" "digits_value s < 256"
    using assms by (cases s rule: octet_re.cases; auto simp: digits_value_simps isdigit_def)+
  then have "s = decimal (unat (of_nat (digits_value s) :: byte))" by (simp add: unat_of_nat decimal_value)
  then show ?thesis using that by blast
qed

lemma decimal_head: "10 \<le> n \<Longrightarrow> hd (decimal n) \<noteq> CHR ''0''"
proof (induction n rule: decimal.induct)
  case (1 n)
  show ?case
  proof (cases "n div 10 < 10")
    case True
    have "char_of (48 + n div 10) \<noteq> CHR ''0''" using 1(2) True by (simp add: code_digits)
    then show ?thesis using 1(2) True by (subst decimal.simps, subst decimal.simps) simp
  qed (use 1 in \<open>subst decimal.simps; simp add: decimal_digits(2)\<close>)
qed

lemma octet_three:
  assumes "isdigit c" "isdigit d" "isdigit e" "c \<noteq> CHR ''0''" "digits_value [c, d, e] < 256"
  shows "octet_re [c, d, e]"
proof -
  obtain i j k where "code c = 48 + i" "code d = 48 + j" "code e = 48 + k"
    using assms(1-3) by (auto simp: isdigit_def le_iff_add)
  then show ?thesis using assms by (auto simp: digits_value_simps isdigit_def code_digits)
qed

lemma decimal_octet:
  assumes "n < 256"
  shows "octet_re (decimal n)"
proof -
  note d = decimal_digits [of n] and hd = decimal_head [of n] and len = decimal_short [OF assms]
  have one: "n < 10 \<Longrightarrow> length (decimal n) = 1" by (subst decimal.simps) simp
  show ?thesis
  proof (cases "decimal n" rule: octet_re.cases)
    case (2 c d)
    then show ?thesis using d hd one by (cases "n < 10") auto
  next
    case (3 c d e)
    then show ?thesis using octet_three [of c d e] d hd one assms by (cases "n < 10") auto
  qed (use d len in auto)
qed

lemma split_on_app: "x \<notin> set a \<Longrightarrow> split_on x (a @ x # s) = a # split_on x s"
  by (induction a) auto

lemma split_on_end: "x \<notin> set a \<Longrightarrow> split_on x a = [a]"
  by (induction a) auto

lemma split_on_nonempty [simp]: "split_on x s \<noteq> []"
  by (cases s) auto

lemma split_on_join: "split_on x s = a # b # ps \<Longrightarrow> \<exists>s'. s = a @ x # s' \<and> split_on x s' = b # ps"
proof (induction s arbitrary: a)
  case (Cons c s)
  show ?case
  proof (cases "c = x")
    case False
    obtain a' qs where q: "split_on x s = a' # qs" by (cases "split_on x s") auto
    then have "a = c # a'" "qs = b # ps" using Cons.prems False by auto
    then show ?thesis using Cons.IH [of a'] q by auto
  qed (use Cons.prems in auto)
qed simp

lemma split_on_single: "split_on x s = [a] \<Longrightarrow> s = a"
proof (induction s arbitrary: a)
  case (Cons c s)
  then show ?case by (cases "split_on x s") (auto split: if_splits)
qed simp

lemma le32_of_le32: "le32 (of_le32 [b0, b1, b2, b3]) = [b0, b1, b2, b3]"
proof -
  have "\<not> bit b (8 + n)" "\<not> bit b (16 + n)" "\<not> bit b (24 + n)" for b :: byte and n
    using bit_imp_le_length [of b "8 + n"] bit_imp_le_length [of b "16 + n"] bit_imp_le_length [of b "24 + n"] by auto
  then show ?thesis unfolding le32_def of_le32_def by (auto intro!: bit_word_eqI simp: bit_simps)
qed

text \<open>The addresses the front end accepts are exactly the ones \<open>inet_ntoa\<close> prints.\<close>

lemma quad_re_iff: "quad_re s \<longleftrightarrow> (\<exists>a. s = inet_ntoa a)"
proof
  assume "quad_re s"
  then obtain p q r t where ps: "split_on CHR ''.'' s = [p, q, r, t]"
    and oct: "octet_re p" "octet_re q" "octet_re r" "octet_re t"
    by (auto simp: quad_re_def Let_def numeral_eq_Suc length_Suc_conv)
  obtain s1 where s1: "s = p @ CHR ''.'' # s1" "split_on CHR ''.'' s1 = [q, r, t]" using split_on_join [OF ps] by auto
  obtain s2 where s2: "s1 = q @ CHR ''.'' # s2" "split_on CHR ''.'' s2 = [r, t]" using split_on_join [OF s1(2)] by auto
  obtain s3 where s3: "s2 = r @ CHR ''.'' # s3" "split_on CHR ''.'' s3 = [t]" using split_on_join [OF s2(2)] by auto
  have s4: "s3 = t" by (rule split_on_single [OF s3(2)])
  obtain b0 b1 b2 b3 :: byte where "p = decimal (unat b0)" "q = decimal (unat b1)" "r = decimal (unat b2)" "t = decimal (unat b3)"
    using oct octet_decimal by metis
  then have "s = inet_ntoa (of_le32 [b0, b1, b2, b3])"
    using s1(1) s2(1) s3(1) s4 by (simp add: inet_ntoa_def le32_of_le32)
  then show "\<exists>a. s = inet_ntoa a" ..
next
  assume "\<exists>a. s = inet_ntoa a"
  then obtain a where s: "s = inet_ntoa a" ..
  obtain b0 b1 b2 b3 where b: "le32 a = [b0, b1, b2, b3]" by (auto simp: le32_def)
  have dot: "CHR ''.'' \<notin> set (decimal n)" for n using decimal_digits(1) [of n] by (auto simp: isdigit_def)
  have o: "octet_re (decimal (unat b))" for b :: byte
    using unsigned_less [where ?'a = nat and w = b] by (intro decimal_octet) simp
  show "quad_re s"
    using split_on_app [OF dot] split_on_end [OF dot] o by (simp add: s inet_ntoa_def b quad_re_def)
qed

lemma valid_ip_stripped:
  assumes "valid_ip (strip s)"
  obtains a where "strip s = inet_ntoa a"
proof -
  have "\<not> (strip s \<noteq> [] \<and> code (last (strip s)) = 10)" using strip_last [of s] by (auto simp: py_isspace_def)
  then show ?thesis using assms that quad_re_iff by (auto simp: valid_ip_def)
qed

lemma valid_port_value:
  assumes "valid_port p = Some True"
  shows "p \<noteq> []" "list_all isdigit p" "1 \<le> digits_value p" "digits_value p \<le> 65535"
  using assms by (auto simp: valid_port_def str_isdigit_def py_int_def split: if_splits)

text \<open>A key of 64 hexadecimal digits is read as the 32 bytes it spells.\<close>

definition lower :: "char \<Rightarrow> char" where
  "lower c = (if 65 \<le> code c \<and> code c \<le> 90 then char_of (code c + 32) else c)"

abbreviation hex_char :: "char \<Rightarrow> bool" where
  "hex_char c \<equiv> 48 \<le> code c \<and> code c \<le> 57 \<or> 97 \<le> code c \<and> code c \<le> 102 \<or> 65 \<le> code c \<and> code c \<le> 70"

lemma hex_char_value:
  assumes "hex_char c"
  obtains x where "hexval c = Some x" "x < 16" "hex_digit x = lower c" "\<not> isspace c" "c \<noteq> CHR ''+''" "c \<noteq> CHR ''-''"
proof -
  have "\<exists>x. hexval c = Some x \<and> x < 16 \<and> hex_digit x = lower c"
    using assms by (auto simp: hexval_def Let_def isdigit_def hex_digit_def lower_def)
  moreover have "\<not> isspace c" "c \<noteq> CHR ''+''" "c \<noteq> CHR ''-''" using assms by (auto simp: isspace_def)
  ultimately show ?thesis using that by blast
qed

lemma scan_2x_hex:
  assumes "hex_char c" "hex_char d"
  obtains b :: byte where "scan_2x (c # d # rest) = Some (ucast b)"
    and "[hex_digit (unat b div 16), hex_digit (unat b mod 16)] = [lower c, lower d]"
proof -
  obtain x where x: "hexval c = Some x" "x < 16" "hex_digit x = lower c" "\<not> isspace c" "c \<noteq> CHR ''+''" "c \<noteq> CHR ''-''"
    by (rule hex_char_value [OF assms(1)])
  obtain y where y: "hexval d = Some y" "y < 16" "hex_digit y = lower d" by (rule hex_char_value [OF assms(2)])
  define b :: byte where "b = of_nat (16 * x + y)"
  have u: "unat b = 16 * x + y" using x(2) y(2) by (simp only: b_def unat_of_nat) simp
  have "scan_2x (c # d # rest) = Some (of_nat (unat b))"
    using x y(1) by (simp add: scan_2x_def numeral_2_eq_2 u)
  then have "scan_2x (c # d # rest) = Some (ucast b)" by (simp add: of_nat_unat)
  moreover have "unat b div 16 = x" "unat b mod 16 = y" using u y(2) by simp_all
  ultimately show ?thesis using that x(3) y(3) by simp
qed

lemma hex2bin_loop_hex:
  "length s = 2 * n \<Longrightarrow> list_all hex_char s \<Longrightarrow> \<exists>bs. hex2bin_loop n s = Some bs \<and> hex_print bs = map lower s"
proof (induction n arbitrary: s)
  case (Suc n)
  then obtain c d r where s: "s = c # d # r" by (auto simp: length_Suc_conv)
  have hc: "hex_char c" "hex_char d" using Suc.prems(2) s by auto
  obtain b :: byte where b: "scan_2x (c # d # r) = Some (ucast b)"
    "[hex_digit (unat b div 16), hex_digit (unat b mod 16)] = [lower c, lower d]" by (rule scan_2x_hex [OF hc])
  obtain bs where bs: "hex2bin_loop n r = Some bs" "hex_print bs = map lower r" using Suc s by auto
  have "ucast (ucast b :: u32) = b" by (rule bit_word_eqI) (simp add: bit_unsigned_iff)
  then have "hex2bin_loop (Suc n) s = Some (b # bs)" by (simp add: s b(1) bs(1))
  moreover have "hex_print (b # bs) = map lower s" using b(2) bs(2) by (simp add: hex_print_def s)
  ultimately show ?case by blast
qed (simp add: hex_print_def)

lemma valid_key_read:
  assumes "valid_key k"
  obtains pk where "hex2bin k PUBKEY_LEN = Some pk" "hex_print pk = map lower k" "length pk = PUBKEY_LEN"
proof -
  have k: "length k = 2 * 32" "list_all hex_char k" using assms by (auto simp: valid_key_def)
  obtain pk where "hex2bin_loop 32 k = Some pk" "hex_print pk = map lower k" using hex2bin_loop_hex [OF k] by blast
  then show ?thesis using that hex2bin_length k(1) by (simp add: hex2bin_def PUBKEY_LEN_def)
qed

section \<open>The arguments as the client reads them\<close>

lemma takeWhile_key: "CHR '':'' \<notin> set k \<Longrightarrow> takeWhile (\<lambda>c. c \<noteq> CHR '':'') (k @ CHR '':'' # v) = k"
  by (induction k) auto

lemma scan_field_key:
  assumes "CHR '':'' \<notin> set k" "k \<noteq> []" "length k \<le> 31"
  shows "scan_field (k @ CHR '':'' # v) = Some (k, CHR '':'' # v)"
  using assms by (simp add: scan_field_def takeWhile_key)

lemma scan_field_all:
  assumes "CHR '':'' \<notin> set k" "k \<noteq> []" "length k \<le> 31"
  shows "scan_field k = Some (k, [])"
proof -
  have tw: "takeWhile (\<lambda>c. c \<noteq> CHR '':'') k = k" using assms(1) by (auto simp: takeWhile_eq_all_conv)
  show ?thesis unfolding scan_field_def tw using assms(2,3) by simp
qed

lemma scan_argument_two:
  assumes "CHR '':'' \<notin> set k" "k \<noteq> []" "length k \<le> 31" "CHR '':'' \<notin> set v" "v \<noteq> []" "length v \<le> 31"
  shows "scan_argument (k @ CHR '':'' # v) = (2, k, v, [])"
  using scan_field_key [OF assms(1-3)] scan_field_all [OF assms(4-6)] by (simp add: scan_argument_def)

lemma decimal_length: "n < 10 ^ k \<Longrightarrow> 0 < k \<Longrightarrow> length (decimal n) \<le> k"
proof (induction k arbitrary: n)
  case (Suc k)
  show ?case
  proof (cases "n < 10")
    case False
    then have "0 < k" using Suc.prems(1) by (cases k) auto
    then have "length (decimal (n div 10)) \<le> k" using Suc.prems(1) by (intro Suc.IH) (simp_all add: less_mult_imp_div_less)
    then show ?thesis using False by (subst decimal.simps) simp
  qed (subst decimal.simps, simp)
qed simp

lemma decimal_text:
  assumes "n < 10000"
  shows "CHR '':'' \<notin> set (decimal n)" "decimal n \<noteq> []" "length (decimal n) \<le> 31" "atoi big (decimal n) = int n"
    "takeWhile (\<lambda>c. \<not> isspace c) (dropWhile isspace (decimal n)) = decimal n"
proof -
  note d = decimal_digits [of n]
  show "CHR '':'' \<notin> set (decimal n)" using d(1) by (auto simp: isdigit_def)
  show "decimal n \<noteq> []" by (rule d(2))
  show "length (decimal n) \<le> 31" using decimal_length [of n 4] assms by simp
  show "atoi big (decimal n) = int n"
    using strtol_decimal [of "[]" n] assms by (simp add: atoi_def int_range_def isdigit_def)
  have "dropWhile isspace (decimal n) = decimal n"
    using d(1,2) digit_not_space(1) by (cases "decimal n") auto
  then show "takeWhile (\<lambda>c. \<not> isspace c) (dropWhile isspace (decimal n)) = decimal n"
    using d(1) digit_not_space(1) by (auto simp: takeWhile_eq_all_conv)
qed

text \<open>The arguments one by one.\<close>

lemma parse_mbps: "n \<in> {1..15} \<Longrightarrow> parse_option big (''MBPS:'' @ decimal n) av = av\<lparr>ca_MBPS := int n\<rparr>"
  using scan_argument_two [of "''MBPS''" "decimal n"] decimal_text(1-3) [of n] decimal_text(4) [of n big] by (simp add: parse_option_def)

lemma parse_rehandshake:
  "n \<in> {10..9999} \<Longrightarrow> parse_option big (''REHANDSHAKE:'' @ decimal n) av = av\<lparr>ca_REHANDSHAKE := int n\<rparr>"
  using scan_argument_two [of "''REHANDSHAKE''" "decimal n"] decimal_text(1-3) [of n] decimal_text(4) [of n big] by (simp add: parse_option_def)

lemma parse_frag:
  assumes "n \<in> {300..1200}"
  shows "parse_option big (''FRAG:Y:'' @ decimal n) av = av\<lparr>ca_FRAG := int n\<rparr>"
proof -
  have "scan_argument (''FRAG'' @ CHR '':'' # ''Y'' @ CHR '':'' # decimal n) = (3, ''FRAG'', ''Y'', decimal n)"
    using scan_field_key [of "''FRAG''"] scan_field_key [of "''Y''"] decimal_text(2,3,5) [of n] assms
    by (simp add: scan_argument_def scan_word_def Let_def)
  then show ?thesis using decimal_text(4) [of n big] assms by (simp add: parse_option_def yes_no_def)
qed

lemma parse_switches:
  "parse_option big ''FRAG:N'' av = av"
  "parse_option big (if b then ''CBR:Y'' else ''CBR:N'') av = av\<lparr>ca_CBR := if b then char_Y else char_N\<rparr>"
  "parse_option big (if b then ''PAD:Y'' else ''PAD:N'') av = av\<lparr>ca_PAD := if b then char_Y else char_N\<rparr>"
  using scan_argument_two [of "''FRAG''" "''N''"] scan_argument_two [of "''CBR''" "''Y''"] scan_argument_two [of "''CBR''" "''N''"]
    scan_argument_two [of "''PAD''" "''Y''"] scan_argument_two [of "''PAD''" "''N''"]
  by (simp_all add: parse_option_def yes_no_def)

text \<open>The name of the interface ends at a colon and at the size of the kernel's buffer.\<close>

definition interface_name :: "string \<Rightarrow> string" where
  "interface_name name = take (IFNAMSIZ - 1) (takeWhile (\<lambda>c. c \<noteq> CHR '':'') name)"

lemma parse_tun:
  assumes "interface_name name \<noteq> []"
  shows "parse_option big (''TUN:'' @ name) av = av\<lparr>ca_TUN := interface_name name\<rparr>"
proof -
  define f r where "f = take 31 (takeWhile (\<lambda>c. c \<noteq> CHR '':'') name)" and "r = drop (length f) name"
  have f: "scan_field name = Some (f, r)"
    using assms by (auto simp: scan_field_def interface_name_def Let_def f_def r_def)
  have key: "scan_field (''TUN:'' @ name) = Some (''TUN'', CHR '':'' # name)"
    using scan_field_key [of "''TUN''" name] by simp
  have "\<exists>count v2. scan_argument (''TUN:'' @ name) = (count, ''TUN'', f, v2) \<and> 2 \<le> count"
    unfolding scan_argument_def key by (auto simp: f split: list.split option.split)
  then obtain count v2 where "scan_argument (''TUN:'' @ name) = (count, ''TUN'', f, v2)" "2 \<le> count" by blast
  then show ?thesis by (simp add: parse_option_def interface_name_def IFNAMSIZ_def f_def)
qed

lemma parse_tun_none:
  assumes "interface_name name = []"
  shows "parse_option big (''TUN:'' @ name) av = av"
proof -
  have "takeWhile (\<lambda>c. c \<noteq> CHR '':'') name = []" using assms by (simp add: interface_name_def IFNAMSIZ_def)
  then have f: "scan_field name = None" unfolding scan_field_def by simp
  have key: "scan_field (''TUN:'' @ name) = Some (''TUN'', CHR '':'' # name)"
    using scan_field_key [of "''TUN''" name] by simp
  show ?thesis by (simp add: parse_option_def scan_argument_def key f del: append.simps)
qed

definition chosen_tun :: "options_page \<Rightarrow> string" where
  "chosen_tun op =
     (let name = interface_name (if strip (tun_input op) = [] then ''tun_vpnC'' else strip (tun_input op))
      in if name = [] then ca_TUN default_argv else name)"

definition chosen_argv :: "options_page \<Rightarrow> client_argv" where
  "chosen_argv op =
     \<lparr>ca_MBPS = int (slider_mbps op), ca_FRAG = (if frag_mtu op then int (slider_mtu op) else 1024),
      ca_CBR = (if check_cbr op then char_Y else char_N), ca_PAD = (if check_padding op then char_Y else char_N),
      ca_REHANDSHAKE = int (rehandshake_value op), ca_TUN = chosen_tun op\<rparr>"

lemma port_value:
  assumes "list_all isdigit p" "p \<noteq> []" "digits_value p \<le> 65535"
  shows "atoi big p = int (digits_value p)"
proof -
  obtain c q where p: "p = c # q" "isdigit c" using assms by (cases p) auto
  have tw: "takeWhile isdigit q = q" using assms(1) p(1) by (auto simp: list_all_iff takeWhile_eq_all_conv)
  have "dropWhile isspace p = p" using p digit_not_space(1) by simp
  then have "fst (strtol10 p) = int (digits_value p)"
    using p digit_not_space(2) [OF p(2)] by (simp add: strtol10_def tw)
  then show ?thesis using assms(3) by (simp add: atoi_def int_range_def)
qed

lemma options_read:
  assumes "options_ok op"
  shows "fold (parse_option big)
      [''MBPS:'' @ decimal (slider_mbps op), if frag_mtu op then ''FRAG:Y:'' @ decimal (slider_mtu op) else ''FRAG:N'',
       if check_cbr op then ''CBR:Y'' else ''CBR:N'', if check_padding op then ''PAD:Y'' else ''PAD:N'',
       ''REHANDSHAKE:'' @ decimal (rehandshake_value op),
       ''TUN:'' @ (if strip (tun_input op) = [] then ''tun_vpnC'' else strip (tun_input op))] default_argv = chosen_argv op"
proof -
  let ?name = "if strip (tun_input op) = [] then ''tun_vpnC'' else strip (tun_input op)"
  have r: "slider_mbps op \<in> {1..15}" "slider_mtu op \<in> {300..1200}" "rehandshake_value op \<in> {10..9999}"
    using assms by (simp_all add: options_ok_def)
  have frag: "parse_option big (if frag_mtu op then ''FRAG:Y:'' @ decimal (slider_mtu op) else ''FRAG:N'') av =
      av\<lparr>ca_FRAG := if frag_mtu op then int (slider_mtu op) else ca_FRAG av\<rparr>" for av
    using parse_frag [OF r(2)] parse_switches(1) by (cases "frag_mtu op") (simp_all del: append.simps)
  have tun: "parse_option big (''TUN:'' @ ?name) av =
      av\<lparr>ca_TUN := if interface_name ?name = [] then ca_TUN av else interface_name ?name\<rparr>" for av
    using parse_tun [of ?name] parse_tun_none [of ?name] by (cases "interface_name ?name = []") simp_all
  show ?thesis
    unfolding fold.simps comp_def id_apply parse_mbps [OF r(1)] frag parse_switches parse_rehandshake [OF r(3)] tun
    by (simp add: chosen_argv_def chosen_tun_def default_argv_def Let_def)
qed


text \<open>A reader of dotted addresses, and the arguments of a page with the preset \<open>Best\<close>.\<close>

definition dotted_quad :: "string \<Rightarrow> u32 option" where
  "dotted_quad s =
     (case map digits_value (split_on CHR ''.'' s) of
        [a, b, c, d] \<Rightarrow> Some (of_le32 [of_nat a, of_nat b, of_nat c, of_nat d])
      | _ \<Rightarrow> None)"

lemma dotted_quad_ntoa: "dotted_quad (inet_ntoa a) = Some a"
proof -
  obtain b0 b1 b2 b3 where b: "le32 a = [b0, b1, b2, b3]" by (auto simp: le32_def)
  have dot: "CHR ''.'' \<notin> set (decimal n)" for n using decimal_digits(1) [of n] by (auto simp: isdigit_def)
  have "of_le32 (le32 a @ []) = a" by (rule le32_roundtrip)
  then show ?thesis
    using split_on_app [OF dot] split_on_end [OF dot] by (simp add: dotted_quad_def inet_ntoa_def b decimal_digits(3))
qed


end
