(* ===== verification/Gui_Session.thy ===== *)
theory Gui_Session
  imports Gui_Options
begin

text \<open>
  The connection of the graphical front end \<open>chamlon.py\<close>: the state of the connection page, the
  start and the stop of the client process, and \<open>MainWindow._on_vpn_output\<close>, which follows what the
  client prints and feeds the graphs. A number is kept as the text \<open>float\<close> was called on. What the
  system answers (whether a signal could be sent, whether a process ended in time) are arguments,
  and the signals and process operations are recorded in the order they are issued.
\<close>

section \<open>Connection page\<close>

datatype button_state = Idle | Connecting | Connected

datatype gui_action =
  Start_process "string list" | Process_kill | Process_terminate | Os_kill nat bool | Sudo_kill nat bool

text \<open>
  \<open>gp_running\<close> is the state of the \<open>QProcess\<close> and \<open>gp_watched\<close> tells whether its output is connected
  to \<open>_on_vpn_output\<close>. \<open>error_timers\<close> counts the one-shot timers of \<open>show_error\<close> that are still to
  fire. The graphs hold their last 100 values.
\<close>

record gui_process =
  gp_running :: bool
  gp_watched :: bool

record graphs =
  data_y :: "string list"
  data_packets :: "string list"
  data_keepalives :: "string list"
  data_real :: "string list"
  data_dummy :: "string list"

record window =
  pg_connected :: bool
  pg_connecting :: bool
  pg_button :: button_state
  error_timers :: nat
  proc :: "gui_process option"
  graph_data :: graphs
  actions :: "gui_action list"

definition init_window :: window where
  "init_window = \<lparr>pg_connected = False, pg_connecting = False, pg_button = Idle, error_timers = 0, proc = None,
     graph_data = \<lparr>data_y = replicate 100 ''0'', data_packets = replicate 100 ''0'', data_keepalives = replicate 100 ''0'',
       data_real = replicate 100 ''0'', data_dummy = replicate 100 ''0''\<rparr>, actions = []\<rparr>"

abbreviation act :: "gui_action list \<Rightarrow> window \<Rightarrow> window" where
  "act as w \<equiv> w\<lparr>actions := actions w @ as\<rparr>"

definition start_connecting :: "window \<Rightarrow> window" where
  "start_connecting w = w\<lparr>pg_connecting := True, pg_button := Connecting\<rparr>"

definition set_connected :: "bool \<Rightarrow> window \<Rightarrow> window" where
  "set_connected b w = w\<lparr>pg_connecting := False, pg_connected := b, pg_button := (if b then Connected else Idle)\<rparr>"

definition show_error :: "window \<Rightarrow> window" where
  "show_error w = w\<lparr>pg_connecting := False, pg_button := Idle, error_timers := error_timers w + 1\<rparr>"

text \<open>The timer of \<open>show_error\<close>, two seconds later.\<close>

definition error_timeout :: "window \<Rightarrow> window" where
  "error_timeout w = (if error_timers w = 0 then w else set_connected False (w\<lparr>error_timers := error_timers w - 1\<rparr>))"

definition start_vpn :: "string \<Rightarrow> string \<Rightarrow> string \<Rightarrow> options_page \<Rightarrow> window \<Rightarrow> window option" where
  "start_vpn binary ip port op w =
     (case start_arguments binary ip port op of
        None \<Rightarrow> None
      | Some (Inl e) \<Rightarrow> Some (show_error w)
      | Some (Inr args) \<Rightarrow>
          let w1 = start_connecting w;
              w2 = (case proc w1 of None \<Rightarrow> w1 | Some p \<Rightarrow> act [Process_kill] (w1\<lparr>proc := None\<rparr>))
          in Some (act [Start_process args] (w2\<lparr>proc := Some \<lparr>gp_running = True, gp_watched = True\<rparr>\<rparr>)))"

section \<open>Processes\<close>

text \<open>
  \<open>_get_child_pids\<close> over the process table, the list of the identifiers under \<open>/proc\<close> with the parent
  read from the status file, if it could be read. \<open>depth\<close> is the number of calls before Python's
  recursion limit; the \<open>RecursionError\<close> of the call after that is caught and gives no processes.
\<close>

fun get_child_pids :: "nat \<Rightarrow> (nat \<times> nat option) list \<Rightarrow> nat \<Rightarrow> nat list" where
  "get_child_pids 0 tbl parent_pid = []"
| "get_child_pids (Suc depth) tbl parent_pid =
     concat (map (\<lambda>(pid, ppid). if ppid = Some parent_pid then pid # get_child_pids depth tbl pid else []) tbl)"

datatype kill_result = Signalled | Permission_error | Lookup_error

text \<open>One round of signals, \<open>SIGTERM\<close> or with \<open>hard\<close> \<open>SIGKILL\<close>.\<close>

definition signal_pids :: "bool \<Rightarrow> (nat \<Rightarrow> kill_result) \<Rightarrow> nat list \<Rightarrow> gui_action list" where
  "signal_pids hard kill pids =
     concat (map (\<lambda>pid. Os_kill pid hard # (if kill pid = Permission_error then [Sudo_kill pid hard] else [])) pids)"

record stop_env =
  st_pid :: nat
  st_depth :: nat
  st_table :: "(nat \<times> nat option) list"
  st_term :: "nat \<Rightarrow> kill_result"
  st_kill :: "nat \<Rightarrow> kill_result"
  st_finished :: bool
  st_finished_late :: bool

definition stop_vpn :: "stop_env \<Rightarrow> window \<Rightarrow> window" where
  "stop_vpn en w =
     (case proc w of
        None \<Rightarrow> set_connected False w
      | Some p \<Rightarrow>
          if \<not> gp_running p then set_connected False w
          else
            let child_pids = get_child_pids (st_depth en) (st_table en) (st_pid en);
                w1 = act (signal_pids False (st_term en) child_pids) (w\<lparr>proc := Some (p\<lparr>gp_watched := False\<rparr>)\<rparr>);
                w2 = (if st_finished en then w1
                      else let w3 = act (signal_pids True (st_kill en) child_pids) w1
                           in if st_finished_late en then w3 else act [Process_kill] w3);
                still = (\<not> st_finished en \<and> \<not> st_finished_late en)
            in set_connected False (w2\<lparr>proc := Some \<lparr>gp_running = still, gp_watched = False\<rparr>\<rparr>))"

definition close_event :: "stop_env \<Rightarrow> window \<Rightarrow> window" where
  "close_event en w =
     (case proc w of
        None \<Rightarrow> w
      | Some p \<Rightarrow>
          if \<not> gp_running p then w
          else
            let child_pids = get_child_pids (st_depth en) (st_table en) (st_pid en);
                w1 = act (map (\<lambda>pid. Os_kill pid False) child_pids) w
            in if st_finished en then w1 else act [Process_kill] w1)"

definition on_connect_toggle ::
  "string \<Rightarrow> stop_env \<Rightarrow> string \<Rightarrow> string \<Rightarrow> options_page \<Rightarrow> window \<Rightarrow> window option" where
  "on_connect_toggle binary en ip_text port_text op w =
     (if pg_connecting w then Some w
      else if \<not> pg_connected w then start_vpn binary (strip ip_text) (strip port_text) op w
      else Some (stop_vpn en w))"

text \<open>Every descendant within the depth gets the signal, and no other process.\<close>

definition child_rel :: "(nat \<times> nat option) list \<Rightarrow> (nat \<times> nat) set" where
  "child_rel tbl = {(p, q). (q, Some p) \<in> set tbl}"

lemma get_child_pids_set:
  "set (get_child_pids n tbl p) = {q. \<exists>k. 0 < k \<and> k \<le> n \<and> (p, q) \<in> child_rel tbl ^^ k}"
proof (induction n arbitrary: p)
  case (Suc n)
  have step: "q \<in> set (get_child_pids (Suc n) tbl p) \<longleftrightarrow>
      (\<exists>c. (p, c) \<in> child_rel tbl \<and> (q = c \<or> q \<in> set (get_child_pids n tbl c)))" for q
    by (force simp: child_rel_def)
  have main: "(\<exists>c. (p, c) \<in> child_rel tbl \<and> (q = c \<or> (\<exists>k. 0 < k \<and> k \<le> n \<and> (c, q) \<in> child_rel tbl ^^ k))) \<longleftrightarrow>
      (\<exists>k. 0 < k \<and> k \<le> Suc n \<and> (p, q) \<in> child_rel tbl ^^ k)" (is "?l \<longleftrightarrow> ?r") for q
  proof
    assume ?l
    then obtain c j where "(p, c) \<in> child_rel tbl" "j \<le> n" "(c, q) \<in> child_rel tbl ^^ j"
      by (metis le0 less_imp_le relpow_0_I)
    then show ?r using relpow_Suc_I2 [of p c _ q j] by (intro exI [of _ "Suc j"]) blast
  next
    assume ?r
    then obtain j where "j \<le> n" "(p, q) \<in> child_rel tbl ^^ Suc j" by (metis Suc_le_mono gr0_conv_Suc)
    then obtain c where "(p, c) \<in> child_rel tbl" "(c, q) \<in> child_rel tbl ^^ j" by (metis relpow_Suc_D2)
    then show ?l using \<open>j \<le> n\<close> by (cases "j = 0") auto
  qed
  show ?case by (rule set_eqI) (simp only: step Suc.IH mem_Collect_eq main)
qed auto

section \<open>Output of the client\<close>

definition isalpha :: "char \<Rightarrow> bool" where
  "isalpha c \<longleftrightarrow> 65 \<le> code c \<and> code c \<le> 90 \<or> 97 \<le> code c \<and> code c \<le> 122"

definition upper :: "char \<Rightarrow> char" where
  "upper c = (if 97 \<le> code c \<and> code c \<le> 122 then char_of (code c - 32) else c)"

text \<open>The boundaries of \<open>str.splitlines\<close>; a carriage return and a newline together are one.\<close>

definition line_break :: "char \<Rightarrow> bool" where
  "line_break c \<longleftrightarrow> 10 \<le> code c \<and> code c \<le> 13 \<or> 28 \<le> code c \<and> code c \<le> 30 \<or> code c = 133"

function splitlines :: "string \<Rightarrow> string list" where
  "splitlines s =
     (if s = [] then []
      else
        let l = takeWhile (\<lambda>c. \<not> line_break c) s; r = dropWhile (\<lambda>c. \<not> line_break c) s
        in l # (case r of
                  [] \<Rightarrow> []
                | [c] \<Rightarrow> []
                | c # d # r' \<Rightarrow> splitlines (if code c = 13 \<and> code d = 10 then r' else d # r')))"
  by pat_completeness auto
termination
proof (relation "measure length")
  fix s l r c z d r'
  assume r: "(r :: string) = dropWhile (\<lambda>c. \<not> line_break c) s" "r = c # z" "z = d # r'"
  have "length r \<le> length s" unfolding r(1) by (rule length_dropWhile_le)
  then show "((if code c = 13 \<and> code d = 10 then r' else d # r'), s) \<in> measure length" using r(2,3) by auto
qed simp

text \<open>
  \<open>re.findall(r"[A-Za-z]+|[-+]?\d*\.\d+|\d+", line)\<close>: the alternatives at the first character, with
  the text that follows the match; \<open>None\<close> when none matches.
\<close>

definition match_decimal :: "string \<Rightarrow> (string \<times> string) option" where
  "match_decimal s =
     (let sg = (case s of [] \<Rightarrow> [] | c # _ \<Rightarrow> if c = CHR ''-'' \<or> c = CHR ''+'' then [c] else []);
          u = drop (length sg) s;
          ds = takeWhile isdigit u; v = dropWhile isdigit u
      in case v of
           [] \<Rightarrow> None
         | c # w \<Rightarrow>
             let es = takeWhile isdigit w
             in if c = CHR ''.'' \<and> es \<noteq> [] then Some (sg @ ds @ c # es, dropWhile isdigit w) else None)"

definition match_token :: "string \<Rightarrow> (string \<times> string) option" where
  "match_token s =
     (if takeWhile isalpha s \<noteq> [] then Some (takeWhile isalpha s, dropWhile isalpha s)
      else
        (case match_decimal s of
           Some r \<Rightarrow> Some r
         | None \<Rightarrow> if takeWhile isdigit s \<noteq> [] then Some (takeWhile isdigit s, dropWhile isdigit s) else None))"

lemma match_decimal_split: "match_decimal s = Some (t, r) \<Longrightarrow> s = t @ r \<and> t \<noteq> []"
proof -
  assume m: "match_decimal s = Some (t, r)"
  define sg u where "sg = (case s of [] \<Rightarrow> [] | c # _ \<Rightarrow> if c = CHR ''-'' \<or> c = CHR ''+'' then [c] else [])"
    and "u = drop (length sg) s"
  have s: "s = sg @ u" by (cases s) (auto simp: sg_def u_def)
  obtain w where w: "dropWhile isdigit u = CHR ''.'' # w" "t = sg @ takeWhile isdigit u @ CHR ''.'' # takeWhile isdigit w"
    "r = dropWhile isdigit w"
    using m unfolding match_decimal_def Let_def sg_def [symmetric] u_def [symmetric]
    by (auto split: list.splits if_splits)
  have "u = takeWhile isdigit u @ CHR ''.'' # takeWhile isdigit w @ dropWhile isdigit w"
    using takeWhile_dropWhile_id [of isdigit u] w(1) by simp
  then show ?thesis using s w(2,3) by simp
qed

lemma match_token_shorter: "match_token s = Some (t, r) \<Longrightarrow> length r < length s"
proof -
  assume m: "match_token s = Some (t, r)"
  have tw: "takeWhile P s \<noteq> [] \<Longrightarrow> length (dropWhile P s) < length s" for P
    by (cases s) (auto simp: le_imp_less_Suc length_dropWhile_le split: if_splits)
  show ?thesis
  proof (cases "match_decimal s")
    case (Some q)
    then show ?thesis
      using m tw [of isalpha] match_decimal_split [of s "fst q" "snd q"] by (auto simp: match_token_def split: if_splits)
  qed (use m tw in \<open>auto simp: match_token_def split: if_splits\<close>)
qed

function findall_tokens :: "string \<Rightarrow> string list" where
  "findall_tokens s =
     (case match_token s of
        Some (t, r) \<Rightarrow> t # findall_tokens r
      | None \<Rightarrow> (case s of [] \<Rightarrow> [] | c # r \<Rightarrow> findall_tokens r))"
  by pat_completeness auto
termination
  by (relation "measure length") (auto dest: match_token_shorter)

declare splitlines.simps [simp del] findall_tokens.simps [simp del]

text \<open>
  Whether \<open>float\<close> accepts a token: numbers, and the words for the values that are not numbers.
\<close>

definition py_float_ok :: "string \<Rightarrow> bool" where
  "py_float_ok v \<longleftrightarrow> v \<noteq> [] \<and>
     (\<not> isalpha (hd v) \<or> map lower v = ''inf'' \<or> map lower v = ''infinity'' \<or> map lower v = ''nan'')"

fun contains :: "string \<Rightarrow> string \<Rightarrow> bool" where
  "contains pat [] \<longleftrightarrow> pat = []"
| "contains pat (c # s) \<longleftrightarrow> take (length pat) (c # s) = pat \<or> contains pat s"

text \<open>The local variables of \<open>_on_vpn_output\<close>.\<close>

record out_vals =
  vy :: string
  vpkt :: string
  vrl :: string
  vdm :: string
  vka :: string
  found :: bool
  total_count :: "string option"

definition feed_pair :: "string \<Rightarrow> string \<Rightarrow> out_vals \<Rightarrow> out_vals" where
  "feed_pair label0 val o1 =
     (if \<not> py_float_ok val then o1
      else
        let label = map upper label0; o2 = o1\<lparr>found := True\<rparr>
        in if label = ''MBPS'' then o2\<lparr>vy := val\<rparr>
           else if label = ''KEEPALIVE'' \<or> label = ''KEEPALIVES'' then o2\<lparr>vka := val\<rparr>
           else if label = ''REAL'' then o2\<lparr>vrl := val\<rparr>
           else if label = ''DUMMY'' then o2\<lparr>vdm := val\<rparr>
           else if label = ''TOTAL'' then o2\<lparr>total_count := Some val\<rparr>
           else o2)"

fun feed_tokens :: "string list \<Rightarrow> out_vals \<Rightarrow> out_vals" where
  "feed_tokens (label # val # ts) o1 = feed_tokens ts (feed_pair label val o1)"
| "feed_tokens _ o1 = o1"

text \<open>The loop over the lines; \<open>Inl\<close> is the return at \<open>TIMEOUT\<close>.\<close>

fun output_lines :: "string list \<Rightarrow> out_vals \<Rightarrow> window \<Rightarrow> window + (out_vals \<times> window)" where
  "output_lines [] o1 w = Inr (o1, w)"
| "output_lines (raw # ls) o1 w =
     (let line = strip raw
      in if line = [] then output_lines ls o1 w
         else if line = ''TIMEOUT'' then
           Inl (act [Process_terminate]
                  ((set_connected False w)\<lparr>proc := map_option (\<lambda>p. p\<lparr>gp_watched := False\<rparr>) (proc w)\<rparr>))
         else if line = ''CONNECTED'' then output_lines ls o1 (set_connected True w)
         else if line = ''DISCONNECTED'' then output_lines ls o1 (set_connected False w)
         else if line = ''ERROR'' then output_lines ls o1 (set_connected False w)
         else if contains ''received keepalive from server'' (map lower line)
         then output_lines ls (o1\<lparr>vka := ''1'', found := True\<rparr>) w
         else output_lines ls (feed_tokens (findall_tokens line) o1) w)"

definition push_data :: "out_vals \<Rightarrow> graphs \<Rightarrow> graphs" where
  "push_data o1 g =
     (let push = (\<lambda>buf v. tl (buf @ [v]))
      in \<lparr>data_y = push (data_y g) (vy o1), data_packets = push (data_packets g) (vpkt o1),
          data_keepalives = push (data_keepalives g) (vka o1), data_real = push (data_real g) (vrl o1),
          data_dummy = push (data_dummy g) (vdm o1)\<rparr>)"

definition start_vals :: "graphs \<Rightarrow> out_vals" where
  "start_vals g = \<lparr>vy = last (data_y g), vpkt = last (data_packets g), vrl = last (data_real g), vdm = last (data_dummy g),
     vka = ''0'', found = False, total_count = None\<rparr>"

definition on_vpn_output :: "string \<Rightarrow> window \<Rightarrow> window" where
  "on_vpn_output text w =
     (case output_lines (splitlines text) (start_vals (graph_data w)) w of
        Inl w1 \<Rightarrow> w1
      | Inr (o1, w1) \<Rightarrow>
          let o2 = (case total_count o1 of None \<Rightarrow> o1 | Some n \<Rightarrow> o1\<lparr>vpkt := n\<rparr>)
          in if found o2 then w1\<lparr>graph_data := push_data o2 (graph_data w1)\<rparr> else w1)"

section \<open>Events of the window\<close>

text \<open>
  Output is only handled while it is connected to the handler; a process may end by itself.
\<close>

datatype window_event =
  Toggle stop_env string string options_page | Timer | Output string | Process_ends

fun window_step :: "string \<Rightarrow> window_event \<Rightarrow> window \<Rightarrow> window option" where
  "window_step binary (Toggle en ip port op) w = on_connect_toggle binary en ip port op w"
| "window_step binary Timer w = Some (error_timeout w)"
| "window_step binary (Output text) w =
     (case proc w of
        None \<Rightarrow> Some w
      | Some p \<Rightarrow> if gp_watched p then Some (on_vpn_output text w) else Some w)"
| "window_step binary Process_ends w = Some (w\<lparr>proc := map_option (\<lambda>p. p\<lparr>gp_running := False\<rparr>) (proc w)\<rparr>)"

text \<open>The button shows the state of the page, and the graphs keep their length.\<close>

definition graphs_ok :: "graphs \<Rightarrow> bool" where
  "graphs_ok g \<longleftrightarrow> length (data_y g) = 100 \<and> length (data_packets g) = 100 \<and> length (data_keepalives g) = 100 \<and>
     length (data_real g) = 100 \<and> length (data_dummy g) = 100"

definition gui_ok :: "window \<Rightarrow> bool" where
  "gui_ok w \<longleftrightarrow> graphs_ok (graph_data w) \<and> \<not> (pg_connected w \<and> pg_connecting w) \<and>
     pg_button w = (if pg_connecting w then Connecting else if pg_connected w then Connected else Idle)"

lemma push_data_ok: "graphs_ok g \<Longrightarrow> graphs_ok (push_data o1 g)"
  by (simp add: graphs_ok_def push_data_def Let_def)

lemma set_connected_ok: "graphs_ok (graph_data w) \<Longrightarrow> gui_ok (set_connected b w)"
  by (simp add: gui_ok_def set_connected_def)

lemma set_connected_graphs [simp]: "graph_data (set_connected b w) = graph_data w"
  by (simp add: set_connected_def)

lemma gui_ok_other [simp]: "gui_ok (w\<lparr>proc := p\<rparr>) = gui_ok w" "gui_ok (w\<lparr>actions := as\<rparr>) = gui_ok w"
  by (simp_all add: gui_ok_def)

lemma output_lines_ok:
  assumes "gui_ok w"
  shows "case output_lines ls o1 w of Inl w1 \<Rightarrow> gui_ok w1 | Inr (o2, w1) \<Rightarrow> gui_ok w1"
  using assms
proof (induction ls arbitrary: o1 w)
  case (Cons raw ls)
  have sc: "gui_ok (set_connected b w)" for b using Cons.prems by (intro set_connected_ok) (simp add: gui_ok_def)
  note IH = Cons.IH [OF Cons.prems] Cons.IH [OF sc]
  show ?case unfolding output_lines.simps Let_def using IH sc [of False] by simp
qed simp

lemma on_vpn_output_ok: "gui_ok w \<Longrightarrow> gui_ok (on_vpn_output text w)"
proof -
  assume "gui_ok w"
  note ok = output_lines_ok [OF this, of "splitlines text" "start_vals (graph_data w)"]
  have push: "gui_ok (w1\<lparr>graph_data := push_data o1 (graph_data w1)\<rparr>)" if "gui_ok w1" for w1 o1
    using that by (simp add: gui_ok_def push_data_ok)
  show ?thesis using ok push by (auto simp: on_vpn_output_def Let_def split: sum.splits option.splits)
qed

lemma window_step_ok:
  assumes ok: "gui_ok w" and step: "window_step binary ev w = Some w'"
  shows "gui_ok w'"
proof (cases ev)
  case (Toggle en ip port op)
  have g: "graphs_ok (graph_data w)" using ok by (simp add: gui_ok_def)
  have "gui_ok (stop_vpn en w)"
    by (auto simp: stop_vpn_def Let_def g intro!: set_connected_ok split: option.split)
  moreover have "gui_ok w1" if "start_vpn binary i p op w = Some w1" "\<not> pg_connecting w" "\<not> pg_connected w" for i p w1
    using that ok by (auto simp: start_vpn_def gui_ok_def start_connecting_def show_error_def Let_def split: option.splits sum.splits)
  ultimately show ?thesis using ok step by (auto simp: Toggle on_connect_toggle_def split: if_splits)
next
  case Timer
  then show ?thesis using ok step by (auto simp: error_timeout_def gui_ok_def set_connected_def split: if_splits)
next
  case (Output out)
  then show ?thesis using ok step on_vpn_output_ok by (auto split: option.splits if_splits)
qed (use assms in auto)

section \<open>The statistics line\<close>

text \<open>
  The line the sender thread of the client prints once a second. \<open>m\<close> is the text of the rate in the
  format \<open>%.2f\<close>: digits, a point and two digits.
\<close>

definition stats_line :: "string \<Rightarrow> nat \<Rightarrow> nat \<Rightarrow> string" where
  "stats_line m rl dm =
     ''MBPS '' @ m @ ''  REAL '' @ decimal rl @ ''  DUMMY '' @ decimal dm @ ''  TOTAL '' @ decimal (rl + dm)"

definition rate_text :: "string \<Rightarrow> bool" where
  "rate_text m \<longleftrightarrow> (\<exists>n x y. m = decimal n @ [CHR ''.'', x, y] \<and> isdigit x \<and> isdigit y)"

lemma alpha_digit: "isalpha c \<Longrightarrow> \<not> isdigit c" "isdigit c \<Longrightarrow> \<not> isalpha c"
  by (auto simp: isalpha_def isdigit_def)

lemma span_app:
  assumes "\<forall>c\<in>set a. P c" "\<not> P c"
  shows "takeWhile P (a @ c # r) = a" "dropWhile P (a @ c # r) = c # r" "takeWhile P a = a" "dropWhile P a = []"
  using assms by (auto simp: takeWhile_append2 dropWhile_append2 takeWhile_eq_all_conv)

lemma findall_space: "findall_tokens (CHR '' '' # s) = findall_tokens s"
  by (subst findall_tokens.simps) (simp add: match_token_def match_decimal_def isalpha_def isdigit_def)

lemma findall_word:
  assumes "\<forall>c\<in>set a. isalpha c" "a \<noteq> []"
  shows "findall_tokens (a @ CHR '' '' # r) = a # findall_tokens r"
proof -
  have sp: "\<not> isalpha CHR '' ''" by (simp add: isalpha_def)
  have "match_token (a @ CHR '' '' # r) = Some (a, CHR '' '' # r)"
    using span_app(1,2) [OF assms(1) sp] assms(2) by (simp add: match_token_def)
  then show ?thesis by (subst findall_tokens.simps) (simp add: findall_space)
qed

lemma decimal_hd: "isdigit (hd (decimal n @ r))" "decimal n @ r \<noteq> []"
  using decimal_digits [of n] by (cases "decimal n"; auto)+

lemma no_sign: "isdigit (hd s) \<Longrightarrow> s \<noteq> [] \<Longrightarrow> (case s of [] \<Rightarrow> [] | c # _ \<Rightarrow> if c = CHR ''-'' \<or> c = CHR ''+'' then [c] else []) = []"
  by (cases s) (auto simp: isdigit_def)

lemma no_word: "isdigit (hd s) \<Longrightarrow> takeWhile isalpha s = []"
  by (cases s) (auto simp: alpha_digit)

lemma findall_number: "findall_tokens (decimal n @ CHR '' '' # r) = decimal n # findall_tokens r"
  "findall_tokens (decimal n) = [decimal n]"
proof -
  have sp: "\<not> isdigit CHR '' ''" by (simp add: isdigit_def)
  note d = decimal_digits(1,2) [of n] and s = span_app [OF decimal_digits(1) sp, of n]
  have 1: "match_token (decimal n @ CHR '' '' # r) = Some (decimal n, CHR '' '' # r)" for r
    using no_word [OF decimal_hd(1)] no_sign [OF decimal_hd] s d(2) by (simp add: match_token_def match_decimal_def)
  have 2: "match_token (decimal n) = Some (decimal n, [])"
    using no_word [OF decimal_hd(1) [of n "[]"]] no_sign [OF decimal_hd [of n "[]"]] d(2)
    by (simp add: match_token_def match_decimal_def s(3,4))
  show "findall_tokens (decimal n @ CHR '' '' # r) = decimal n # findall_tokens r"
    using 1 by (subst findall_tokens.simps) (simp add: findall_space)
  have "findall_tokens [] = []" by (subst findall_tokens.simps) (simp add: match_token_def match_decimal_def)
  then show "findall_tokens (decimal n) = [decimal n]" using 2 by (subst findall_tokens.simps) simp
qed

lemma findall_rate:
  assumes "rate_text m"
  shows "findall_tokens (m @ CHR '' '' # r) = m # findall_tokens r"
proof -
  obtain n x y where m: "m = decimal n @ [CHR ''.'', x, y]" and xy: "isdigit x" "isdigit y"
    using assms by (auto simp: rate_text_def)
  have sp: "\<not> isdigit CHR '' ''" "\<not> isdigit CHR ''.''" by (simp_all add: isdigit_def)
  have "match_token (m @ CHR '' '' # r) = Some (m, CHR '' '' # r)"
    using no_word [OF decimal_hd(1)] no_sign [OF decimal_hd] span_app(1,2) [OF decimal_digits(1) sp(2), of n] xy sp(1)
    by (simp add: match_token_def match_decimal_def m)
  then show ?thesis by (subst findall_tokens.simps) (simp add: findall_space)
qed

lemma stats_tokens:
  assumes "rate_text m"
  shows "findall_tokens (stats_line m rl dm) =
    [''MBPS'', m, ''REAL'', decimal rl, ''DUMMY'', decimal dm, ''TOTAL'', decimal (rl + dm)]"
proof -
  have w: "findall_tokens (''MBPS '' @ r) = ''MBPS'' # findall_tokens r" "findall_tokens (''REAL '' @ r) = ''REAL'' # findall_tokens r"
    "findall_tokens (''DUMMY '' @ r) = ''DUMMY'' # findall_tokens r" "findall_tokens (''TOTAL '' @ r) = ''TOTAL'' # findall_tokens r" for r
    using findall_word [of "''MBPS''" r] findall_word [of "''REAL''" r] findall_word [of "''DUMMY''" r] findall_word [of "''TOTAL''" r]
    by (simp_all add: isalpha_def)
  show ?thesis
    using w findall_rate [OF assms] by (simp add: stats_line_def findall_number findall_space)
qed

lemma contains_subset: "contains pat s \<Longrightarrow> set pat \<subseteq> set s"
proof (induction s)
  case (Cons c s)
  then show ?case using set_take_subset [of "length pat" "c # s"] by fastforce
qed simp

lemma splitlines_one:
  assumes "\<forall>c\<in>set l. \<not> line_break c"
  shows "splitlines (l @ [char_of (10 :: nat)]) = [l]"
proof -
  have nl: "\<not> \<not> line_break (char_of (10 :: nat))" by (simp add: line_break_def)
  show ?thesis using span_app(1,2) [OF assms nl, of "[]"] by (subst splitlines.simps) simp
qed

lemma strip_same: "l \<noteq> [] \<Longrightarrow> \<not> py_isspace (hd l) \<Longrightarrow> \<not> py_isspace (last l) \<Longrightarrow> strip l = l"
proof -
  have dw: "k \<noteq> [] \<Longrightarrow> \<not> py_isspace (hd k) \<Longrightarrow> dropWhile py_isspace k = k" for k by (cases k) auto
  assume "l \<noteq> []" "\<not> py_isspace (hd l)" "\<not> py_isspace (last l)"
  then show ?thesis using dw [of l] dw [of "rev l"] by (simp add: strip_def hd_rev)
qed

lemma digit_text: "isdigit c \<Longrightarrow> \<not> line_break c \<and> \<not> py_isspace c \<and> lower c = c \<and> c \<noteq> CHR ''v''"
  by (auto simp: isdigit_def line_break_def py_isspace_def lower_def)

lemma stats_chars:
  assumes "rate_text m" "c \<in> set (stats_line m rl dm)"
  shows "\<not> line_break c" "lower c \<noteq> CHR ''v''"
proof -
  have "isdigit c \<or> c \<in> set ''MBPS REAL DUMMY TOTAL.''"
    using assms decimal_digits(1) by (auto simp: stats_line_def rate_text_def)
  moreover have "list_all (\<lambda>c. \<not> line_break c \<and> lower c \<noteq> CHR ''v'') ''MBPS REAL DUMMY TOTAL.''" by code_simp
  ultimately show "\<not> line_break c" "lower c \<noteq> CHR ''v''" using digit_text [of c] by (auto simp: list_all_iff)
qed

text \<open>The graphs show what the client counted.\<close>

lemma stats_shown:
  assumes m: "rate_text m"
  shows "on_vpn_output (stats_line m rl dm @ [char_of (10 :: nat)]) w =
    w\<lparr>graph_data := push_data \<lparr>vy = m, vpkt = decimal (rl + dm), vrl = decimal rl, vdm = decimal dm, vka = ''0'',
       found = True, total_count = Some (decimal (rl + dm))\<rparr> (graph_data w)\<rparr>"
proof -
  let ?l = "stats_line m rl dm"
  have sl: "splitlines (?l @ [char_of (10 :: nat)]) = [?l]" by (rule splitlines_one) (use stats_chars(1) [OF m] in blast)
  have head: "?l \<noteq> []" "hd ?l = CHR ''M''" "take 4 ?l = ''MBPS''" by (simp_all add: stats_line_def)
  have "last ?l = last (decimal (rl + dm))" using decimal_digits(2) by (simp add: stats_line_def)
  then have "isdigit (last ?l)" using decimal_digits(1,2) last_in_set by metis
  then have st: "strip ?l = ?l" using head digit_text by (intro strip_same) (auto simp: py_isspace_def)
  have ne: "?l \<noteq> ''TIMEOUT''" "?l \<noteq> ''CONNECTED''" "?l \<noteq> ''DISCONNECTED''" "?l \<noteq> ''ERROR''"
    using head(2) by auto
  have "\<not> contains ''received keepalive from server'' (map lower ?l)"
    using contains_subset [of "''received keepalive from server''" "map lower ?l"] stats_chars(2) [OF m] by auto
  then have lines: "output_lines [?l] o1 w = Inr (feed_tokens (findall_tokens ?l) o1, w)" for o1
    using head(1) ne by (simp add: st)
  have num: "py_float_ok (decimal n)" for n
    using decimal_digits(1,2) [of n] alpha_digit(2) by (simp add: py_float_ok_def)
  have "py_float_ok m" using m decimal_hd(1) alpha_digit(2) by (auto simp: py_float_ok_def rate_text_def)
  then show ?thesis
    unfolding on_vpn_output_def sl lines stats_tokens [OF m]
    by (simp add: feed_pair_def num Let_def upper_def start_vals_def)
qed

text \<open>
  But the log lines of the client, which also go to its standard output, begin with a date, whose
  numbers make a pair: each of them moves the graphs as well, repeating the last values.
\<close>

lemma log_line_tokens:
  "findall_tokens ''[2026-01-01 10:00:00] Sender thread exiting'' =
    [''2026'', ''01'', ''01'', ''10'', ''00'', ''00'', ''Sender'', ''thread'', ''exiting'']"
  by code_simp

lemma log_line_moves_graphs:
  "found (feed_tokens (findall_tokens ''[2026-01-01 10:00:00] Sender thread exiting'') (start_vals g))"
  unfolding log_line_tokens by (simp add: feed_pair_def py_float_ok_def isalpha_def upper_def start_vals_def Let_def)

section \<open>A timer that fires late\<close>

text \<open>
  A refused input starts a timer that resets the page after two seconds. When the input was
  corrected and the connection came up in the meantime, the page is reset all the same: it shows
  no connection while the client runs, and the next click kills \<open>sudo\<close> and starts a second client.
\<close>

fun window_run :: "string \<Rightarrow> window_event list \<Rightarrow> window \<Rightarrow> window option" where
  "window_run binary [] w = Some w"
| "window_run binary (ev # evs) w = (case window_step binary ev w of None \<Rightarrow> None | Some w1 \<Rightarrow> window_run binary evs w1)"

lemma window_run_ok: "gui_ok w \<Longrightarrow> window_run binary evs w = Some w' \<Longrightarrow> gui_ok w'"
proof (induction evs arbitrary: w)
  case (Cons ev evs)
  obtain w1 where "window_step binary ev w = Some w1" "window_run binary evs w1 = Some w'"
    using Cons.prems(2) by (auto split: option.splits)
  then show ?case using Cons.IH window_step_ok [OF Cons.prems(1)] by blast
qed simp

lemma connected_output: "on_vpn_output (''CONNECTED'' @ [char_of (10 :: nat)]) w = set_connected True w"
proof -
  have "splitlines (''CONNECTED'' @ [char_of (10 :: nat)]) = [''CONNECTED'']"
    by (rule splitlines_one) (simp add: line_break_def)
  moreover have "strip ''CONNECTED'' = ''CONNECTED''" by (rule strip_same) (simp_all add: py_isspace_def)
  ultimately show ?thesis unfolding on_vpn_output_def by (simp add: start_vals_def)
qed

lemma stale_error_timer:
  assumes bad: "start_arguments binary (strip ip0) (strip port) op = Some (Inl e)"
    and good: "start_arguments binary (strip ip) (strip port) op = Some (Inr args)"
  shows "\<exists>w. window_run binary
      [Toggle en ip0 port op, Toggle en ip port op, Output (''CONNECTED'' @ [char_of (10 :: nat)]), Timer] init_window = Some w \<and>
    \<not> pg_connected w \<and> pg_button w = Idle \<and> proc w = Some \<lparr>gp_running = True, gp_watched = True\<rparr> \<and>
    (\<exists>w'. window_step binary (Toggle en ip port op) w = Some w' \<and>
       actions w' = [Start_process args, Process_kill, Start_process args])"
  using assms unfolding window_run.simps window_step.simps
  by (simp add: on_connect_toggle_def init_window_def start_vpn_def show_error_def start_connecting_def connected_output
      [unfolded append.simps] set_connected_def error_timeout_def)

end
