(* ===== verification/Spec2Isabelle.thy ===== *)
theory Spec2Isabelle
  imports Client_Main Server_End Pool_Shutdown Client_Queue Client_Copies Epoll_Handler Gui_Session
begin

text \<open>
  A verification library for the Chamlon VPN.

  \<^bold>\<open>The program.\<close> Chamlon is a VPN over UDP. A server (\<open>chamlon_server\<close>, C) and a client
  (\<open>chamlon_client\<close>, C) run a signed Diffie-Hellman handshake, derive one key for each direction and a
  session identifier, and then exchange data packets: an IP packet read from the TUN device is cut into
  fragments, each with a tunnel header, padded if so configured, encrypted under the key and a sequence
  number, and sent; the receiver checks the number against a replay window, decrypts, reassembles and
  writes the packet to its own TUN device. A session may send at a constant rate, with dummy packets in
  the gaps. The keys are rotated from time to time. On the server an event loop hands received
  datagrams and packets to a pool of worker threads by session, and scheduler threads send for the
  constant-rate sessions; the client has an event loop and a sender thread. A front end
  (\<open>chamlon.py\<close>, Python) collects the options, starts the client and follows its output.

  \<^bold>\<open>Conventions.\<close> C integers are words, or integers and naturals with the wrap-around written out
  (\<open>size_t\<close> lengths: \<open>add64\<close>, \<open>sub64\<close>). A buffer is a list of bytes with its real length. An access outside
  a buffer, a use of a null or freed pointer and a loop that does not end are the value \<open>None\<close>, so that
  \<open>Some\<close> in a conclusion is memory safety and termination. \<open>time(NULL)\<close>, clocks, random bytes, and the outcomes of
  \<open>malloc\<close>, \<open>sendto\<close> and other system calls are arguments. libsodium is the record \<open>sodium\<close> of functions,
  and what is assumed of it (decryption inverts encryption, Diffie-Hellman commutes, signatures made
  verify) is a hypothesis of the properties that need it, with a concrete instance in their witnesses.
  Code between a lock and its unlock is one atomic step.

  \<^bold>\<open>Foundations.\<close>
  \<^item> \<open>Chamlon_Prelude\<close>: machine types, \<open>memcpy\<close>, byte images, generic lemmas, \<open>config_defs\<close> and \<open>buffer_simps\<close>.
  \<^item> \<open>C_Strings\<close>: what is used of the C library on strings.
  \<^item> \<open>Linked_Queue\<close>: linked lists in an explicit store; the locale \<open>simulation\<close>, which the three queues interpret.
  \<^item> \<open>Wire_Format\<close>: headers of \<open>vpn_common.h\<close> and \<open>packet.h\<close>; \<open>derive_two_keys\<close>, \<open>build_nonce\<close>,
    \<open>aead_encrypt\<close>, \<open>aead_decrypt\<close> of \<open>vpn_crypto.c\<close>.

  \<^bold>\<open>Server components\<close> (\<open>chamlon_server/src\<close>).
  \<^item> \<open>Replay_Window\<close> (\<open>replay_window.c\<close>, and the client's copy): the bitmap refines a set of seen
    numbers; the locale \<open>anti_replay\<close> is interpreted on both copies.
  \<^item> \<open>Rate_Limiter\<close> (\<open>rate_limiter.c\<close>): bounds over arbitrary runs of the table, through the locale
    \<open>token_bucket\<close> for the two kinds of bucket; the blacklist.
  \<^item> \<open>Out_Queue\<close> (classifier and queue of \<open>scheduler.c\<close>), \<open>Sched_Heap\<close> (its heap, locale
    \<open>min_queue\<close>), \<open>Cbr_Timing\<close> (its interval arithmetic with double rounding), \<open>Scheduler\<close> (its
    send step and worker rounds).
  \<^item> \<open>Thread_Pool\<close> (\<open>thread_pool.c\<close>: sharded job queues) and \<open>Pool_Shutdown\<close> (workers against
    \<open>thread_pool_destroy\<close>, as a step relation with every interleaving).
  \<^item> \<open>Reassembly\<close> (\<open>fragment.c\<close> and the fragment steps of the data paths), \<open>Metrics\<close> (\<open>metrics.c\<close>),
    \<open>Session\<close> (\<open>session.c\<close>, \<open>packet.c\<close>).
  \<^item> \<open>Handshake\<close> (\<open>handshake.c\<close>), \<open>Packet_Processor\<close> and \<open>Outbound_Path\<close> (\<open>packet_processor.c\<close>).
  \<^item> \<open>Shutdown\<close> (\<open>graceful_shutdown.c\<close>), \<open>Server_Loop\<close> and \<open>Server_End\<close> (\<open>main\<close> of \<open>vpn_server.c\<close>
    and \<open>vpn_tun.c\<close>): the start, and the interleaving of the rounds of the event loop, the pool workers
    and the schedulers as the inductive relation \<open>vpn_reach\<close>.
  \<^item> \<open>Epoll_Handler\<close> (\<open>epoll_handler.c\<close>): a wrapper nothing calls; it leaks no descriptor or block.

  \<^bold>\<open>Client components\<close> (\<open>chamlon_client/src\<close>).
  \<^item> \<open>Client_Handshake\<close> (\<open>vpn_handshake.c\<close>): handshake, retries with backoff, key rotation.
  \<^item> \<open>Client_Data\<close> (\<open>vpn_packet_handler.c\<close>, \<open>vpn_sender_thread.c\<close>, \<open>vpn_event_loop.c\<close>).
  \<^item> \<open>Client_Main\<close> (\<open>vpn_client.c\<close>, \<open>vpn_utils.c\<close>, \<open>vpn_tun.c\<close>): command line, start, routes.
  \<^item> \<open>Client_Queue\<close> (\<open>vpn_queue.c\<close>) and \<open>Client_Copies\<close> (\<open>vpn_crypto.c\<close>, \<open>vpn_reassembly.c\<close>): the
    code that exists twice, proved equivalent to the server's.

  \<^bold>\<open>Front end\<close> (\<open>chamlon.py\<close>). \<open>Gui_Options\<close> has the options page, the input checks and the argument
  list; \<open>Gui_Session\<close> the connection page, the process and the output handler.

  \<^bold>\<open>What the lemmas show across components.\<close> \<open>Tunnel\<close> states what a receiving end promises as the locale
  \<open>tunnel_end\<close>, interprets it on the session code of the server and on the packet handler of the client,
  and derives that an IP packet arrives unchanged in both directions. \<open>Client_Main\<close> shows that a client
  that starts against an answering server reaches such a pair of ends; \<open>Gui_Options\<close> that the front end
  starts the client with what the user chose. \<open>Server_Loop\<close> composes the server: every
  round possible in a reachable state returns and keeps the invariant \<open>vpn_ok\<close>, from which the
  memory safety of all handlers follows. \<open>Server_End\<close> shows when the end of the program is reached.

  \<^bold>\<open>Loops and fuel.\<close> \<open>outbound_loop\<close>, \<open>client_tun_loop\<close> and \<open>drain_loop\<close> are partial functions whose
  value \<open>None\<close> includes not returning. The first two are shown to return for every admissible fragment
  size, the third once the clock passes the timeout, and not at all in the state of \<open>drain_hangs\<close>.
  \<open>free_chain\<close> has the size counter of its queue as fuel, which the queue invariant makes equal to
  the length of the chain. The waiting loop of the handshake ends after
  \<open>MAX_DISCARD_ATTEMPTS\<close> rounds, as in the source. \<open>get_child_pids\<close> has Python's recursion limit as its depth,
  and reaches exactly the descendants within it. Every other loop is a structural recursion or has
  a termination proof.

  \<^bold>\<open>Where the code falls short.\<close> Some theorems prove faults: a plaintext shorter than its header and an
  oversize announcement leave the reassembly buffer (so the safety theorems assume senders that hold
  the key and build packets as the code does), a nonce is used twice after a key rotation, the end
  of the pool can miss a wake-up, and the drain at the end of the server can wait for ever.

  \<^bold>\<open>Not modelled.\<close>
  \<^item> libsodium, the kernel, \<open>ip\<close>, \<open>iptables\<close> and the shell are not part of the sources; calls of them are
    parameters or recorded commands. So are \<open>tun_alloc\<close> and the creation of sockets, which only call the kernel.
  \<^item> Data races inside a section without a lock, and weak memory: a handler is one step. The exceptions
    are the pool (\<open>Pool_Shutdown\<close>) and the rounds of the server's threads (\<open>Server_Loop\<close>).
  \<^item> \<open>vpn_log\<close>, \<open>metrics_print_status\<close> and \<open>metrics_print_detailed_report\<close> read state and print.
  \<^item> \<open>flush_socket_buffer\<close> discards datagrams before a key rotation; the model receives those that come after.
  \<^item> CPU pinning, thread names, timer slack, signal handlers that only end the process.
  \<^item> The presentation of the front end: layout, styles, animations, video. Text of code above 255.
  \<^item> \<open>setup.sh\<close>, the starter script and the Makefiles.
\<close>

end
